(* ===== verification/Oort_Prelude.thy ===== *)
theory Oort_Prelude
  imports Main "HOL-Library.Word" "HOL-Library.AList" "HOL-Library.Sublist"
begin

text \<open>
  What every component of the agent model shares: the C++ exceptions the sources throw and catch,
  the state-and-exception computations in which the handlers are written, the frame rules that
  carry invariants through such computations, and lemmas on strings and association lists.

  A C++ statement that may throw is a function from the state before it to the outcome
  (\<open>Inl\<close> an exception in flight, \<open>Inr\<close> the value) and the state after it. The state survives an
  exception, as it does in the source: nothing is rolled back unless a handler does it.
\<close>

named_theorems exec_simps \<open>equations that run a computation one step\<close>
named_theorems lookup_simps \<open>what a lookup returns after an operation of the file system\<close>
named_theorems frame_intros \<open>rules that carry a frame relation through a computation\<close>

section \<open>Exceptions\<close>

datatype errno =
    ENOENT | EEXIST | EACCES | EXDEV | EDQUOT | ENOSPC | ENOTDIR | EISDIR | ENOTEMPTY
  | EOVERFLOW | EIO | EINTR | EAGAIN | ERANGE | ETIMEDOUT | EINVAL

text \<open>
  The exception classes of the sources. \<open>crash\<close> stands for an access the language leaves
  undefined (a null pointer dereferenced), which no handler catches.
\<close>

datatype exn =
    runtime_error string
  | system_error errno string
  | out_of_range string
  | invalid_argument string
  | length_error string
  | json_parse_error string
  | json_type_error string
  | json_out_of_range string
  | crash string

text \<open>\<open>std::system_error\<close> derives from \<open>std::runtime_error\<close>; the others do not.\<close>

fun is_runtime_error :: "exn \<Rightarrow> bool" where
  "is_runtime_error (runtime_error m) = True"
| "is_runtime_error (system_error e m) = True"
| "is_runtime_error _ = False"

fun is_system_error :: "exn \<Rightarrow> bool" where
  "is_system_error (system_error e m) = True"
| "is_system_error _ = False"

fun is_json_exception :: "exn \<Rightarrow> bool" where
  "is_json_exception (json_parse_error m) = True"
| "is_json_exception (json_type_error m) = True"
| "is_json_exception (json_out_of_range m) = True"
| "is_json_exception _ = False"

fun is_crash :: "exn \<Rightarrow> bool" where
  "is_crash (crash m) = True"
| "is_crash _ = False"

lemma is_system_error_runtime: "is_system_error e \<Longrightarrow> is_runtime_error e"
  by (cases e) auto

text \<open>\<open>what()\<close>; a \<open>system_error\<close> appends the text of its error code to the message.\<close>

fun what :: "(errno \<Rightarrow> string) \<Rightarrow> exn \<Rightarrow> string" where
  "what strerror (system_error e m) = m @ '': '' @ strerror e"
| "what strerror (runtime_error m) = m"
| "what strerror (out_of_range m) = m"
| "what strerror (invalid_argument m) = m"
| "what strerror (length_error m) = m"
| "what strerror (json_parse_error m) = m"
| "what strerror (json_type_error m) = m"
| "what strerror (json_out_of_range m) = m"
| "what strerror (crash m) = m"

section \<open>Computations with state and exceptions\<close>

type_synonym ('s, 'a) ste = "'s \<Rightarrow> (exn + 'a) \<times> 's"

definition ret :: "'a \<Rightarrow> ('s, 'a) ste" where
  "ret x s = (Inr x, s)"

definition throw :: "exn \<Rightarrow> ('s, 'a) ste" where
  "throw e s = (Inl e, s)"

definition lift :: "exn + 'a \<Rightarrow> ('s, 'a) ste" where
  "lift r s = (r, s)"

definition seqE :: "('s, 'a) ste \<Rightarrow> ('a \<Rightarrow> ('s, 'b) ste) \<Rightarrow> ('s, 'b) ste" where
  "seqE m f s = (case m s of (Inl e, t) \<Rightarrow> (Inl e, t) | (Inr x, t) \<Rightarrow> f x t)"

text \<open>\<open>try m catch (e) h\<close>: the handler decides by the exception's class whether it matches.\<close>

definition catchE :: "('s, 'a) ste \<Rightarrow> (exn \<Rightarrow> bool) \<Rightarrow> (exn \<Rightarrow> ('s, 'a) ste) \<Rightarrow> ('s, 'a) ste" where
  "catchE m p h s = (case m s of
      (Inl e, t) \<Rightarrow> (if p e then h e t else (Inl e, t))
    | (Inr x, t) \<Rightarrow> (Inr x, t))"

definition gets :: "('s \<Rightarrow> 'a) \<Rightarrow> ('s, 'a) ste" where
  "gets f s = (Inr (f s), s)"

definition modify :: "('s \<Rightarrow> 's) \<Rightarrow> ('s, unit) ste" where
  "modify f s = (Inr (), f s)"

lemmas ste_defs = ret_def throw_def lift_def seqE_def catchE_def gets_def modify_def

lemma ste_run [simp, exec_simps]:
  "ret x s = (Inr x, s)" "throw e s = (Inl e, s)" "lift r s = (r, s)"
  "gets g s = (Inr (g s), s)" "modify h s = (Inr (), h s)"
  by (simp_all add: ste_defs)

lemma seqE_Inl [exec_simps]: "m s = (Inl e, t) \<Longrightarrow> seqE m f s = (Inl e, t)"
  by (simp add: seqE_def)

lemma seqE_Inr [exec_simps]: "m s = (Inr x, t) \<Longrightarrow> seqE m f s = f x t"
  by (simp add: seqE_def)

lemma seqE_ret_left [simp]: "seqE (ret x) f = f x"
  by (simp add: seqE_def fun_eq_iff)

lemma seqE_gets: "seqE (gets g) f s = f (g s) s"
  by (simp add: seqE_def)

lemma seqE_lift_Inr [simp]: "seqE (lift (Inr x)) f = f x"
  by (simp add: seqE_def fun_eq_iff)

lemma seqE_split_asm: "seqE m f s = (r, t) \<longleftrightarrow>
   (\<exists>e. m s = (Inl e, t) \<and> r = Inl e) \<or> (\<exists>x u. m s = (Inr x, u) \<and> f x u = (r, t))"
  by (auto simp: seqE_def split: prod.splits sum.splits)

lemma seqE_Inr_iff: "seqE m f s = (Inr y, t) \<longleftrightarrow> (\<exists>x u. m s = (Inr x, u) \<and> f x u = (Inr y, t))"
  by (auto simp: seqE_def split: prod.splits sum.splits)

subsection \<open>Frame relations\<close>

text \<open>
  A frame relation says what a computation leaves alone, whether it returns or throws: a
  reflexive and transitive relation between the state before and the state after. The rules
  below carry it through every way the handlers compose computations.
\<close>

definition stable :: "('s \<Rightarrow> 's \<Rightarrow> bool) \<Rightarrow> ('s \<Rightarrow> 'r \<times> 's) \<Rightarrow> bool" where
  "stable R m \<longleftrightarrow> (\<forall>s. R s (snd (m s)))"

lemma stableD: "stable R m \<Longrightarrow> m s = (r, t) \<Longrightarrow> R s t"
  by (metis stable_def snd_conv)

lemma stable_snd: "stable R m \<Longrightarrow> R s (snd (m s))"
  by (simp add: stable_def)

locale frame =
  fixes R :: "'s \<Rightarrow> 's \<Rightarrow> bool"
  assumes frame_refl: "R s s"
    and frame_trans: "R s t \<Longrightarrow> R t u \<Longrightarrow> R s u"
begin

lemma stable_ret [frame_intros]: "stable R (ret x)"
  by (simp add: stable_def frame_refl)

lemma stable_throw [frame_intros]: "stable R (throw e)"
  by (simp add: stable_def frame_refl)

lemma stable_lift [frame_intros]: "stable R (lift r)"
  by (simp add: stable_def frame_refl)

lemma stable_gets [frame_intros]: "stable R (gets f)"
  by (simp add: stable_def frame_refl)

lemma stable_seqE [frame_intros]:
  assumes "stable R m" and "\<And>x. stable R (f x)"
  shows "stable R (seqE m f)"
  unfolding stable_def
proof
  fix s
  show "R s (snd (seqE m f s))"
  proof (cases "m s")
    case (Pair r t)
    with assms(1) have st: "R s t" by (rule stableD)
    show ?thesis
    proof (cases r)
      case (Inl e)
      with Pair st show ?thesis by (simp add: seqE_def)
    next
      case (Inr x)
      have "R t (snd (f x t))" using assms(2) by (simp add: stable_def)
      with Pair Inr st show ?thesis by (auto simp: seqE_def intro: frame_trans)
    qed
  qed
qed

lemma stable_catchE [frame_intros]:
  assumes "stable R m" and "\<And>e. stable R (h e)"
  shows "stable R (catchE m p h)"
  unfolding stable_def
proof
  fix s
  show "R s (snd (catchE m p h s))"
  proof (cases "m s")
    case (Pair r t)
    with assms(1) have st: "R s t" by (rule stableD)
    show ?thesis
    proof (cases r)
      case (Inl e)
      have "R t (snd (h e t))" using assms(2) by (simp add: stable_def)
      with Pair Inl st show ?thesis by (auto simp: catchE_def intro: frame_trans)
    next
      case (Inr x)
      with Pair st show ?thesis by (simp add: catchE_def)
    qed
  qed
qed

end

lemma stable_if [frame_intros]: "stable R a \<Longrightarrow> stable R b \<Longrightarrow> stable R (if c then a else b)"
  by simp


lemma stable_case_sum [frame_intros]:
  "(\<And>a. stable R (f a)) \<Longrightarrow> (\<And>b. stable R (g b)) \<Longrightarrow> stable R (case r of Inl a \<Rightarrow> f a | Inr b \<Rightarrow> g b)"
  by (cases r) simp_all

lemma stable_case_option [frame_intros]:
  "stable R f \<Longrightarrow> (\<And>b. stable R (g b)) \<Longrightarrow> stable R (case r of None \<Rightarrow> f | Some b \<Rightarrow> g b)"
  by (cases r) simp_all

lemma stable_case_prod [frame_intros]:
  "(\<And>a b. stable R (f a b)) \<Longrightarrow> stable R (case r of (a, b) \<Rightarrow> f a b)"
  by (cases r) simp

lemma stable_Let [frame_intros]: "(\<And>x. stable R (f x)) \<Longrightarrow> stable R (let x = e in f x)"
  by simp

section \<open>Strings and lists\<close>

lemma drop_length_diff_suffix:
  assumes "length t \<le> length s"
  shows "drop (length s - length t) s = t \<longleftrightarrow> suffix t s"
proof
  assume "drop (length s - length t) s = t"
  then show "suffix t s" by (metis suffix_drop)
next
  assume "suffix t s"
  then obtain u where "s = u @ t" by (auto simp: suffix_def)
  then show "drop (length s - length t) s = t" by simp
qed

lemma map_of_delete [lookup_simps]: "map_of (AList.delete k al) p = (if p = k then None else map_of al p)"
  by (simp add: delete_conv)

lemma map_of_update [lookup_simps]:
  "map_of (AList.update k v al) p = (if p = k then Some v else map_of al p)"
  by (simp add: update_conv)

lemma takeWhile_neq_append: "c \<notin> set xs \<Longrightarrow> takeWhile (\<lambda>x. x \<noteq> c) (xs @ c # ys) = xs"
  by (induction xs) auto

lemma dropWhile_neq_append: "c \<notin> set xs \<Longrightarrow> dropWhile (\<lambda>x. x \<noteq> c) (xs @ c # ys) = c # ys"
  by (induction xs) auto

lemma takeWhile_neq_shorter: "c \<in> set xs \<Longrightarrow> length (takeWhile (\<lambda>x. x \<noteq> c) xs) < length xs"
  by (induction xs) auto

section \<open>Decimal numbers\<close>

text \<open>\<open>std::to_string\<close> of an integer: decimal digits, a minus sign in front of a negative number.\<close>

definition dec_digit :: "int \<Rightarrow> char" where
  "dec_digit d = ''0123456789'' ! nat (d mod 10)"

function dec_digits :: "int \<Rightarrow> string" where
  "dec_digits n = (if n < 10 then [dec_digit n] else dec_digits (n div 10) @ [dec_digit n])"
  by pat_completeness auto
termination by (relation "measure nat") auto

declare dec_digits.simps [simp del]

definition to_string :: "int \<Rightarrow> string" where
  "to_string n = (if n < 0 then CHR ''-'' # dec_digits (- n) else dec_digits n)"

text \<open>Reading digits back.\<close>

definition digit_val :: "char \<Rightarrow> int" where
  "digit_val c = of_char c - 48"

definition isdigit :: "char \<Rightarrow> bool" where
  "isdigit c \<longleftrightarrow> c \<in> set ''0123456789''"

definition dec_value :: "string \<Rightarrow> int" where
  "dec_value s = foldl (\<lambda>n c. 10 * n + digit_val c) 0 s"

lemma digit_index: "nat (d mod 10) < 10"
  by simp

lemma digits_table: "map digit_val ''0123456789'' = map int [0..<10]" "list_all isdigit ''0123456789''"
  by code_simp+

lemma isdigit_dec_digit [simp]: "isdigit (dec_digit d)"
  using digits_table(2) nth_mem [of "nat (d mod 10)" "''0123456789''"] digit_index [of d]
  by (simp add: dec_digit_def list_all_iff del: set_simps list.set insert_iff)

lemma digit_val_dec_digit [simp]: "digit_val (dec_digit d) = d mod 10"
proof -
  have "digit_val (''0123456789'' ! n) = int n" if "n < 10" for n
  proof -
    have "digit_val (''0123456789'' ! n) = map digit_val ''0123456789'' ! n" using that by (subst nth_map) simp_all
    then show ?thesis using that unfolding digits_table(1) by simp
  qed
  from this [OF digit_index] show ?thesis by (simp add: dec_digit_def)
qed

lemma dec_value_snoc: "dec_value (s @ [c]) = 10 * dec_value s + digit_val c"
  by (simp add: dec_value_def)

lemma dec_value_digits: "0 \<le> n \<Longrightarrow> dec_value (dec_digits n) = n"
proof (induction n rule: dec_digits.induct)
  case (1 n)
  show ?case
  proof (cases "n < 10")
    case True
    with 1 show ?thesis by (simp add: dec_digits.simps dec_value_def)
  next
    case False
    with 1 have "dec_value (dec_digits (n div 10)) = n div 10" by (simp add: pos_imp_zdiv_nonneg_iff)
    with False show ?thesis by (subst dec_digits.simps) (simp add: dec_value_snoc)
  qed
qed

lemma dec_digits_digits: "list_all isdigit (dec_digits n)"
proof (induction n rule: dec_digits.induct)
  case (1 n)
  then show ?case by (subst dec_digits.simps) simp
qed

lemma dec_digits_nonempty [simp]: "dec_digits n \<noteq> []"
  by (subst dec_digits.simps) simp

lemma to_string_inj: "0 \<le> m \<Longrightarrow> 0 \<le> n \<Longrightarrow> to_string m = to_string n \<Longrightarrow> m = n"
  using dec_value_digits by (simp add: to_string_def) metis

end
