(* ===== verification/Oort_Utils.thy ===== *)
theory Oort_Utils
  imports Oort_Prelude
begin

text \<open>
  The pure helpers of \<^verbatim>\<open>impl/Utils.cpp\<close>: the path functions, the UUID generator and the file
  checksum. Strings are lists of bytes (\<open>std::string\<close>); positions are natural numbers below
  \<open>2 ^ 64\<close> (\<open>size_t\<close>), with the wrap-around of their subtraction written out. \<open>crc32\<close> is zlib's
  and is a parameter.
\<close>

unbundle bit_operations_syntax

type_synonym bytes = "8 word list"

section \<open>The parts of std::string the helpers use\<close>

text \<open>\<open>rfind\<close> of one character: the position of its last occurrence; \<open>None\<close> is \<open>npos\<close>.\<close>

definition rfind :: "char \<Rightarrow> string \<Rightarrow> nat option" where
  "rfind c s = (let n = length (takeWhile (\<lambda>x. x \<noteq> c) (rev s))
                in if n = length s then None else Some (length s - Suc n))"

text \<open>\<open>substr(pos)\<close> throws when \<open>pos\<close> lies beyond the end; \<open>substr(0, n)\<close> never does.\<close>

definition substr :: "string \<Rightarrow> nat \<Rightarrow> exn + string" where
  "substr s pos = (if pos \<le> length s then Inr (drop pos s)
                   else Inl (out_of_range ''basic_string::substr''))"

text \<open>Subtraction of \<open>size_t\<close> values.\<close>

definition size_sub :: "nat \<Rightarrow> nat \<Rightarrow> nat" where
  "size_sub a b = (if b \<le> a then a - b else 2 ^ 64 - (b - a))"

section \<open>Paths\<close>

definition tailname :: "string \<Rightarrow> string" where
  "tailname filepath = (case rfind CHR ''/'' filepath of
      None \<Rightarrow> filepath | Some basedir \<Rightarrow> drop (basedir + 1) filepath)"

definition dirname :: "string \<Rightarrow> string" where
  "dirname filepath = (case rfind CHR ''/'' filepath of
      None \<Rightarrow> filepath | Some basedir \<Rightarrow> take basedir filepath)"

definition rootname :: "string \<Rightarrow> string" where
  "rootname filepath = (case rfind CHR ''.'' filepath of
      None \<Rightarrow> filepath | Some ext \<Rightarrow> take ext filepath)"

definition extension :: "string \<Rightarrow> string" where
  "extension filepath = (case rfind CHR ''.'' filepath of
      None \<Rightarrow> '''' | Some ext \<Rightarrow> drop ext filepath)"

definition ends_with :: "string \<Rightarrow> string \<Rightarrow> bool" where
  "ends_with str tail \<longleftrightarrow> length tail \<le> length str \<and> drop (length str - length tail) str = tail"

definition starts_with :: "string \<Rightarrow> string \<Rightarrow> bool" where
  "starts_with str head \<longleftrightarrow> length head \<le> length str \<and> take (length head) str = head"

definition chop :: "string \<Rightarrow> string \<Rightarrow> exn + string" where
  "chop str tail = (case substr str (size_sub (length str) (length tail)) of
      Inl e \<Rightarrow> Inl e
    | Inr s_tail \<Rightarrow> Inr (if s_tail \<noteq> tail then str
                        else take (size_sub (length str) (length tail)) str))"

definition behead :: "string \<Rightarrow> string \<Rightarrow> exn + string" where
  "behead str head = (let s_head = take (length head) str
                      in if s_head \<noteq> head then Inr str else substr str (length head))"

section \<open>Hexadecimal output\<close>

text \<open>\<open>std::hex\<close> with \<open>setfill('0')\<close> and \<open>setw(w)\<close>: lower-case digits, padded on the left.\<close>

definition hex_digit :: "nat \<Rightarrow> char" where
  "hex_digit d = ''0123456789abcdef'' ! (d mod 16)"

fun hex_digits :: "nat \<Rightarrow> string" where
  "hex_digits n = (if n < 16 then [hex_digit n] else hex_digits (n div 16) @ [hex_digit n])"

declare hex_digits.simps [simp del]

definition setw0 :: "nat \<Rightarrow> string \<Rightarrow> string" where
  "setw0 w s = replicate (w - length s) CHR ''0'' @ s"

section \<open>mkUUID\<close>

text \<open>The sixteen random bytes, with the version and variant bits forced as the source does.\<close>

definition uuid_bytes :: "bytes \<Rightarrow> bytes" where
  "uuid_bytes r = r[6 := 0x40 OR (r ! 6 AND 0x0F), 8 := 0x80 OR (r ! 8 AND 0x3F)]"

definition hex_byte :: "8 word \<Rightarrow> string" where
  "hex_byte b = setw0 2 (hex_digits (unat b))"

definition mkUUID :: "bytes \<Rightarrow> string" where
  "mkUUID rand_dat = (let d = uuid_bytes rand_dat; run = (\<lambda>i n. concat (map hex_byte (take n (drop i d))))
     in run 0 4 @ ''-'' @ run 4 2 @ ''-'' @ run 6 2 @ ''-'' @ run 8 1 @ run 9 1 @ ''-'' @ run 10 6)"

section \<open>getCrc\<close>

text \<open>
  The read loop: blocks of 1024 bytes are fed to \<open>crc32\<close> until a read comes back short
  (end of file, or a file that could not be opened). The running value is zlib's 32-bit one.
\<close>

function crc_loop :: "('c \<Rightarrow> 'b list \<Rightarrow> 'c) \<Rightarrow> 'c \<Rightarrow> 'b list \<Rightarrow> 'c" where
  "crc_loop crc32 crc rest = (let block = take 1024 rest in
     if length block = 1024 then crc_loop crc32 (crc32 crc block) (drop 1024 rest)
     else crc32 crc block)"
  by pat_completeness auto
termination
  by (relation "measure (\<lambda>(f, c, rest). length rest)") auto

declare crc_loop.simps [simp del]

definition getCrc :: "(32 word \<Rightarrow> bytes \<Rightarrow> 32 word) \<Rightarrow> 32 word \<Rightarrow> bytes \<Rightarrow> string" where
  "getCrc crc32 crc_init contents = setw0 8 (hex_digits (unat (crc_loop crc32 crc_init contents)))"

text \<open>
  The contract of a checksum fed piece by piece, and that the size of the pieces is immaterial.
\<close>

locale incremental_digest =
  fixes upd :: "'c \<Rightarrow> 'b list \<Rightarrow> 'c"
  assumes upd_nil: "upd c [] = c"
    and upd_append: "upd c (xs @ ys) = upd (upd c xs) ys"
begin

lemma crc_loop_one_shot: "crc_loop upd c rest = upd c rest"
proof (induction rest arbitrary: c rule: length_induct)
  case (1 rest)
  show ?case
  proof (cases "1024 \<le> length rest")
    case True
    with 1 have "crc_loop upd c rest = upd (upd c (take 1024 rest)) (drop 1024 rest)"
      by (subst crc_loop.simps) auto
    also have "\<dots> = upd c (take 1024 rest @ drop 1024 rest)"
      by (rule upd_append [symmetric])
    finally show ?thesis by (simp only: append_take_drop_id)
  next
    case False
    then show ?thesis by (subst crc_loop.simps) simp
  qed
qed

end

section \<open>Properties of the path functions\<close>

lemma rfind_None_iff: "rfind c s = None \<longleftrightarrow> c \<notin> set s"
proof -
  have "length (takeWhile (\<lambda>x. x \<noteq> c) (rev s)) = length s \<longleftrightarrow> takeWhile (\<lambda>x. x \<noteq> c) (rev s) = rev s"
    by (metis length_rev takeWhile_eq_take take_all_iff le_refl)
  also have "\<dots> \<longleftrightarrow> c \<notin> set s"
    by (auto simp: takeWhile_eq_all_conv)
  finally show ?thesis by (simp add: rfind_def Let_def)
qed

lemma rfind_append: "c \<notin> set b \<Longrightarrow> rfind c (a @ c # b) = Some (length a)"
  by (simp add: rfind_def takeWhile_neq_append)

lemma split_last_occ: "c \<in> set s \<Longrightarrow> \<exists>a b. s = a @ c # b \<and> c \<notin> set b"
  by (metis split_list_last)

text \<open>Every path with a separator is its directory, a separator and its last component.\<close>

lemma dirname_tailname: "CHR ''/'' \<notin> set b \<Longrightarrow> dirname (a @ CHR ''/'' # b) = a"
  "CHR ''/'' \<notin> set b \<Longrightarrow> tailname (a @ CHR ''/'' # b) = b"
  by (simp_all add: dirname_def tailname_def rfind_append)

lemma dirname_slash: "CHR ''/'' \<notin> set b \<Longrightarrow> dirname (a @ ''/'' @ b) = a"
  by (simp add: dirname_tailname)

lemma tailname_slash: "CHR ''/'' \<notin> set b \<Longrightarrow> tailname (a @ ''/'' @ b) = b"
  by (simp add: tailname_def rfind_append)

lemma ends_with_iff: "ends_with s t \<longleftrightarrow> suffix t s"
proof (cases "length t \<le> length s")
  case True
  then show ?thesis by (simp add: ends_with_def drop_length_diff_suffix)
next
  case False
  then show ?thesis by (auto simp: ends_with_def dest: suffix_length_le)
qed

lemma starts_with_iff: "starts_with s h \<longleftrightarrow> prefix h s"
  by (auto simp: starts_with_def prefix_def) (metis append_take_drop_id)

lemma chop_long:
  "length t \<le> length s \<Longrightarrow> chop s t = Inr (if suffix t s then take (length s - length t) s else s)"
  by (auto simp: chop_def substr_def size_sub_def drop_length_diff_suffix)

lemma chop_append [simp]: "chop (a @ t) t = Inr a"
  by (auto simp: chop_long suffix_def)

lemma chop_short:
  assumes "length s < length t" and "length t < 2 ^ 64"
  shows "chop s t = Inl (out_of_range ''basic_string::substr'')"
proof -
  have "\<not> 2 ^ 64 - (length t - length s) \<le> length s" using assms by linarith
  with assms show ?thesis by (simp add: chop_def substr_def size_sub_def)
qed

lemma behead_total: "behead s h = Inr (if prefix h s then drop (length h) s else s)"
proof (cases "prefix h s")
  case True
  then obtain u where "s = h @ u" by (auto simp: prefix_def)
  then show ?thesis by (simp add: behead_def substr_def)
next
  case False
  then show ?thesis by (auto simp: behead_def) (metis take_is_prefix)
qed

section \<open>Hexadecimal digits\<close>

definition hex_val :: "string \<Rightarrow> nat" where
  "hex_val s = foldl (\<lambda>a c. 16 * a + length (takeWhile (\<lambda>x. x \<noteq> c) ''0123456789abcdef'')) 0 s"

lemma hex_val_digit: "length (takeWhile (\<lambda>x. x \<noteq> hex_digit d) ''0123456789abcdef'') = d mod 16"
proof -
  have "\<forall>k \<in> set [0..<16]. length (takeWhile (\<lambda>x. x \<noteq> hex_digit k) ''0123456789abcdef'') = k"
    by code_simp
  moreover have "d mod 16 \<in> set [0..<16]" by simp
  moreover have "hex_digit (d mod 16) = hex_digit d" by (simp add: hex_digit_def)
  ultimately show ?thesis by metis
qed

lemma hex_val_append1: "hex_val (s @ [hex_digit d]) = 16 * hex_val s + d mod 16"
  by (simp add: hex_val_def hex_val_digit del: takeWhile.simps)

lemma hex_val_Nil [simp]: "hex_val [] = 0"
  by (simp add: hex_val_def)

lemma hex_val_hex_digits: "hex_val (hex_digits n) = n"
proof (induction n rule: hex_digits.induct)
  case (1 n)
  then show ?case
    using hex_val_append1 [of "[]" n] by (subst hex_digits.simps) (simp add: hex_val_append1)
qed

lemma hex_val_zeros: "hex_val (replicate k CHR ''0'' @ s) = hex_val s"
proof (induction k)
  case (Suc k)
  have "hex_val (CHR ''0'' # t) = hex_val t" for t by (simp add: hex_val_def)
  with Suc show ?case by simp
qed simp

lemma hex_val_setw0: "hex_val (setw0 w (hex_digits n)) = n"
  by (simp add: setw0_def hex_val_zeros hex_val_hex_digits)

lemma length_hex_digits: "n < 16 ^ k \<Longrightarrow> 0 < k \<Longrightarrow> length (hex_digits n) \<le> k"
proof (induction k arbitrary: n)
  case (Suc k)
  show ?case
  proof (cases "n < 16")
    case True
    then show ?thesis by (subst hex_digits.simps) simp
  next
    case False
    with Suc.prems have "n div 16 < 16 ^ k" and "0 < k"
      by (auto intro: ccontr simp: less_mult_imp_div_less mult.commute)
    with Suc.IH [of "n div 16"] False show ?thesis by (subst hex_digits.simps) simp
  qed
qed simp

lemma length_setw0_hex: "n < 16 ^ k \<Longrightarrow> 0 < k \<Longrightarrow> length (setw0 k (hex_digits n)) = k"
  by (simp add: setw0_def length_hex_digits)

lemma hex_byte_two: "hex_byte b = [hex_digit (unat b div 16), hex_digit (unat b)]"
proof -
  have lt: "unat b < 256" using unsigned_less [of b, where 'a = nat] by simp
  show ?thesis
  proof (cases "unat b < 16")
    case True
    then have "hex_digits (unat b) = [hex_digit (unat b)]" by (subst hex_digits.simps) simp
    with True show ?thesis by (simp add: hex_byte_def setw0_def hex_digit_def)
  next
    case False
    with lt have "hex_digits (unat b) = [hex_digit (unat b div 16), hex_digit (unat b)]"
      by (subst hex_digits.simps, subst hex_digits.simps) simp
    then show ?thesis by (simp add: hex_byte_def setw0_def)
  qed
qed

lemma hex_byte_inject: "hex_byte a = hex_byte b \<longleftrightarrow> a = b"
  by (metis hex_byte_def hex_val_setw0 word_unat_eq_iff)

lemma concat_hex_bytes_inject:
  "length xs = length ys \<Longrightarrow> concat (map hex_byte xs) = concat (map hex_byte ys) \<longleftrightarrow> xs = ys"
proof (induction xs ys rule: list_induct2)
  case (Cons x xs y ys)
  have "concat (map hex_byte (x # xs)) = concat (map hex_byte (y # ys)) \<longleftrightarrow>
        hex_byte x = hex_byte y \<and> concat (map hex_byte xs) = concat (map hex_byte ys)"
    by (simp add: hex_byte_two)
  with Cons.IH show ?case by (simp add: hex_byte_inject)
qed simp

lemma length_concat_hex_bytes: "length (concat (map hex_byte xs)) = 2 * length xs"
  by (induction xs) (simp_all add: hex_byte_two)

section \<open>A concrete checksum\<close>

text \<open>
  CRC-32 as zlib documents it (reflected polynomial \<open>0xEDB88320\<close>, complemented before and
  after), computed bit by bit: the instance on which the checksum's contract is exhibited.
\<close>

definition ref_crc32_bit :: "32 word \<Rightarrow> 32 word" where
  "ref_crc32_bit c = (if bit c 0 then drop_bit 1 c XOR 0xEDB88320 else drop_bit 1 c)"

definition ref_crc32_byte :: "32 word \<Rightarrow> 8 word \<Rightarrow> 32 word" where
  "ref_crc32_byte c b = (let bit2 = (\<lambda>x. ref_crc32_bit (ref_crc32_bit x))
     in bit2 (bit2 (bit2 (bit2 (c XOR ucast b)))))"

definition ref_crc32 :: "32 word \<Rightarrow> bytes \<Rightarrow> 32 word" where
  "ref_crc32 crc bs = NOT (foldl ref_crc32_byte (NOT crc) bs)"

interpretation zlib_ref: incremental_digest ref_crc32
  by unfold_locales (simp_all add: ref_crc32_def)

definition bytes_of :: "string \<Rightarrow> bytes" where
  "bytes_of s = map (\<lambda>c. word_of_nat (of_char c)) s"

section \<open>Claims\<close>

lemma uuid_bytes_length [simp]: "length (uuid_bytes r) = length r"
  by (simp add: uuid_bytes_def)

lemma unat_high_nibble: "unat (w :: 8 word) div 16 = unat (drop_bit 4 w)"
  by (subst unat_drop_bit_eq) (simp add: drop_bit_eq_div)

lemma version_nibble: "unat ((0x40 :: 8 word) OR (b AND 0x0F)) div 16 = 4"
  by (simp add: unat_high_nibble)

lemma variant_nibble:
  "hex_digit (unat ((0x80 :: 8 word) OR (b AND 0x3F)) div 16) \<in> set ''89ab''"
proof -
  define v where "v = drop_bit 4 b AND (3 :: 8 word)"
  have "v \<le> 3" unfolding v_def by (rule word_and_le1)
  then have "unat v \<le> 3" by (simp add: word_le_nat_alt)
  then have "v = 0 \<or> v = 1 \<or> v = 2 \<or> v = 3" by unat_arith
  moreover have "drop_bit 4 ((0x80 :: 8 word) OR (b AND 0x3F)) = 8 OR v"
    by (simp add: v_def)
  ultimately show ?thesis
    unfolding unat_high_nibble by (auto simp: hex_digit_def)
qed

lemma hex_digit_in: "hex_digit d \<in> set ''0123456789abcdef''"
proof -
  have "hex_digit d \<in> set ''0123456789abcdef''" if "d mod 16 < length ''0123456789abcdef''"
    unfolding hex_digit_def using that by (rule nth_mem)
  then show ?thesis by simp
qed

lemma hex_bytes_digits: "set (concat (map hex_byte bs)) \<subseteq> set ''0123456789abcdef''"
proof -
  have "set (hex_byte b) \<subseteq> set ''0123456789abcdef''" for b
    using hex_digit_in [of "unat b div 16"] hex_digit_in [of "unat b"] unfolding hex_byte_two by (simp only: list.set) blast
  then show ?thesis by (simp only: set_concat set_map) blast
qed

text \<open>
  (C38) The identifier made by \<open>mkUUID\<close> from sixteen random bytes has the textual form of a
  version-4 UUID: five groups of 8, 4, 4, 4 and 12 lower-case hexadecimal digits with dashes between them, the version digit 4 at the head of
  the third group and a variant digit among 8, 9, a and b at the head of the fourth.
\<close>

theorem mkUUID_format:
  assumes "length r = 16"
  shows "\<exists>a b c d e. mkUUID r = a @ ''-'' @ b @ ''-'' @ c @ ''-'' @ d @ ''-'' @ e
    \<and> map length [a, b, c, d, e] = [8, 4, 4, 4, 12] \<and> set (a @ b @ c @ d @ e) \<subseteq> set ''0123456789abcdef''
    \<and> hd c = CHR ''4'' \<and> hd d \<in> set ''89ab''"
proof -
  let ?run = "\<lambda>i n. concat (map hex_byte (take n (drop i (uuid_bytes r))))"
  have len: "length (?run i n) = 2 * n" if "i + n \<le> 16" for i n
    using that assms by (simp add: length_concat_hex_bytes)
  have first: "\<exists>u. ?run i (Suc n) = hex_byte (uuid_bytes r ! i) @ u" if "i + n < 16" for i n
  proof -
    have "drop i (uuid_bytes r) = uuid_bytes r ! i # drop (Suc i) (uuid_bytes r)"
      using that assms by (intro Cons_nth_drop_Suc [symmetric]) simp
    then show ?thesis by simp
  qed
  have six: "uuid_bytes r ! 6 = 0x40 OR (r ! 6 AND 0x0F)" and eight: "uuid_bytes r ! 8 = 0x80 OR (r ! 8 AND 0x3F)"
    using assms by (simp_all add: uuid_bytes_def)
  have "hd (?run 6 (Suc 1)) = hex_digit 4"
    using first [of 6 1] version_nibble [of "r ! 6"] by (auto simp: hex_byte_two six)
  then have c: "hd (?run 6 2) = CHR ''4''" by (simp add: hex_digit_def numeral_2_eq_2)
  have d: "hd (?run 8 1 @ ?run 9 1) \<in> set ''89ab''"
  proof -
    obtain u where u: "?run 8 (Suc 0) = hex_byte (uuid_bytes r ! 8) @ u" using first [of 8 0] by auto
    show ?thesis
      unfolding One_nat_def u hex_byte_two eight append_Cons list.sel by (rule variant_nibble)
  qed
  have hex: "set (?run i n) \<subseteq> set ''0123456789abcdef''" for i n by (rule hex_bytes_digits)
  show ?thesis
  proof (intro exI conjI)
    show "mkUUID r = ?run 0 4 @ ''-'' @ ?run 4 2 @ ''-'' @ ?run 6 2 @ ''-'' @ (?run 8 1 @ ?run 9 1) @ ''-'' @ ?run 10 6"
      by (simp add: mkUUID_def Let_def)
    show "set (?run 0 4 @ ?run 4 2 @ ?run 6 2 @ (?run 8 1 @ ?run 9 1) @ ?run 10 6) \<subseteq> set ''0123456789abcdef''"
      unfolding set_append using hex by blast
    show "map length [?run 0 4, ?run 4 2, ?run 6 2, ?run 8 1 @ ?run 9 1, ?run 10 6] = [8, 4, 4, 4, 12]"
      by (simp only: list.map length_append len numeral_le_iff) simp
  qed (rule c, rule d)
qed

theorem mkUUID_format_witness: "length (mkUUID (replicate 16 0xFF)) = 36"
proof -
  have "length (replicate 16 (0xFF :: 8 word)) = 16" by simp
  from mkUUID_format [OF this] show ?thesis by (elim exE conjE) simp
qed

lemma uuid_join_inject:
  "length a1 = length b1 \<Longrightarrow> length a2 = length b2 \<Longrightarrow> length a3 = length b3 \<Longrightarrow>
   length a4 = length b4 \<Longrightarrow> length a5 = length b5 \<Longrightarrow>
   a1 @ ''-'' @ a2 @ ''-'' @ a3 @ ''-'' @ a4 @ a5 @ ''-'' @ a6 =
   b1 @ ''-'' @ b2 @ ''-'' @ b3 @ ''-'' @ b4 @ b5 @ ''-'' @ b6 \<Longrightarrow>
   a1 = b1 \<and> a2 = b2 \<and> a3 = b3 \<and> a4 = b4 \<and> a5 = b5 \<and> a6 = b6"
  by simp

lemma mkUUID_parts:
  fixes d d' :: bytes
  assumes "length d = 16" and "length d' = 16"
    and "take 4 d = take 4 d'" "take 2 (drop 4 d) = take 2 (drop 4 d')"
      "take 2 (drop 6 d) = take 2 (drop 6 d')" "take 1 (drop 8 d) = take 1 (drop 8 d')"
      "take 1 (drop 9 d) = take 1 (drop 9 d')" "take 6 (drop 10 d) = take 6 (drop 10 d')"
  shows "d = d'"
proof -
  have split: "e = take 4 e @ take 2 (drop 4 e) @ take 2 (drop 6 e) @ take 1 (drop 8 e)
      @ take 1 (drop 9 e) @ take 6 (drop 10 e)" if "length e = 16" for e :: bytes
  proof -
    have "take 6 (drop 10 e) = drop 10 e" using that by simp
    moreover have "drop 9 e = take 1 (drop 9 e) @ drop 10 e" "drop 8 e = take 1 (drop 8 e) @ drop 9 e"
      "drop 6 e = take 2 (drop 6 e) @ drop 8 e" "drop 4 e = take 2 (drop 4 e) @ drop 6 e"
      using append_take_drop_id [of 1 "drop 9 e"] append_take_drop_id [of 1 "drop 8 e"]
        append_take_drop_id [of 2 "drop 6 e"] append_take_drop_id [of 2 "drop 4 e"]
      by simp_all
    ultimately show ?thesis by (metis append_take_drop_id)
  qed
  from split [OF assms(1)] split [OF assms(2)] assms(3-) show ?thesis by metis
qed

text \<open>
  Two calls of \<open>mkUUID\<close> give the same identifier exactly when the random bytes agree
  outside the six bits the version and the variant force: no randomness is lost in printing.
\<close>

lemma mkUUID_inject:
  assumes "length r = 16" and "length r' = 16"
  shows "mkUUID r = mkUUID r' \<longleftrightarrow> uuid_bytes r = uuid_bytes r'"
proof
  let ?h = "\<lambda>d i n. concat (map hex_byte (take n (drop i d)))"
  assume eq: "mkUUID r = mkUUID r'"
  have len: "length (?h d i n) = 2 * n" if "length d = 16" "i + n \<le> 16" for d :: bytes and i n
    using that by (simp add: length_concat_hex_bytes)
  have piece: "take n (drop i (uuid_bytes r)) = take n (drop i (uuid_bytes r'))"
    if "?h (uuid_bytes r) i n = ?h (uuid_bytes r') i n" for i n
    using that assms by (subst (asm) concat_hex_bytes_inject) simp_all
  from eq have "?h (uuid_bytes r) 0 4 = ?h (uuid_bytes r') 0 4 \<and>
      ?h (uuid_bytes r) 4 2 = ?h (uuid_bytes r') 4 2 \<and>
      ?h (uuid_bytes r) 6 2 = ?h (uuid_bytes r') 6 2 \<and>
      ?h (uuid_bytes r) 8 1 = ?h (uuid_bytes r') 8 1 \<and>
      ?h (uuid_bytes r) 9 1 = ?h (uuid_bytes r') 9 1 \<and>
      ?h (uuid_bytes r) 10 6 = ?h (uuid_bytes r') 10 6"
    unfolding mkUUID_def Let_def using assms by (intro uuid_join_inject) (simp_all only: len uuid_bytes_length)
  then have "take 4 (drop 0 (uuid_bytes r)) = take 4 (drop 0 (uuid_bytes r')) \<and>
      take 2 (drop 4 (uuid_bytes r)) = take 2 (drop 4 (uuid_bytes r')) \<and>
      take 2 (drop 6 (uuid_bytes r)) = take 2 (drop 6 (uuid_bytes r')) \<and>
      take 1 (drop 8 (uuid_bytes r)) = take 1 (drop 8 (uuid_bytes r')) \<and>
      take 1 (drop 9 (uuid_bytes r)) = take 1 (drop 9 (uuid_bytes r')) \<and>
      take 6 (drop 10 (uuid_bytes r)) = take 6 (drop 10 (uuid_bytes r'))"
    by (elim conjE) (intro conjI; rule piece; assumption)
  then show "uuid_bytes r = uuid_bytes r'"
    using assms by - (rule mkUUID_parts, simp_all)
qed (simp add: mkUUID_def)

text \<open>
  (C35) Reading a file in blocks of 1024 bytes does not change its checksum: for any \<open>crc32\<close>
  that can be fed piece by piece, \<open>getCrc\<close> is eight hexadecimal digits that spell the checksum
  of the whole contents, and two files have equal strings exactly when their checksums agree.
\<close>

theorem getCrc_blockwise:
  assumes "incremental_digest crc32"
  shows "getCrc crc32 i xs = setw0 8 (hex_digits (unat (crc32 i xs)))
    \<and> length (getCrc crc32 i xs) = 8 \<and> hex_val (getCrc crc32 i xs) = unat (crc32 i xs)
    \<and> (getCrc crc32 i xs = getCrc crc32 i ys \<longleftrightarrow> crc32 i xs = crc32 i ys)"
proof -
  have eq: "getCrc crc32 i zs = setw0 8 (hex_digits (unat (crc32 i zs)))" for zs
    by (simp add: getCrc_def incremental_digest.crc_loop_one_shot [OF assms])
  have "unat (crc32 i xs) < 16 ^ 8" using unsigned_less [of "crc32 i xs", where 'a = nat] by simp
  then have "length (getCrc crc32 i xs) = 8" by (simp only: eq length_setw0_hex)
  moreover have val: "hex_val (getCrc crc32 i zs) = unat (crc32 i zs)" for zs
    by (simp add: eq hex_val_setw0)
  moreover have "getCrc crc32 i xs = getCrc crc32 i ys \<longleftrightarrow> crc32 i xs = crc32 i ys"
    by (metis eq val word_unat_eq_iff)
  ultimately show ?thesis by (simp add: eq)
qed

lemma ref_crc32_a: "ref_crc32 0 (bytes_of ''a'') = 0xe8b7be43"
  by (simp add: bytes_of_def of_char_def ref_crc32_def ref_crc32_byte_def ref_crc32_bit_def)

theorem getCrc_blockwise_witness:
  "incremental_digest ref_crc32 \<and> getCrc ref_crc32 0 (bytes_of ''a'') = ''e8b7be43''"
  using getCrc_blockwise [OF zlib_ref.incremental_digest_axioms, of 0 "bytes_of ''a''" "[]"]
    zlib_ref.incremental_digest_axioms
  by (simp add: ref_crc32_a hex_digits.simps hex_digit_def setw0_def)

lemma rootname_extension: "CHR ''.'' \<notin> set b \<Longrightarrow> rootname (a @ CHR ''.'' # b) = a"
  "CHR ''.'' \<notin> set b \<Longrightarrow> extension (a @ CHR ''.'' # b) = CHR ''.'' # b"
  by (simp_all add: rootname_def extension_def rfind_append)

text \<open>
  (C39) The path helpers split a path at the last separator: a path with a slash is
  \<open>dirname\<close>, a slash and a \<open>tailname\<close> free of slashes, a path without one is both its own
  \<open>dirname\<close> and its own \<open>tailname\<close>; a path with a dot is \<open>rootname\<close> and an \<open>extension\<close> that starts with a dot and has no
  other, and a path without one is its own \<open>rootname\<close>, with no extension.
\<close>

theorem path_parts:
  "(if CHR ''/'' \<in> set p then dirname p @ ''/'' @ tailname p = p \<and> CHR ''/'' \<notin> set (tailname p)
    else dirname p = p \<and> tailname p = p)
   \<and> (if CHR ''.'' \<in> set p then \<exists>e. extension p = CHR ''.'' # e \<and> CHR ''.'' \<notin> set e \<and> rootname p @ extension p = p
      else rootname p = p \<and> extension p = [])"
proof (intro conjI)
  show "if CHR ''/'' \<in> set p then dirname p @ ''/'' @ tailname p = p \<and> CHR ''/'' \<notin> set (tailname p)
    else dirname p = p \<and> tailname p = p"
  proof (cases "CHR ''/'' \<in> set p")
    case True
    then obtain a b where "p = a @ CHR ''/'' # b" "CHR ''/'' \<notin> set b"
      using split_last_occ by metis
    then show ?thesis by (simp add: dirname_tailname)
  next
    case False
    then have "rfind CHR ''/'' p = None" by (simp add: rfind_None_iff)
    with False show ?thesis by (simp add: dirname_def tailname_def)
  qed
  show "if CHR ''.'' \<in> set p then \<exists>e. extension p = CHR ''.'' # e \<and> CHR ''.'' \<notin> set e \<and> rootname p @ extension p = p
      else rootname p = p \<and> extension p = []"
  proof (cases "CHR ''.'' \<in> set p")
    case True
    then obtain a b where "p = a @ CHR ''.'' # b" "CHR ''.'' \<notin> set b"
      using split_last_occ by metis
    then show ?thesis by (simp add: rootname_extension)
  next
    case False
    then have "rfind CHR ''.'' p = None" by (simp add: rfind_None_iff)
    with False show ?thesis by (simp add: rootname_def extension_def)
  qed
qed

text \<open>
  (C40) \<open>chop\<close> removes the tail from a string that ends with it and returns any other string
  unchanged, except that a string shorter than the tail makes it throw \<open>out_of_range\<close> (the
  unsigned subtraction wraps around), where its comment promises the original string.
\<close>

theorem chop_cases:
  assumes "length tail < 2 ^ 64"
  shows "chop str tail =
    (if length str < length tail then Inl (out_of_range ''basic_string::substr'')
     else if ends_with str tail then Inr (take (length str - length tail) str) else Inr str)"
  using assms by (simp add: chop_short chop_long ends_with_iff)

theorem chop_cases_witness:
  "chop ''foo.bar.baz'' ''.baz'' = Inr ''foo.bar'' \<and> chop ''foo.bar.baz'' ''.bar'' = Inr ''foo.bar.baz''
   \<and> chop ''ab'' ''.baz'' = Inl (out_of_range ''basic_string::substr'')"
  using chop_cases [of "''.baz''" "''foo.bar.baz''"] chop_cases [of "''.bar''" "''foo.bar.baz''"]
    chop_cases [of "''.baz''" "''ab''"]
  by (simp add: ends_with_def)

end
