(* ===== verification/Oort_Posix.thy ===== *)
theory Oort_Posix
  imports Oort_Utils
begin

text \<open>
  The operating system as the agent sees it: files by path, and the system calls the sources make.

  A path names an inode or nothing; paths are compared as strings (the agent never follows
  \<^verbatim>\<open>..\<close> or symbolic links on purpose). The order of the association list is the order in which
  \<open>readdir\<close> returns the entries. Every call may also fail for a reason outside the model
  (permissions, quotas, I/O errors): \<open>w_fault\<close> gives the error of each call, with its
  arguments, and theorems quantify over it. \<open>w_short\<close> gives how many bytes a \<open>write\<close> at an offset
  of a file leaves unwritten. \<open>w_temp\<close> are the suffixes \<open>mkstemp\<close> and \<open>mkdtemp\<close> try, \<open>w_rand\<close> the
  bytes \<^verbatim>\<open>/dev/urandom\<close> delivers, \<open>w_lag\<close> the time that passes between two readings of the
  steady clock.
\<close>

type_synonym path = string

datatype fkind = Reg | Dir | Special

record inode =
  i_kind :: fkind
  i_data :: bytes
  i_mtime :: int
  i_ctime :: int
  i_uid :: nat
  i_mode :: "32 word"

datatype amode = F_OK | R_OK | W_OK

datatype syscall =
    Sc_rename path path | Sc_unlink path | Sc_stat path | Sc_access path amode | Sc_mkdir path
  | Sc_rmdir path | Sc_mkdtemp path | Sc_mkstemp path | Sc_open path | Sc_creat path
  | Sc_opendir path | Sc_read path nat | Sc_write path nat | Sc_flush path

record statvfs =
  f_bsize :: "64 word"
  f_frsize :: "64 word"
  f_blocks :: "64 word"
  f_bavail :: "64 word"

record world =
  w_files :: "(path \<times> inode) list"
  w_errno :: errno
  w_fault :: "syscall \<Rightarrow> errno option"
  w_short :: "path \<Rightarrow> nat \<Rightarrow> nat"
  w_dev :: "path \<Rightarrow> nat"
  w_vfs :: "path \<Rightarrow> statvfs"
  w_time :: int
  w_mono :: int
  w_lag :: nat
  w_rand :: "bytes list"
  w_temp :: "string list"
  w_euid :: nat

type_synonym 'a sys = "world \<Rightarrow> (errno + 'a) \<times> world"

abbreviation file_at :: "world \<Rightarrow> path \<Rightarrow> inode option" where
  "file_at w p \<equiv> map_of (w_files w) p"

definition fail :: "errno \<Rightarrow> 'a sys" where
  "fail e w = (Inl e, w\<lparr>w_errno := e\<rparr>)"

definition guard_fault :: "syscall \<Rightarrow> 'a sys \<Rightarrow> 'a sys" where
  "guard_fault c m w = (case w_fault w c of Some e \<Rightarrow> fail e w | None \<Rightarrow> m w)"

definition parent_dir :: "path \<Rightarrow> path" where
  "parent_dir p = (if dirname p = [] then ''/'' else dirname p)"

definition is_dir :: "world \<Rightarrow> path \<Rightarrow> bool" where
  "is_dir w p \<longleftrightarrow> (case file_at w p of Some i \<Rightarrow> i_kind i = Dir | None \<Rightarrow> False)"

text \<open>The name of a path inside a directory, when it lies directly in it.\<close>

definition entry_name :: "path \<Rightarrow> path \<Rightarrow> string option" where
  "entry_name d p = (let n = drop (length d + 1) p in
     if prefix (d @ ''/'') p \<and> n \<noteq> [] \<and> CHR ''/'' \<notin> set n then Some n else None)"

definition dir_entries :: "world \<Rightarrow> path \<Rightarrow> string list" where
  "dir_entries w d = ''.'' # ''..'' # List.map_filter (\<lambda>(p, i). entry_name d p) (w_files w)"

section \<open>System calls\<close>

definition sys_stat :: "path \<Rightarrow> inode sys" where
  "sys_stat p = guard_fault (Sc_stat p) (\<lambda>w. case file_at w p of
      None \<Rightarrow> fail ENOENT w | Some i \<Rightarrow> (Inr i, w))"

definition sys_access :: "path \<Rightarrow> amode \<Rightarrow> unit sys" where
  "sys_access p m = guard_fault (Sc_access p m) (\<lambda>w. case file_at w p of
      None \<Rightarrow> fail ENOENT w | Some i \<Rightarrow> (Inr (), w))"

definition sys_unlink :: "path \<Rightarrow> unit sys" where
  "sys_unlink p = guard_fault (Sc_unlink p) (\<lambda>w. case file_at w p of
      None \<Rightarrow> fail ENOENT w
    | Some i \<Rightarrow> if i_kind i = Dir then fail EISDIR w
               else (Inr (), w\<lparr>w_files := AList.delete p (w_files w)\<rparr>))"

definition relocate :: "path \<Rightarrow> path \<Rightarrow> path \<Rightarrow> path" where
  "relocate src dst p = (if p = src then dst
     else if prefix (src @ ''/'') p then dst @ drop (length src) p else p)"

text \<open>
  \<open>rename\<close>: a plain file replaces a plain file; a directory moves with everything below it and
  replaces an empty directory only; source and destination must be on one device.
\<close>

definition sys_rename :: "path \<Rightarrow> path \<Rightarrow> unit sys" where
  "sys_rename src dst = guard_fault (Sc_rename src dst) (\<lambda>w. case file_at w src of
      None \<Rightarrow> fail ENOENT w
    | Some i \<Rightarrow>
        if \<not> is_dir w (parent_dir dst) then fail ENOENT w
        else if w_dev w (parent_dir src) \<noteq> w_dev w (parent_dir dst) then fail EXDEV w
        else if src = dst then (Inr (), w)
        else if i_kind i = Dir then
          (if prefix (src @ ''/'') dst then fail EINVAL w
           else if file_at w dst \<noteq> None \<and> \<not> is_dir w dst then fail ENOTDIR w
           else if \<exists>(p, j) \<in> set (w_files w). prefix (dst @ ''/'') p then fail ENOTEMPTY w
           else (Inr (), w\<lparr>w_files := map (\<lambda>(p, j). (relocate src dst p, j)) (AList.delete dst (w_files w))\<rparr>))
        else if is_dir w dst then fail EISDIR w
        else (Inr (), w\<lparr>w_files := AList.update dst i (AList.delete src (w_files w))\<rparr>))"

definition new_inode :: "world \<Rightarrow> fkind \<Rightarrow> 32 word \<Rightarrow> inode" where
  "new_inode w k mode = \<lparr>i_kind = k, i_data = [], i_mtime = w_time w, i_ctime = w_time w,
     i_uid = w_euid w, i_mode = mode\<rparr>"

definition put_file :: "path \<Rightarrow> inode \<Rightarrow> world \<Rightarrow> world" where
  "put_file p i w = w\<lparr>w_files := AList.update p i (w_files w)\<rparr>"

definition sys_mkdir :: "path \<Rightarrow> 32 word \<Rightarrow> unit sys" where
  "sys_mkdir p mode = guard_fault (Sc_mkdir p) (\<lambda>w.
     if file_at w p \<noteq> None then fail EEXIST w
     else if \<not> is_dir w (parent_dir p) then fail ENOENT w
     else (Inr (), put_file p (new_inode w Dir mode) w))"

definition sys_rmdir :: "path \<Rightarrow> unit sys" where
  "sys_rmdir p = guard_fault (Sc_rmdir p) (\<lambda>w. case file_at w p of
      None \<Rightarrow> fail ENOENT w
    | Some i \<Rightarrow>
        if i_kind i \<noteq> Dir then fail ENOTDIR w
        else if \<exists>(q, j) \<in> set (w_files w). prefix (p @ ''/'') q then fail ENOTEMPTY w
        else (Inr (), w\<lparr>w_files := AList.delete p (w_files w)\<rparr>))"

text \<open>
  \<open>mkdtemp\<close> and \<open>mkstemp\<close> replace the six letters X of the template by the first suffix that
  makes an unused name.
\<close>

definition fresh_suffix :: "world \<Rightarrow> path \<Rightarrow> string option" where
  "fresh_suffix w stem = find (\<lambda>x. file_at w (stem @ x) = None) (w_temp w)"

definition sys_mktemp :: "syscall \<Rightarrow> fkind \<Rightarrow> 32 word \<Rightarrow> path \<Rightarrow> path sys" where
  "sys_mktemp c k mode stem = guard_fault c (\<lambda>w. case fresh_suffix w stem of
      None \<Rightarrow> fail EEXIST w
    | Some x \<Rightarrow> if \<not> is_dir w (parent_dir stem) then fail ENOENT w
               else (Inr (stem @ x), put_file (stem @ x) (new_inode w k mode) w))"

definition sys_mkdtemp :: "path \<Rightarrow> path sys" where
  "sys_mkdtemp stem = sys_mktemp (Sc_mkdtemp stem) Dir 0x41C0 stem"

definition sys_mkstemp :: "path \<Rightarrow> path sys" where
  "sys_mkstemp stem = sys_mktemp (Sc_mkstemp stem) Reg 0x8180 stem"

definition sys_open :: "path \<Rightarrow> unit sys" where
  "sys_open p = guard_fault (Sc_open p) (\<lambda>w. case file_at w p of
      None \<Rightarrow> fail ENOENT w | Some i \<Rightarrow> (Inr (), w))"

text \<open>Opening for output creates the file or empties the one that is there.\<close>

definition sys_creat :: "path \<Rightarrow> unit sys" where
  "sys_creat p = guard_fault (Sc_creat p) (\<lambda>w. case file_at w p of
      None \<Rightarrow> if \<not> is_dir w (parent_dir p) then fail ENOENT w
              else (Inr (), put_file p (new_inode w Reg 0x81A4) w)
    | Some i \<Rightarrow> if i_kind i = Dir then fail EISDIR w
               else (Inr (), put_file p (i\<lparr>i_data := [], i_mtime := w_time w\<rparr>) w))"

text \<open>Reading at most \<open>n\<close> bytes at an offset; the empty list is the end of the file.\<close>

definition sys_read :: "path \<Rightarrow> nat \<Rightarrow> nat \<Rightarrow> bytes sys" where
  "sys_read p off n = guard_fault (Sc_read p off) (\<lambda>w. case file_at w p of
      None \<Rightarrow> fail EIO w | Some i \<Rightarrow> (Inr (take n (drop off (i_data i))), w))"

text \<open>Writing at the end of a file that is written sequentially; a short write is not an error.\<close>

definition sys_write :: "path \<Rightarrow> bytes \<Rightarrow> nat sys" where
  "sys_write p bs w = (case file_at w p of
      None \<Rightarrow> fail EIO w
    | Some i \<Rightarrow>
        let off = length (i_data i); n = length bs - w_short w p off
        in guard_fault (Sc_write p off)
             (\<lambda>w. (Inr n, put_file p (i\<lparr>i_data := i_data i @ take n bs, i_mtime := w_time w\<rparr>) w)) w)"

definition sys_opendir :: "path \<Rightarrow> string list sys" where
  "sys_opendir d = guard_fault (Sc_opendir d) (\<lambda>w. case file_at w d of
      None \<Rightarrow> fail ENOENT w
    | Some i \<Rightarrow> if i_kind i \<noteq> Dir then fail ENOTDIR w else (Inr (dir_entries w d), w))"

text \<open>Two readings of the steady clock are \<open>w_lag\<close> apart.\<close>

definition steady_now :: "world \<Rightarrow> int \<times> world" where
  "steady_now w = (w_mono w, w\<lparr>w_mono := w_mono w + int (w_lag w)\<rparr>)"

text \<open>Sixteen bytes from the random device (zeros once the supply of the model is used up).\<close>

definition read_urandom :: "world \<Rightarrow> bytes \<times> world" where
  "read_urandom w = (case w_rand w of
      [] \<Rightarrow> (replicate 16 0, w)
    | r # rs \<Rightarrow> (take 16 (r @ replicate 16 0), w\<lparr>w_rand := rs\<rparr>))"

lemmas sys_defs = sys_stat_def sys_access_def sys_unlink_def sys_rename_def sys_mkdir_def
  sys_rmdir_def sys_mktemp_def sys_mkdtemp_def sys_mkstemp_def sys_open_def sys_creat_def
  sys_read_def sys_write_def sys_opendir_def guard_fault_def fail_def

section \<open>System calls inside C++ code\<close>

text \<open>
  How the sources use a call's outcome: look at it (\<open>attempt\<close>), throw an exception made from the
  error (\<open>check\<close>), or go on whatever it was (\<open>ignore\<close>).
\<close>

definition attempt :: "'a sys \<Rightarrow> (world, errno + 'a) ste" where
  "attempt m w = (case m w of (r, v) \<Rightarrow> (Inr r, v))"

definition check :: "(errno \<Rightarrow> exn) \<Rightarrow> 'a sys \<Rightarrow> (world, 'a) ste" where
  "check f m w = (case m w of (Inl e, v) \<Rightarrow> (Inl (f e), v) | (Inr x, v) \<Rightarrow> (Inr x, v))"

definition ignore :: "'a sys \<Rightarrow> (world, unit) ste" where
  "ignore m w = (Inr (), snd (m w))"

lemma check_Inr_iff: "check f m w = (Inr x, v) \<longleftrightarrow> m w = (Inr x, v)"
  by (auto simp: check_def split: prod.splits sum.splits)

lemma attempt_iff: "attempt m w = (Inr r, v) \<longleftrightarrow> m w = (r, v)"
  by (auto simp: attempt_def split: prod.splits)

section \<open>Frames of the calls\<close>

text \<open>Everything the environment fixes is untouched by the agent's calls.\<close>

definition same_env :: "world \<Rightarrow> world \<Rightarrow> bool" where
  "same_env w v \<longleftrightarrow> w_fault v = w_fault w \<and> w_short v = w_short w \<and> w_dev v = w_dev w
     \<and> w_vfs v = w_vfs w \<and> w_time v = w_time w \<and> w_lag v = w_lag w \<and> w_temp v = w_temp w
     \<and> w_euid v = w_euid w \<and> w_mono w \<le> w_mono v"

text \<open>At most the files of a set of paths differ.\<close>

definition only_files :: "path set \<Rightarrow> world \<Rightarrow> world \<Rightarrow> bool" where
  "only_files A w v \<longleftrightarrow> same_env w v \<and> (\<forall>p. p \<notin> A \<longrightarrow> file_at v p = file_at w p)"

lemma same_env_refl [simp, intro!]: "same_env w w"
  by (simp add: same_env_def)

lemma same_env_trans: "same_env w v \<Longrightarrow> same_env v u \<Longrightarrow> same_env w u"
  by (simp add: same_env_def)

interpretation files_frame: frame "only_files A" for A
  by unfold_locales (auto simp: only_files_def intro: same_env_trans)

lemma only_files_mono: "only_files A w v \<Longrightarrow> A \<subseteq> B \<Longrightarrow> only_files B w v"
  by (auto simp: only_files_def)

lemma stable_only_files_mono: "stable (only_files A) m \<Longrightarrow> A \<subseteq> B \<Longrightarrow> stable (only_files B) m"
  by (auto simp: stable_def intro: only_files_mono)

lemma only_files_file_at: "only_files A w v \<Longrightarrow> p \<notin> A \<Longrightarrow> file_at v p = file_at w p"
  by (simp add: only_files_def)

lemma stable_attempt [frame_intros]: "stable R m \<Longrightarrow> stable R (attempt m)"
  by (auto simp: stable_def attempt_def split: prod.splits) (metis snd_conv)

lemma stable_check [frame_intros]: "stable R m \<Longrightarrow> stable R (check f m)"
  by (auto simp: stable_def check_def split: prod.splits sum.splits) (metis snd_conv)+

lemma stable_ignore [frame_intros]: "stable R m \<Longrightarrow> stable R (ignore m)"
  by (simp add: stable_def ignore_def)

text \<open>The part of the file system at and below a path.\<close>

definition tree :: "path \<Rightarrow> path set" where
  "tree p = {q. q = p \<or> prefix (p @ ''/'') q}"

lemma in_tree_self [simp]: "p \<in> tree p"
  by (simp add: tree_def)

lemma relocate_in_tree: "q \<in> tree src \<Longrightarrow> relocate src dst q \<in> tree dst"
  by (auto simp: tree_def relocate_def prefix_def)

lemma relocate_outside: "q \<notin> tree src \<Longrightarrow> relocate src dst q = q"
  by (auto simp: tree_def relocate_def)

lemma map_of_relocate:
  assumes "p \<notin> tree src" and "p \<notin> tree dst"
  shows "map_of (map (\<lambda>(q, j). (relocate src dst q, j)) al) p = map_of al p"
proof (induction al)
  case (Cons a al)
  obtain q j where a: "a = (q, j)" by (cases a)
  have "relocate src dst q = p \<longleftrightarrow> q = p"
    using assms relocate_in_tree [of q src dst] relocate_outside [of q src dst] by metis
  with Cons.IH a show ?case by auto
qed simp

lemma stable_sys_rename [frame_intros]: "stable (only_files (tree src \<union> tree dst)) (sys_rename src dst)"
proof -
  have "\<And>p al. p \<notin> tree src \<Longrightarrow> p \<notin> tree dst \<Longrightarrow> p \<noteq> src \<and> p \<noteq> dst" by auto
  then show ?thesis
    by (auto simp: stable_def only_files_def same_env_def sys_rename_def guard_fault_def fail_def
        map_of_relocate lookup_simps split: option.splits)
qed

lemma stable_sys_unlink [frame_intros]: "stable (only_files {p}) (sys_unlink p)"
  by (auto simp: stable_def only_files_def same_env_def sys_unlink_def guard_fault_def fail_def
      lookup_simps split: option.splits)

lemma stable_sys_rmdir [frame_intros]: "stable (only_files {p}) (sys_rmdir p)"
  by (auto simp: stable_def only_files_def same_env_def sys_rmdir_def guard_fault_def fail_def
      lookup_simps split: option.splits)

lemma stable_sys_mkdir [frame_intros]: "stable (only_files {p}) (sys_mkdir p mode)"
  by (auto simp: stable_def only_files_def same_env_def sys_mkdir_def guard_fault_def fail_def
      put_file_def lookup_simps split: option.splits)

lemma stable_sys_creat [frame_intros]: "stable (only_files {p}) (sys_creat p)"
  by (auto simp: stable_def only_files_def same_env_def sys_creat_def guard_fault_def fail_def
      put_file_def lookup_simps split: option.splits)

lemma stable_sys_write [frame_intros]: "stable (only_files {p}) (sys_write p bs)"
  by (auto simp: stable_def only_files_def same_env_def sys_write_def guard_fault_def fail_def
      put_file_def lookup_simps Let_def split: option.splits)

lemma stable_sys_reads [frame_intros]:
  "stable (only_files A) (sys_stat p)" "stable (only_files A) (sys_access p m)"
  "stable (only_files A) (sys_open p)" "stable (only_files A) (sys_read p off n)"
  "stable (only_files A) (sys_opendir p)"
  by (auto simp: stable_def only_files_def same_env_def sys_stat_def sys_access_def sys_open_def
      sys_read_def sys_opendir_def guard_fault_def fail_def split: option.splits)

lemma sys_mktemp_Inr:
  "sys_mktemp c k mode stem w = (Inr p, v) \<longleftrightarrow> w_fault w c = None \<and>
     (\<exists>x. fresh_suffix w stem = Some x \<and> p = stem @ x) \<and> is_dir w (parent_dir stem) \<and>
     v = put_file p (new_inode w k mode) w"
  by (auto simp: sys_mktemp_def guard_fault_def fail_def split: option.splits)

lemma fresh_suffix_fresh: "fresh_suffix w stem = Some x \<Longrightarrow> file_at w (stem @ x) = None \<and> x \<in> set (w_temp w)"
  by (auto simp: fresh_suffix_def find_Some_iff)

lemma file_at_put_file [lookup_simps]: "file_at (put_file p i w) q = (if q = p then Some i else file_at w q)"
  by (simp add: put_file_def lookup_simps)

lemma same_env_put_file [simp]: "same_env w (put_file p i w)" "same_env (put_file p i w) w"
  by (simp_all add: put_file_def same_env_def)

section \<open>Successful calls\<close>

text \<open>What the state is after a call that succeeds on plain files.\<close>

lemma sys_rename_plain:
  assumes "sys_rename src dst w = (Inr (), v)" and "file_at w src = Some i" and "i_kind i \<noteq> Dir"
  shows "file_at v p = (if p = dst then Some i else if p = src then None else file_at w p)"
    and "same_env w v" and "w_rand v = w_rand w"
  using assms
  by (auto simp: sys_rename_def guard_fault_def fail_def lookup_simps same_env_def
      split: option.splits if_splits)

lemma sys_rename_success:
  assumes "w_fault w (Sc_rename src dst) = None" and "file_at w src = Some i" and "i_kind i \<noteq> Dir"
    and "is_dir w (parent_dir dst)" and "w_dev w (parent_dir src) = w_dev w (parent_dir dst)"
    and "\<not> is_dir w dst"
  shows "\<exists>v. sys_rename src dst w = (Inr (), v)"
  using assms by (auto simp: sys_rename_def guard_fault_def)

lemma sys_unlink_success:
  "sys_unlink p w = (Inr (), v) \<Longrightarrow> file_at v q = (if q = p then None else file_at w q)"
  by (auto simp: sys_unlink_def guard_fault_def fail_def lookup_simps split: option.splits if_splits)

lemma sys_stat_Inr: "sys_stat p w = (Inr i, v) \<longleftrightarrow> w_fault w (Sc_stat p) = None \<and> file_at w p = Some i \<and> v = w"
  by (auto simp: sys_stat_def guard_fault_def fail_def split: option.splits)

section \<open>A small world for examples\<close>

text \<open>
  A directory, a file with given contents, and a machine on which everything below
  \<^verbatim>\<open>/b\<close> is a file system of its own.
\<close>

definition demo_dir :: inode where
  "demo_dir = \<lparr>i_kind = Dir, i_data = [], i_mtime = 0, i_ctime = 0, i_uid = 0, i_mode = 0x41C0\<rparr>"

definition demo_file :: "bytes \<Rightarrow> inode" where
  "demo_file bs = \<lparr>i_kind = Reg, i_data = bs, i_mtime = 10, i_ctime = 10, i_uid = 0, i_mode = 0x81A4\<rparr>"

definition demo_vfs :: statvfs where
  "demo_vfs = \<lparr>f_bsize = 2, f_frsize = 2, f_blocks = 100, f_bavail = 50\<rparr>"

definition demo_world :: "(path \<times> inode) list \<Rightarrow> (syscall \<Rightarrow> errno option) \<Rightarrow> world" where
  "demo_world files fault = \<lparr>w_files = files, w_errno = EIO, w_fault = fault, w_short = (\<lambda>_ _. 0),
     w_dev = (\<lambda>p. if prefix ''/b'' p then 1 else 0), w_vfs = (\<lambda>_. demo_vfs),
     w_time = 100, w_mono = 0, w_lag = 1, w_rand = [], w_temp = [''x''], w_euid = 0\<rparr>"

end
