(* ===== verification/Oort_Files.thy ===== *)
theory Oort_Files
  imports Oort_Posix
begin

text \<open>
  \<^verbatim>\<open>impl/Files.cpp\<close>: listing directories, \<open>stat\<close> with the regular-file check, the \<open>FileInfo\<close> of a
  file, and the search for old files the cleaner uses. \<open>FileInfo\<close> has the fields that the API
  description \<^verbatim>\<open>spec/oort-sdk-api.yml\<close> gives it. The checksum routine of zlib and \<open>strerror\<close> are
  parameters (\<open>ext_base\<close>).
\<close>

record FileInfo =
  fi_id :: string
  fi_path :: string
  fi_size :: int
  fi_modified :: int
  fi_created :: int
  fi_crc32 :: string
  fi_extra :: "(string \<times> string) list option"

record ext_base =
  x_crc32 :: "32 word \<Rightarrow> bytes \<Rightarrow> 32 word"
  x_crc_init :: "32 word"
  x_strerror :: "errno \<Rightarrow> string"

text \<open>
  A value narrowed to \<open>int\<close>, as \<open>const int now = time(NULL)\<close> does, and as the setters of the generated models do,
  whose \<open>integer\<close> has 32 bits.
\<close>

definition to_int32 :: "int \<Rightarrow> int" where
  "to_int32 n = sint (word_of_int n :: 32 word)"

definition checkPath :: "path \<Rightarrow> bool" where
  "checkPath path \<longleftrightarrow> (case path of [] \<Rightarrow> False | c # _ \<Rightarrow> c = CHR ''/'')"

definition file_stat :: "('x) ext_base_scheme \<Rightarrow> path \<Rightarrow> (world, inode) ste" where
  "file_stat X file = seqE (attempt (sys_stat file)) (\<lambda>r. case r of
      Inl e \<Rightarrow> throw (runtime_error (''stat error: '' @ x_strerror X e))
    | Inr buf \<Rightarrow>
        if i_kind buf \<noteq> Reg
        then throw (runtime_error (''stat error: '' @ file @ '' is not a regular file''))
        else ret buf)"

text \<open>
  What the loop of \<open>getCrc\<close> gets from an \<open>ifstream\<close>: nothing when the file cannot be opened (the stream is
  then in a failed state, which \<open>getCrc\<close> does not look at before its first read), and otherwise the blocks of
  1024 bytes before the first one whose read fails (that read counts no bytes and ends the loop).
\<close>

definition delivered :: "(nat \<Rightarrow> errno option) \<Rightarrow> bytes \<Rightarrow> bytes" where
  "delivered fault bs = (case find (\<lambda>k. fault (1024 * k) \<noteq> None) [0..<Suc (length bs div 1024)] of
      None \<Rightarrow> bs | Some k \<Rightarrow> take (1024 * k) bs)"

definition slurp :: "path \<Rightarrow> (world, bytes) ste" where
  "slurp p = seqE (attempt (sys_open p)) (\<lambda>r. case r of
      Inl e \<Rightarrow> ret []
    | Inr _ \<Rightarrow> gets (\<lambda>w. case file_at w p of None \<Rightarrow> []
                         | Some i \<Rightarrow> delivered (\<lambda>off. w_fault w (Sc_read p off)) (i_data i)))"

definition crc_of :: "('x) ext_base_scheme \<Rightarrow> bytes \<Rightarrow> string" where
  "crc_of X bs = getCrc (x_crc32 X) (x_crc_init X) bs"

definition file_info :: "('x) ext_base_scheme \<Rightarrow> path \<Rightarrow> (world, FileInfo) ste" where
  "file_info X file = seqE (file_stat X file) (\<lambda>buf. seqE (slurp file) (\<lambda>contents.
      ret \<lparr>fi_id = tailname file, fi_path = file, fi_size = to_int32 (int (length (i_data buf))),
           fi_modified = to_int32 (i_mtime buf), fi_created = to_int32 (i_ctime buf),
           fi_crc32 = crc_of X contents, fi_extra = None\<rparr>))"

text \<open>The test \<open>name[0] == '.'\<close>; the first character of an empty string is the null character.\<close>

definition dotfile :: "string \<Rightarrow> bool" where
  "dotfile fname \<longleftrightarrow> (case fname of [] \<Rightarrow> False | c # _ \<Rightarrow> c = CHR ''.'')"

definition list_files :: "path \<Rightarrow> string \<Rightarrow> (world, string list) ste" where
  "list_files dir ext = seqE (check (\<lambda>e. system_error e ''opendir'') (sys_opendir dir)) (\<lambda>names.
      ret (filter (\<lambda>fname. \<not> dotfile fname \<and> (ext = [] \<or> ends_with fname ext)) names))"

fun keep_valid :: "('x) ext_base_scheme \<Rightarrow> path \<Rightarrow> string list \<Rightarrow> (world, string list) ste" where
  "keep_valid X dir [] = ret []"
| "keep_valid X dir (f # fs) =
     seqE (catchE (seqE (file_stat X (dir @ ''/'' @ f)) (\<lambda>_. ret [f])) is_runtime_error (\<lambda>_. ret []))
       (\<lambda>here. seqE (keep_valid X dir fs) (\<lambda>rest. ret (here @ rest)))"

definition file_names :: "('x) ext_base_scheme \<Rightarrow> path \<Rightarrow> (world, string list) ste" where
  "file_names X dir = seqE (list_files dir []) (keep_valid X dir)"

fun old_entries :: "path \<Rightarrow> int \<Rightarrow> string list \<Rightarrow> (world, path list) ste" where
  "old_entries dir limit [] = ret []"
| "old_entries dir limit (n # ns) =
     (if dotfile n then old_entries dir limit ns
      else seqE (attempt (sys_stat (dir @ ''/'' @ n))) (\<lambda>r. seqE (old_entries dir limit ns) (\<lambda>rest.
        ret (case r of
            Inr buf \<Rightarrow> if i_mtime buf < limit then (dir @ ''/'' @ n) # rest else rest
          | Inl e \<Rightarrow> rest))))"

text \<open>\<open>opendir\<close> is not checked: a directory that cannot be opened is dereferenced as null.\<close>

definition oldFiles :: "path \<Rightarrow> int \<Rightarrow> (world, path list) ste" where
  "oldFiles dir age = seqE (gets (\<lambda>w. to_int32 (w_time w))) (\<lambda>now.
     seqE (check (\<lambda>e. crash ''readdir_r on a null DIR'') (sys_opendir dir)) (\<lambda>names.
       old_entries dir (to_int32 (now - age)) names))"

section \<open>Frames\<close>

lemma stable_file_stat [frame_intros]: "stable (only_files A) (file_stat X p)"
  unfolding file_stat_def by (intro frame_intros)

lemma stable_slurp [frame_intros]: "stable (only_files A) (slurp p)"
  unfolding slurp_def by (intro frame_intros)

lemma stable_file_info [frame_intros]: "stable (only_files A) (file_info X p)"
  unfolding file_info_def by (intro frame_intros)

lemma stable_list_files [frame_intros]: "stable (only_files A) (list_files d e)"
  unfolding list_files_def by (intro frame_intros)

lemma stable_keep_valid [frame_intros]: "stable (only_files A) (keep_valid X d fs)"
  by (induction fs) (simp_all only: keep_valid.simps, (intro frame_intros | assumption)+)

lemma stable_file_names [frame_intros]: "stable (only_files A) (file_names X d)"
  unfolding file_names_def by (intro frame_intros)

lemma stable_old_entries [frame_intros]: "stable (only_files A) (old_entries d l ns)"
  by (induction ns) (simp_all only: old_entries.simps, (intro frame_intros | assumption)+)

lemma stable_oldFiles [frame_intros]: "stable (only_files A) (oldFiles d age)"
  unfolding oldFiles_def by (intro frame_intros)

section \<open>Results\<close>

text \<open>A path that \<open>stat\<close> reports as a regular file.\<close>

definition regular_file :: "world \<Rightarrow> path \<Rightarrow> inode option" where
  "regular_file w p = (case file_at w p of
      None \<Rightarrow> None | Some i \<Rightarrow> if w_fault w (Sc_stat p) = None \<and> i_kind i = Reg then Some i else None)"

lemma regular_file_cong:
  "w_fault v = w_fault w \<Longrightarrow> w_files v = w_files w \<Longrightarrow> regular_file v p = regular_file w p"
  by (auto simp: regular_file_def split: option.splits)

lemma file_stat_result:
  "\<exists>v. file_stat X p w = (case regular_file w p of Some i \<Rightarrow> (Inr i, w) | None \<Rightarrow> (Inl (runtime_error
      (if w_fault w (Sc_stat p) = None \<and> file_at w p \<noteq> None
       then ''stat error: '' @ p @ '' is not a regular file''
       else ''stat error: '' @ x_strerror X (case w_fault w (Sc_stat p) of Some e \<Rightarrow> e | None \<Rightarrow> ENOENT))), v))
     \<and> w_files v = w_files w \<and> same_env w v"
  by (auto simp: file_stat_def attempt_def sys_stat_def guard_fault_def fail_def seqE_def
      regular_file_def same_env_def split: option.splits)

lemma file_stat_Inr: "file_stat X p w = (Inr i, v) \<longleftrightarrow> regular_file w p = Some i \<and> v = w"
  by (auto simp: file_stat_def attempt_def sys_stat_def guard_fault_def fail_def seqE_def
      regular_file_def split: option.splits)

lemma file_stat_Inl: "file_stat X p w = (Inl e, v) \<Longrightarrow>
    regular_file w p = None \<and> is_runtime_error e \<and> \<not> is_system_error e \<and> w_files v = w_files w \<and> same_env w v"
  by (auto simp: file_stat_def attempt_def sys_stat_def guard_fault_def fail_def seqE_def
      regular_file_def same_env_def split: option.splits if_splits)

text \<open>The contents \<open>getCrc\<close> sees.\<close>

definition readable_data :: "world \<Rightarrow> path \<Rightarrow> bytes" where
  "readable_data w p = (case file_at w p of
      None \<Rightarrow> []
    | Some i \<Rightarrow> if w_fault w (Sc_open p) = None then delivered (\<lambda>off. w_fault w (Sc_read p off)) (i_data i) else [])"

lemma delivered_all [simp]: "(\<And>off. fault off = None) \<Longrightarrow> delivered fault bs = bs"
  by (simp add: delivered_def find_None_iff [THEN iffD2])

lemma slurp_result: "\<exists>v. slurp p w = (Inr (readable_data w p), v) \<and> w_files v = w_files w \<and> same_env w v
    \<and> w_rand v = w_rand w"
  by (auto simp: slurp_def attempt_def sys_open_def guard_fault_def fail_def seqE_def
      readable_data_def same_env_def split: option.splits)

text \<open>The information the agent records for a file.\<close>

definition info_for :: "('x) ext_base_scheme \<Rightarrow> world \<Rightarrow> path \<Rightarrow> inode \<Rightarrow> FileInfo" where
  "info_for X w p i = \<lparr>fi_id = tailname p, fi_path = p, fi_size = to_int32 (int (length (i_data i))),
     fi_modified = to_int32 (i_mtime i), fi_created = to_int32 (i_ctime i), fi_crc32 = crc_of X (readable_data w p),
     fi_extra = None\<rparr>"

lemma file_info_cases:
  "(\<exists>i v. regular_file w p = Some i \<and> file_info X p w = (Inr (info_for X w p i), v)
      \<and> w_files v = w_files w \<and> same_env w v \<and> w_rand v = w_rand w)
   \<or> (\<exists>e v. regular_file w p = None \<and> file_info X p w = (Inl e, v) \<and> is_runtime_error e
      \<and> \<not> is_system_error e \<and> w_files v = w_files w \<and> same_env w v)"
proof (cases "file_stat X p w")
  case (Pair r v)
  show ?thesis
  proof (cases r)
    case (Inl e)
    with Pair have "file_info X p w = (Inl e, v)" by (simp add: file_info_def seqE_def)
    with Pair Inl show ?thesis by (auto dest: file_stat_Inl)
  next
    case (Inr i)
    with Pair have st: "file_stat X p w = (Inr i, w)" "regular_file w p = Some i"
      by (simp_all add: file_stat_Inr)
    obtain u where "slurp p w = (Inr (readable_data w p), u)" "w_files u = w_files w" "same_env w u"
      "w_rand u = w_rand w" using slurp_result [of p w] by auto
    with st show ?thesis by (auto simp: file_info_def seqE_def info_for_def)
  qed
qed

lemma file_info_Inr:
  assumes "file_info X p w = (Inr fi, v)"
  shows "\<exists>i. regular_file w p = Some i \<and> fi = info_for X w p i \<and> w_files v = w_files w \<and> same_env w v"
  using assms file_info_cases [of w p X] by auto

lemma file_info_Inl:
  assumes "file_info X p w = (Inl e, v)"
  shows "regular_file w p = None \<and> is_runtime_error e \<and> \<not> is_system_error e
    \<and> w_files v = w_files w \<and> same_env w v"
  using assms file_info_cases [of w p X] by auto

lemma same_env_fault: "same_env w v \<Longrightarrow> w_fault v = w_fault w"
  by (simp add: same_env_def)

lemma keep_valid_result:
  "\<exists>v. keep_valid X d fs w = (Inr (filter (\<lambda>f. regular_file w (d @ ''/'' @ f) \<noteq> None) fs), v)
     \<and> w_files v = w_files w \<and> same_env w v"
proof (induction fs arbitrary: w)
  case (Cons f fs)
  let ?p = "d @ ''/'' @ f"
  obtain u where u: "catchE (seqE (file_stat X ?p) (\<lambda>_. ret [f])) is_runtime_error (\<lambda>_. ret []) w
      = (Inr (if regular_file w ?p \<noteq> None then [f] else []), u)" "w_files u = w_files w" "same_env w u"
  proof (cases "file_stat X ?p w")
    case (Pair r v)
    show ?thesis
    proof (cases r)
      case (Inl e)
      with Pair have "regular_file w ?p = None \<and> is_runtime_error e \<and> w_files v = w_files w \<and> same_env w v"
        by (auto dest: file_stat_Inl)
      with Pair Inl show ?thesis by (intro that [of v]) (auto simp: catchE_def seqE_def)
    next
      case (Inr i)
      with Pair have "regular_file w ?p = Some i" "v = w" by (simp_all add: file_stat_Inr)
      with Pair Inr show ?thesis by (intro that [of w]) (auto simp: catchE_def seqE_def)
    qed
  qed
  obtain v where "keep_valid X d fs u = (Inr (filter (\<lambda>f. regular_file u (d @ ''/'' @ f) \<noteq> None) fs), v)"
    "w_files v = w_files u" "same_env u v" using Cons.IH [of u] by auto
  moreover have "regular_file u = regular_file w"
    using u by (auto simp: fun_eq_iff same_env_fault intro: regular_file_cong)
  ultimately show ?case using u by (auto simp: seqE_def intro: same_env_trans)
qed simp

text \<open>
  (C36) \<open>file_names\<close> returns, in directory order, exactly the entries that are not dot files and
  that \<open>stat\<close> reports as regular files; when the directory cannot be opened it throws the
  system error of \<open>opendir\<close>. No file changes.
\<close>

theorem file_names_exact:
  "fst (file_names X d w) = (case fst (sys_opendir d w) of
      Inl e \<Rightarrow> Inl (system_error e ''opendir'')
    | Inr names \<Rightarrow> Inr (filter (\<lambda>f. \<not> dotfile f \<and> regular_file w (d @ ''/'' @ f) \<noteq> None) names))
   \<and> w_files (snd (file_names X d w)) = w_files w"
proof (cases "sys_opendir d w")
  case (Pair r v)
  then have v: "w_files v = w_files w" "same_env w v"
    by (auto simp: sys_opendir_def guard_fault_def fail_def same_env_def split: option.splits if_splits)
  show ?thesis
  proof (cases r)
    case (Inl e)
    with Pair v show ?thesis by (simp add: file_names_def list_files_def seqE_def check_def)
  next
    case (Inr names)
    let ?dot = "filter (\<lambda>f. \<not> dotfile f) names"
    obtain u where u: "keep_valid X d ?dot v =
        (Inr (filter (\<lambda>f. regular_file v (d @ ''/'' @ f) \<noteq> None) ?dot), u)" "w_files u = w_files v"
      using keep_valid_result [of X d ?dot v] by auto
    moreover have "regular_file v = regular_file w"
      using v by (auto simp: fun_eq_iff same_env_fault intro: regular_file_cong)
    ultimately show ?thesis
      using Pair Inr v by (simp add: file_names_def list_files_def seqE_def check_def conj_ac)
  qed
qed

text \<open>What \<open>stat\<close> finds at a path.\<close>

definition stat_at :: "world \<Rightarrow> path \<Rightarrow> inode option" where
  "stat_at w p = (if w_fault w (Sc_stat p) = None then file_at w p else None)"

lemma sys_stat_result:
  "\<exists>v. sys_stat p w = (case stat_at w p of Some i \<Rightarrow> Inr i
        | None \<Rightarrow> Inl (case w_fault w (Sc_stat p) of Some e \<Rightarrow> e | None \<Rightarrow> ENOENT), v)
     \<and> w_files v = w_files w \<and> same_env w v"
  by (auto simp: sys_stat_def guard_fault_def fail_def stat_at_def same_env_def split: option.splits)

lemma old_entries_result:
  "\<exists>v. old_entries d limit ns w = (Inr (map (\<lambda>n. d @ ''/'' @ n) (filter (\<lambda>n. \<not> dotfile n
        \<and> (\<exists>i. stat_at w (d @ ''/'' @ n) = Some i \<and> i_mtime i < limit)) ns)), v)
     \<and> w_files v = w_files w \<and> same_env w v"
proof (induction ns arbitrary: w)
  case (Cons n ns)
  show ?case
  proof (cases "dotfile n")
    case True
    with Cons.IH [of w] show ?thesis by simp
  next
    case False
    obtain u where u: "sys_stat (d @ ''/'' @ n) w = (case stat_at w (d @ ''/'' @ n) of Some i \<Rightarrow> Inr i
        | None \<Rightarrow> Inl (case w_fault w (Sc_stat (d @ ''/'' @ n)) of Some e \<Rightarrow> e | None \<Rightarrow> ENOENT), u)"
      "w_files u = w_files w" "same_env w u" using sys_stat_result [of "d @ ''/'' @ n" w] by auto
    have "stat_at u = stat_at w" using u by (simp add: fun_eq_iff stat_at_def same_env_fault)
    with Cons.IH [of u] u False show ?thesis
      by (auto simp: seqE_def attempt_def split: option.splits intro: same_env_trans)
  qed
qed simp

text \<open>
  (C37) \<open>oldFiles\<close> returns, in directory order, the full paths of exactly the entries that are
  not dot files, that \<open>stat\<close> finds, and whose modification time lies before the current time,
  narrowed to a 32-bit \<open>int\<close>, minus the age. A directory that cannot be opened is dereferenced
  as a null pointer: the \<open>opendir\<close> result is not checked.
\<close>

theorem oldFiles_exact:
  "fst (oldFiles d age w) = (case fst (sys_opendir d w) of
      Inl e \<Rightarrow> Inl (crash ''readdir_r on a null DIR'')
    | Inr names \<Rightarrow> Inr (map (\<lambda>n. d @ ''/'' @ n) (filter (\<lambda>n. \<not> dotfile n
        \<and> (\<exists>i. stat_at w (d @ ''/'' @ n) = Some i
              \<and> i_mtime i < to_int32 (to_int32 (w_time w) - age))) names)))
   \<and> w_files (snd (oldFiles d age w)) = w_files w"
proof (cases "sys_opendir d w")
  case (Pair r v)
  then have v: "w_files v = w_files w" "same_env w v"
    by (auto simp: sys_opendir_def guard_fault_def fail_def same_env_def split: option.splits if_splits)
  then have st: "stat_at v = stat_at w" by (simp add: fun_eq_iff stat_at_def same_env_fault)
  show ?thesis
  proof (cases r)
    case (Inl e)
    with Pair v show ?thesis by (simp add: oldFiles_def seqE_def check_def)
  next
    case (Inr names)
    with Pair v st old_entries_result [of d "to_int32 (to_int32 (w_time w) - age)" names v]
    show ?thesis by (auto simp: oldFiles_def seqE_def check_def)
  qed
qed

lemma oldFiles_keeps: "w_files (snd (oldFiles d age w)) = w_files w"
proof (cases "sys_opendir d w")
  case (Pair r v)
  then have "w_files v = w_files w"
    by (auto simp: sys_opendir_def guard_fault_def fail_def split: option.splits if_splits)
  moreover have "w_files (snd (old_entries d l ns v)) = w_files v" for l ns
    using old_entries_result [of d l ns v] by auto
  ultimately show ?thesis using Pair by (cases r) (simp_all add: oldFiles_def seqE_def check_def)
qed

lemma to_int32_small: "- (2 ^ 31) \<le> n \<Longrightarrow> n < 2 ^ 31 \<Longrightarrow> to_int32 n = n"
  by (simp add: to_int32_def sint_sbintrunc' signed_take_bit_int_eq_self)

lemma to_int32_wrap:
  assumes "2 ^ 31 \<le> n" and "n < 2 ^ 32"
  shows "to_int32 n = n - 2 ^ 32"
proof -
  have "to_int32 n = to_int32 (n - 2 ^ 32)"
    unfolding to_int32_def by (rule arg_cong [where f = sint]) (simp add: word_of_int_eq_iff take_bit_eq_mod)
  with assms show ?thesis by (simp add: to_int32_small)
qed

end
