(* ===== verification/Oort_Move.thy ===== *)
theory Oort_Move
  imports Oort_Files
begin

text \<open>
  The disk-space checks of \<^verbatim>\<open>impl/Agent.cpp\<close> and \<open>Agent::move_file\<close>, the operation every
  transfer goes through: a rename on one file system, and a guarded copy with an intermediate
  rename across file systems.
\<close>

section \<open>Disk space\<close>

text \<open>Sizes are products of unsigned 64-bit fields read as signed 64-bit values.\<close>

definition to_int64 :: "int \<Rightarrow> int" where
  "to_int64 n = sint (word_of_int n :: 64 word)"

definition c_div :: "int \<Rightarrow> int \<Rightarrow> int" where
  "c_div a b = sgn a * sgn b * (\<bar>a\<bar> div \<bar>b\<bar>)"

definition diskFree :: "statvfs \<Rightarrow> int" where
  "diskFree vfs = sint (f_frsize vfs * f_bavail vfs)"

definition diskSize :: "statvfs \<Rightarrow> int" where
  "diskSize vfs = sint (f_frsize vfs * f_blocks vfs)"

text \<open>Integer division by zero traps.\<close>

definition diskFreePct :: "statvfs \<Rightarrow> exn + int" where
  "diskFreePct vfs = (let fs_total = sint (f_frsize vfs * f_blocks vfs)
     in if fs_total = 0 then Inl (crash ''SIGFPE'')
        else Inr (to_int32 (c_div (to_int64 (diskFree vfs * 100)) fs_total)))"

text \<open>
  \<open>min_free_disk * 1024*1024\<close> is computed in \<open>int\<close>; \<open>min_free_pct * diskSize(vfs)\<close> in \<open>int64_t\<close>.
\<close>

definition checkDiskFree_vfs :: "int \<Rightarrow> int \<Rightarrow> int \<Rightarrow> statvfs \<Rightarrow> bool" where
  "checkDiskFree_vfs min_free_disk min_free_pct sz vfs =
    (let free_needed = (if min_free_disk > 0
           then to_int64 (sz + to_int32 (to_int32 (min_free_disk * 1024) * 1024)) else sz);
         free_needed' = (if min_free_pct > 0
           then max free_needed (to_int64 (sz + c_div (to_int64 (min_free_pct * diskSize vfs)) 100))
           else free_needed)
     in free_needed' \<le> diskFree vfs)"

definition checkDiskFree :: "int \<Rightarrow> int \<Rightarrow> path \<Rightarrow> int \<Rightarrow> world \<Rightarrow> bool" where
  "checkDiskFree min_free_disk min_free_pct workdir sz w =
    (if min_free_pct = -1 \<and> min_free_pct = -1 then True
     else checkDiskFree_vfs min_free_disk min_free_pct sz (w_vfs w workdir))"

definition getDiskfree :: "path \<Rightarrow> world \<Rightarrow> int" where
  "getDiskfree workdir w = diskFree (w_vfs w workdir)"

lemma to_int64_small: "- (2 ^ 63) \<le> n \<Longrightarrow> n < 2 ^ 63 \<Longrightarrow> to_int64 n = n"
  by (simp add: to_int64_def sint_sbintrunc' signed_take_bit_int_eq_self)

lemma c_div_nonneg: "0 \<le> a \<Longrightarrow> 0 < b \<Longrightarrow> c_div a b = a div b"
  by (cases "a = 0") (simp_all add: c_div_def)

text \<open>
  (C29) The free-space check asks for what the settings mean: for a reserve below 2048 megabytes
  and a percentage from 0 to 100 it accepts a file exactly when, after storing it, at least the
  larger of the two reserves is still available (-1 or 0 turns a reserve off). Sizes are below
  the range in which the 64-bit products wrap.
\<close>

theorem checkDiskFree_reserve:
  assumes "-1 \<le> min_free_disk" "min_free_disk < 2048" "-1 \<le> min_free_pct" "min_free_pct \<le> 100"
    and "0 \<le> sz" "sz < 2 ^ 62" "0 \<le> diskSize vfs" "diskSize vfs < 2 ^ 56"
  shows "checkDiskFree_vfs min_free_disk min_free_pct sz vfs \<longleftrightarrow>
    sz + max (max 0 min_free_disk * 2 ^ 20) (max 0 min_free_pct * diskSize vfs div 100) \<le> diskFree vfs"
proof -
  have mb: "to_int32 (to_int32 (min_free_disk * 1024) * 1024) = min_free_disk * 2 ^ 20"
    using assms(1,2) by (simp add: to_int32_small)
  have prod: "0 \<le> min_free_pct * diskSize vfs" "min_free_pct * diskSize vfs \<le> 100 * 2 ^ 56" if "0 < min_free_pct"
  proof -
    show "0 \<le> min_free_pct * diskSize vfs" using assms(7) that by simp
    show "min_free_pct * diskSize vfs \<le> 100 * 2 ^ 56" using assms(4,7,8) that by (intro mult_mono) simp_all
  qed
  have pct: "c_div (to_int64 (min_free_pct * diskSize vfs)) 100 = min_free_pct * diskSize vfs div 100"
    if "0 < min_free_pct" using prod [OF that] by (simp add: to_int64_small c_div_nonneg)
  have rng: "0 \<le> min_free_pct * diskSize vfs div 100" "min_free_pct * diskSize vfs div 100 \<le> 2 ^ 56"
    if "0 < min_free_pct" using prod [OF that] by auto
  have disk: "to_int64 (sz + min_free_disk * 2 ^ 20) = sz + min_free_disk * 2 ^ 20" if "0 < min_free_disk"
    using assms that by (intro to_int64_small) auto
  have perc: "to_int64 (sz + min_free_pct * diskSize vfs div 100) = sz + min_free_pct * diskSize vfs div 100"
    if "0 < min_free_pct" using assms(5,6) rng [OF that] by (intro to_int64_small) auto
  show ?thesis
    using rng disk perc pct mb assms
    by (cases "0 < min_free_disk"; cases "0 < min_free_pct") (auto simp: checkDiskFree_vfs_def Let_def max_def)
qed

theorem checkDiskFree_reserve_witness:
  "\<not> checkDiskFree_vfs 1 10 (2 ^ 20) \<lparr>f_bsize = 4096, f_frsize = 4096, f_blocks = 1000, f_bavail = 500\<rparr>"
  using checkDiskFree_reserve [of 1 10 "2 ^ 20" "\<lparr>f_bsize = 4096, f_frsize = 4096, f_blocks = 1000, f_bavail = 500\<rparr>"]
  by (simp add: diskSize_def diskFree_def)

text \<open>From 2048 megabytes on the product no longer fits an \<open>int\<close>, and the reserve turns negative.\<close>

lemma checkDiskFree_2048_wraps:
  "checkDiskFree_vfs 2048 (-1) (2 ^ 31) vfs \<longleftrightarrow> 0 \<le> diskFree vfs"
  by (simp add: checkDiskFree_vfs_def Let_def to_int32_wrap to_int32_small to_int64_small)

text \<open>
  The size of a file of two gigabytes is negative in its description, so that the check finds room for it
  however little there is.
\<close>

lemma checkDiskFree_narrowed_size:
  "checkDiskFree_vfs (-1) (-1) (to_int32 (2 ^ 31)) vfs \<longleftrightarrow> - (2 ^ 31) \<le> diskFree vfs"
  by (simp add: checkDiskFree_vfs_def to_int32_wrap)

text \<open>A reserve in megabytes is not looked at unless a percentage is set as well.\<close>

lemma checkDiskFree_pct_only: "checkDiskFree mb (-1) d sz w"
  by (simp add: checkDiskFree_def)

section \<open>move_file\<close>

text \<open>
  The copy loop: read a block, write it, go on until a read returns nothing. What a write
  leaves out is logged and nothing else. The fuel is one more than the size of the source,
  which \<open>copy_loop_result\<close> below shows to be enough whenever source and destination differ.
\<close>

fun copy_loop :: "nat \<Rightarrow> path \<Rightarrow> path \<Rightarrow> nat \<Rightarrow> nat \<Rightarrow> (world, unit) ste" where
  "copy_loop 0 src dst n off = throw (crash ''the copy loop does not return'')"
| "copy_loop (Suc fuel) src dst n off =
     seqE (attempt (sys_read src off n)) (\<lambda>r. case r of
        Inl e \<Rightarrow> ret ()
      | Inr bs \<Rightarrow> if bs = [] then ret ()
                 else seqE (attempt (sys_write dst bs)) (\<lambda>_. copy_loop fuel src dst n (off + length bs)))"

definition data_size :: "world \<Rightarrow> path \<Rightarrow> nat" where
  "data_size w p = (case file_at w p of None \<Rightarrow> 0 | Some i \<Rightarrow> length (i_data i))"

text \<open>The \<open>try\<close> block of the cross-device move.\<close>

definition xdev_copy :: "('x) ext_base_scheme \<Rightarrow> statvfs \<Rightarrow> statvfs \<Rightarrow> path \<Rightarrow> path \<Rightarrow> path
    \<Rightarrow> FileInfo \<Rightarrow> (world, unit) ste" where
  "xdev_copy X srcvfs destvfs s_tmpfilename s_tmpdirname dest fi =
     seqE (check (\<lambda>e. system_error e ''mkstemp error (xdev)'') (sys_mkstemp (dirname dest @ ''/file_move_''))) (\<lambda>dtname.
     seqE (check (\<lambda>e. system_error e ''open error (xdev)'') (sys_open s_tmpfilename)) (\<lambda>_.
     let blksize = to_int32 (min (uint (f_bsize srcvfs)) (uint (f_bsize destvfs))) in
     if blksize < 0 then throw (length_error ''cannot create std::vector larger than max_size()'')
     else
       seqE (gets (\<lambda>w. Suc (data_size w s_tmpfilename))) (\<lambda>fuel.
       seqE (copy_loop fuel s_tmpfilename dtname (nat blksize) 0) (\<lambda>_.
       seqE (file_info X dtname) (\<lambda>dest_fi.
         if fi_crc32 dest_fi \<noteq> fi_crc32 fi
         then throw (runtime_error ''move_file: CRC Check failed on written file'')
         else seqE (ignore (sys_rename dtname dest)) (\<lambda>_.
              seqE (ignore (sys_unlink s_tmpfilename)) (\<lambda>_.
              ignore (sys_rmdir s_tmpdirname))))))))"

text \<open>
  The cross-device branch. \<open>mkdtemp\<close> returns null on failure, and the test \<open>res[0]\<close>
  dereferences it.
\<close>

definition xdev_move :: "('x) ext_base_scheme \<Rightarrow> int \<Rightarrow> int \<Rightarrow> path \<Rightarrow> path \<Rightarrow> FileInfo \<Rightarrow> (world, unit) ste" where
  "xdev_move X min_free_disk min_free_pct src dest fi =
     seqE (gets (\<lambda>w. (w_vfs w (dirname src), w_vfs w (dirname dest)))) (\<lambda>(srcvfs, destvfs).
     if \<not> checkDiskFree_vfs min_free_disk min_free_pct (fi_size fi) destvfs
     then throw (system_error EDQUOT ''insufficient disk space for destination file'')
     else
       seqE (check (\<lambda>e. crash ''mkdtemp returned null'') (sys_mkdtemp (dirname src @ ''/file_move_''))) (\<lambda>s_tmpdirname.
       let s_tmpfilename = s_tmpdirname @ ''/file_move'' in
       seqE (check (\<lambda>e. system_error e ''rename error (xdev)'') (sys_rename src s_tmpfilename)) (\<lambda>_.
       catchE (xdev_copy X srcvfs destvfs s_tmpfilename s_tmpdirname dest fi) (\<lambda>e. \<not> is_crash e)
         (\<lambda>e. seqE (ignore (sys_rename s_tmpfilename src)) (\<lambda>_.
              seqE (ignore (sys_rmdir s_tmpdirname)) (\<lambda>_. throw e))))))"

definition move_file :: "('x) ext_base_scheme \<Rightarrow> int \<Rightarrow> int \<Rightarrow> path \<Rightarrow> path \<Rightarrow> FileInfo \<Rightarrow> (world, unit) ste" where
  "move_file X min_free_disk min_free_pct src dest fi =
     seqE (attempt (sys_access dest F_OK)) (\<lambda>exists. case exists of
        Inr _ \<Rightarrow> throw (system_error EEXIST ''move_file error - file exists'')
      | Inl _ \<Rightarrow>
          seqE (file_info X src) (\<lambda>precheck.
          if fi_crc32 precheck \<noteq> fi_crc32 fi
          then throw (runtime_error ''move_file: CRC Check failed on source file'')
          else seqE (attempt (sys_rename src dest)) (\<lambda>r. case r of
              Inr _ \<Rightarrow> ret ()
            | Inl e \<Rightarrow> if e = EXDEV then xdev_move X min_free_disk min_free_pct src dest fi
                       else throw (system_error e ''Error renaming''))))"

section \<open>The copy\<close>

lemma sys_read_cases:
  "(\<exists>e v. sys_read p off n w = (Inl e, v) \<and> w_files v = w_files w \<and> same_env w v)
   \<or> (\<exists>i. file_at w p = Some i \<and> sys_read p off n w = (Inr (take n (drop off (i_data i))), w))"
  by (auto simp: sys_read_def guard_fault_def fail_def same_env_def split: option.splits)

lemma sys_write_Inr: "sys_write p bs w = (Inr k, v) \<Longrightarrow> \<exists>i. file_at w p = Some i \<and>
    k = length bs - w_short w p (length (i_data i)) \<and>
    v = put_file p (i\<lparr>i_data := i_data i @ take k bs, i_mtime := w_time w\<rparr>) w"
  by (auto simp: sys_write_def guard_fault_def fail_def Let_def split: option.splits)

lemma only_files_refl [simp, intro!]: "only_files A w w"
  by (simp add: only_files_def)

lemma only_files_trans: "only_files A w v \<Longrightarrow> only_files A v u \<Longrightarrow> only_files A w u"
  by (rule files_frame.frame_trans)

lemma only_filesI: "w_files v = w_files w \<Longrightarrow> same_env w v \<Longrightarrow> only_files A w v"
  by (simp add: only_files_def)

text \<open>
  With enough fuel the loop returns, whatever calls fail, and touches only the destination.
\<close>

lemma copy_loop_result:
  assumes "src \<noteq> dst" and "data_size w src < off + fuel" and "off \<le> data_size w src"
  shows "\<exists>v. copy_loop fuel src dst n off w = (Inr (), v) \<and> only_files {dst} w v"
  using assms
proof (induction fuel arbitrary: off w)
  case 0
  then show ?case by simp
next
  case (Suc fuel)
  consider (bad) e v where "sys_read src off n w = (Inl e, v)" "w_files v = w_files w" "same_env w v"
    | (ok) i where "file_at w src = Some i" "sys_read src off n w = (Inr (take n (drop off (i_data i))), w)"
    using sys_read_cases [of src off n w] by blast
  then show ?case
  proof cases
    case bad
    then show ?thesis by (simp add: seqE_def attempt_def only_filesI)
  next
    case ok
    define bs where "bs = take n (drop off (i_data i))"
    note ok = ok [folded bs_def]
    show ?thesis
    proof (cases "bs = []")
      case True
      with ok show ?thesis by (simp add: seqE_def attempt_def)
    next
      case False
      obtain r u where u: "sys_write dst bs w = (r, u)" by (cases "sys_write dst bs w")
      then have fu: "only_files {dst} w u" by (rule stableD [OF stable_sys_write])
      then have same: "file_at u src = Some i" using ok Suc.prems(1) by (simp add: only_files_def)
      have sz: "data_size w src = length (i_data i)" "data_size u src = length (i_data i)"
        using ok same by (simp_all add: data_size_def)
      have le: "off + length bs \<le> data_size u src"
        using Suc.prems(3) sz by (simp add: bs_def)
      have "0 < length bs" using False by simp
      with Suc.prems(2) sz have lt: "data_size u src < off + length bs + fuel" by linarith
      obtain v where "copy_loop fuel src dst n (off + length bs) u = (Inr (), v)" "only_files {dst} u v"
        using Suc.IH [OF Suc.prems(1) lt le] by blast
      with ok False u fu show ?thesis
        by (auto simp: seqE_def attempt_def intro: only_files_trans)
    qed
  qed
qed

text \<open>When nothing fails, the destination receives exactly the rest of the source.\<close>

lemma copy_loop_exact:
  assumes "src \<noteq> dst" and "file_at w src = Some i" and "file_at w dst = Some j" and "0 < n"
    and "length (i_data i) < off + fuel" and "off \<le> length (i_data i)"
    and "\<forall>k. w_fault w (Sc_read src k) = None" and "\<forall>k. w_fault w (Sc_write dst k) = None"
    and "\<forall>k. w_short w dst k = 0"
  shows "\<exists>v j'. copy_loop fuel src dst n off w = (Inr (), v) \<and> only_files {dst} w v
    \<and> file_at v dst = Some j' \<and> i_kind j' = i_kind j \<and> i_data j' = i_data j @ drop off (i_data i)"
  using assms
proof (induction fuel arbitrary: off w j)
  case 0
  then show ?case by simp
next
  case (Suc fuel)
  define bs where "bs = take n (drop off (i_data i))"
  have rd: "sys_read src off n w = (Inr bs, w)"
    using Suc.prems by (simp add: sys_read_def guard_fault_def bs_def)
  show ?case
  proof (cases "bs = []")
    case True
    with Suc.prems(4,6) have "drop off (i_data i) = []" by (auto simp: bs_def)
    with True rd Suc.prems show ?thesis by (auto simp: seqE_def attempt_def)
  next
    case False
    let ?j = "j\<lparr>i_data := i_data j @ bs, i_mtime := w_time w\<rparr>"
    let ?u = "put_file dst ?j w"
    have wr: "sys_write dst bs w = (Inr (length bs), ?u)"
      using Suc.prems by (simp add: sys_write_def guard_fault_def)
    have le: "off + length bs \<le> length (i_data i)" using Suc.prems(6) by (simp add: bs_def)
    have "0 < length bs" using False by simp
    with Suc.prems(5) have lt: "length (i_data i) < off + length bs + fuel" by linarith
    have "file_at ?u src = Some i" "file_at ?u dst = Some ?j"
      using Suc.prems(1,2) by (simp_all add: lookup_simps)
    moreover have "w_fault ?u = w_fault w" "w_short ?u = w_short w" by (simp_all add: put_file_def)
    ultimately obtain v j' where v: "copy_loop fuel src dst n (off + length bs) ?u = (Inr (), v)"
      "only_files {dst} ?u v" "file_at v dst = Some j'" "i_kind j' = i_kind ?j"
      "i_data j' = i_data ?j @ drop (off + length bs) (i_data i)"
      using Suc.IH [OF Suc.prems(1) _ _ Suc.prems(4) lt le, of ?u ?j] Suc.prems(7,8,9) by auto
    have "bs @ drop (off + length bs) (i_data i) = drop off (i_data i)"
      by (metis append_eq_conv_conj append_take_drop_id bs_def drop_drop add.commute)
    moreover have "only_files {dst} w ?u" by (auto simp: only_files_def lookup_simps)
    ultimately show ?thesis
      using rd False wr v by (auto simp: seqE_def attempt_def intro: only_files_trans)
  qed
qed


section \<open>The cross-device branch\<close>

text \<open>Writing to a file: it keeps its kind, and nothing else changes.\<close>

definition writes_to :: "path \<Rightarrow> world \<Rightarrow> world \<Rightarrow> bool" where
  "writes_to p w v \<longleftrightarrow> only_files {p} w v \<and> map_option i_kind (file_at v p) = map_option i_kind (file_at w p)"

interpretation writes_frame: frame "writes_to p" for p
  by unfold_locales (auto simp: writes_to_def intro: only_files_trans)

lemma stable_writes_weaken: "stable (only_files {}) m \<Longrightarrow> stable (writes_to p) m"
  by (auto simp: stable_def writes_to_def only_files_def)

lemma stable_writes_sys_write: "stable (writes_to p) (sys_write p bs)"
proof -
  have "map_option i_kind (file_at (snd (sys_write p bs w)) p) = map_option i_kind (file_at w p)" for w
    by (simp add: sys_write_def guard_fault_def fail_def lookup_simps Let_def split: option.splits)
  then show ?thesis using stable_sys_write [of p bs] by (simp add: stable_def writes_to_def)
qed

lemma stable_copy_loop: "stable (writes_to dst) (copy_loop fuel src dst n off)"
proof (induction fuel arbitrary: off)
  case (Suc fuel)
  have "stable (writes_to dst) (sys_read src off n)"
    by (rule stable_writes_weaken) (rule stable_sys_reads)
  with Suc.IH stable_writes_sys_write show ?case
    unfolding copy_loop.simps by (intro frame_intros)
qed (simp add: stable_def writes_frame.frame_refl)

lemma is_dir_cong: "map_option i_kind (file_at v p) = map_option i_kind (file_at w p) \<Longrightarrow> is_dir v p = is_dir w p"
  by (auto simp: is_dir_def split: option.splits)

definition temp_of :: "path \<Rightarrow> path \<Rightarrow> bool" where
  "temp_of p q \<longleftrightarrow> prefix (dirname p @ ''/file_move_'') q"

definition no_slash :: "world \<Rightarrow> bool" where
  "no_slash w \<longleftrightarrow> list_all (\<lambda>x. CHR ''/'' \<notin> set x) (w_temp w)"

lemma parent_dir_stem: "CHR ''/'' \<notin> set x \<Longrightarrow> parent_dir (dirname p @ ''/file_move_'' @ x) = parent_dir p"
proof -
  assume "CHR ''/'' \<notin> set x"
  then have "dirname (dirname p @ ''/'' @ (''file_move_'' @ x)) = dirname p" by (intro dirname_slash) auto
  then show ?thesis by (simp add: parent_dir_def)
qed

lemma parent_dir_stem0: "parent_dir (dirname p @ ''/file_move_'') = parent_dir p"
  using parent_dir_stem [of "[]" p] by simp

text \<open>
  A temporary file of the destination, as \<open>mkstemp\<close> makes it: unused before, in the directory
  of the destination, and never the moved source.
\<close>

lemma mkstemp_Inr:
  assumes "sys_mkstemp (dirname dest @ ''/file_move_'') u = (Inr dt, u1)" and "no_slash u"
  shows "file_at u dt = None" and "temp_of dest dt" and "parent_dir dt = parent_dir dest"
    and "is_dir u (parent_dir dest)" and "only_files {dt} u u1"
    and "map_option i_kind (file_at u1 dt) = Some Reg" and "d @ ''/file_move'' \<noteq> dt"
proof -
  obtain x where x: "fresh_suffix u (dirname dest @ ''/file_move_'') = Some x"
    "dt = dirname dest @ ''/file_move_'' @ x" "is_dir u (parent_dir dest)"
    "u1 = put_file dt (new_inode u Reg 0x8180) u"
    using assms(1) by (auto simp: sys_mkstemp_def sys_mktemp_Inr parent_dir_stem0)
  have ns: "CHR ''/'' \<notin> set x"
    using fresh_suffix_fresh [OF x(1)] assms(2) by (auto simp: no_slash_def list_all_iff)
  show "file_at u dt = None" using fresh_suffix_fresh [OF x(1)] x(2) by simp
  show "temp_of dest dt" using x(2) by (auto simp: temp_of_def prefix_def)
  show "parent_dir dt = parent_dir dest" unfolding x(2) by (rule parent_dir_stem [OF ns])
  show "is_dir u (parent_dir dest)" by (rule x(3))
  show "only_files {dt} u u1" using x(4) by (auto simp: only_files_def lookup_simps)
  show "map_option i_kind (file_at u1 dt) = Some Reg" using x(4) by (simp add: lookup_simps new_inode_def)
  show "d @ ''/file_move'' \<noteq> dt"
  proof
    assume "d @ ''/file_move'' = dt"
    then have "tailname (d @ ''/'' @ ''file_move'') = tailname (dirname dest @ ''/'' @ (''file_move_'' @ x))"
      by (simp add: x(2))
    moreover have "tailname (d @ ''/'' @ ''file_move'') = ''file_move''" by (rule tailname_slash) simp
    moreover have "tailname (dirname dest @ ''/'' @ (''file_move_'' @ x)) = ''file_move_'' @ x"
      using ns by (intro tailname_slash) auto
    ultimately show False by simp
  qed
qed


text \<open>The destination's temporary file, and nothing else, has changed.\<close>

definition temp_written :: "path \<Rightarrow> path \<Rightarrow> world \<Rightarrow> path \<Rightarrow> world \<Rightarrow> bool" where
  "temp_written dest d u dt u1 \<longleftrightarrow> file_at u dt = None \<and> temp_of dest dt \<and> parent_dir dt = parent_dir dest
     \<and> is_dir u (parent_dir dest) \<and> only_files {dt} u u1 \<and> d @ ''/file_move'' \<noteq> dt
     \<and> map_option i_kind (file_at u1 dt) = Some Reg"

text \<open>
  The outcome of the copy: it throws having touched at most one temporary file, or the
  temporary file passed the checksum comparison and the three closing calls were made.
\<close>

lemma xdev_copy_cases:
  assumes ns: "no_slash u"
  shows "(\<exists>e v. xdev_copy X sv dv (d @ ''/file_move'') d dest fi u = (Inl e, v) \<and> only_files {} u v \<and> \<not> is_crash e)
    \<or> (\<exists>dt u1. temp_written dest d u dt u1
        \<and> ((\<exists>e. xdev_copy X sv dv (d @ ''/file_move'') d dest fi u = (Inl e, u1) \<and> \<not> is_crash e)
          \<or> (crc_of X (readable_data u1 dt) = fi_crc32 fi
             \<and> xdev_copy X sv dv (d @ ''/file_move'') d dest fi u = (Inr (),
                 snd (sys_rmdir d (snd (sys_unlink (d @ ''/file_move'') (snd (sys_rename dt dest u1)))))))))"
    (is "?A \<or> (\<exists>dt u1. temp_written dest d u dt u1 \<and> ?C dt u1)")
proof -
  let ?s = "d @ ''/file_move''"
  obtain r u1 where mk: "sys_mkstemp (dirname dest @ ''/file_move_'') u = (r, u1)"
    by (cases "sys_mkstemp (dirname dest @ ''/file_move_'') u")
  show ?thesis
  proof (cases r)
    case (Inl e)
    then have "only_files {} u u1"
      using mk by (auto simp: sys_mkstemp_def sys_mktemp_def guard_fault_def fail_def only_files_def
          same_env_def split: option.splits if_splits)
    then show ?thesis using mk Inl by (simp add: xdev_copy_def seqE_def check_def)
  next
    case (Inr dt)
    note t = mkstemp_Inr [OF mk [unfolded Inr] ns]
    obtain r2 u2 where op: "sys_open ?s u1 = (r2, u2)" by (cases "sys_open ?s u1")
    have w12: "writes_to dt u1 u2"
      by (rule stableD [OF stable_writes_weaken [OF stable_sys_reads(3)] op])
    have B: "temp_written dest d u dt v" if "writes_to dt u1 v" for v
      using that t(1-6) t(7) [of d] by (auto simp: temp_written_def writes_to_def intro: only_files_trans)
    define bsz where "bsz = to_int32 (min (uint (f_bsize sv)) (uint (f_bsize dv)))"
    consider (noopen) e where "r2 = Inl e" | (neg) "r2 = Inr ()" "bsz < 0" | (go) "r2 = Inr ()" "\<not> bsz < 0"
      by (cases r2) auto
    then show ?thesis
    proof cases
      case noopen
      then have "xdev_copy X sv dv ?s d dest fi u = (Inl (system_error e ''open error (xdev)''), u2)"
        using mk Inr op by (simp add: xdev_copy_def seqE_def check_def)
      with B [OF w12] show ?thesis by (metis is_crash.simps(3))
    next
      case neg
      then have "\<exists>e. xdev_copy X sv dv ?s d dest fi u = (Inl e, u2) \<and> \<not> is_crash e"
        using mk Inr op by (simp add: xdev_copy_def seqE_def check_def bsz_def [symmetric])
      with B [OF w12] show ?thesis by blast
    next
      case go
      let ?run = "copy_loop (Suc (data_size u2 ?s)) ?s dt (nat bsz) 0"
      obtain u3 where cp: "?run u2 = (Inr (), u3)"
        using copy_loop_result [of ?s dt u2 0 "Suc (data_size u2 ?s)" "nat bsz"] t(7) [of d] by auto
      have w13: "writes_to dt u1 u3"
        by (rule writes_frame.frame_trans [OF w12 stableD [OF stable_copy_loop cp]])
      obtain r4 u4 where fi4: "file_info X dt u3 = (r4, u4)" by (cases "file_info X dt u3")
      have w34: "w_files u4 = w_files u3 \<and> same_env u3 u4"
        using file_info_cases [of u3 dt X] fi4 by auto
      then have w14: "writes_to dt u1 u4"
        by (intro writes_frame.frame_trans [OF w13]) (simp add: writes_to_def only_filesI)
      have eq: "xdev_copy X sv dv ?s d dest fi u = (case r4 of Inl e \<Rightarrow> (Inl e, u4)
         | Inr dfi \<Rightarrow> if fi_crc32 dfi \<noteq> fi_crc32 fi
             then (Inl (runtime_error ''move_file: CRC Check failed on written file''), u4)
             else (Inr (), snd (sys_rmdir d (snd (sys_unlink ?s (snd (sys_rename dt dest u4)))))))"
        using mk Inr op go cp fi4
        by (simp add: xdev_copy_def seqE_def check_def ignore_def bsz_def [symmetric] split: sum.splits)
      have "crc_of X (readable_data u4 dt) = fi_crc32 dfi" if "r4 = Inr dfi" for dfi
        using file_info_Inr [OF fi4 [unfolded that]] w34
        by (auto simp: info_for_def readable_data_def same_env_def split: option.splits)
      moreover have "\<not> is_crash e" if "r4 = Inl e" for e
        using file_info_Inl [OF fi4 [unfolded that]] by (cases e) auto
      ultimately have "?C dt u4" unfolding eq by (cases r4) auto
      with B [OF w14] show ?thesis by blast
    qed
  qed
qed


text \<open>
  Every file lies in a directory, and a directory that \<open>mkdtemp\<close> makes is on the device of the
  directory it is made in.
\<close>

definition fs_wf :: "world \<Rightarrow> bool" where
  "fs_wf w \<longleftrightarrow> list_all (\<lambda>(p, i). p = ''/'' \<or> is_dir w (parent_dir p)) (w_files w)"

definition temp_same_dev :: "path \<Rightarrow> world \<Rightarrow> bool" where
  "temp_same_dev p w \<longleftrightarrow>
     list_all (\<lambda>x. w_dev w (dirname p @ ''/file_move_'' @ x) = w_dev w (parent_dir p)) (w_temp w)"

lemma fs_wf_parent: "fs_wf w \<Longrightarrow> file_at w p = Some i \<Longrightarrow> p \<noteq> ''/'' \<Longrightarrow> is_dir w (parent_dir p)"
  by (auto simp: fs_wf_def list_all_iff dest: map_of_SomeD)

lemma parent_below:
  assumes "prefix (d @ ''/'') q" and "d \<noteq> []"
  shows "parent_dir q = d \<or> prefix (d @ ''/'') (parent_dir q)" and "length (parent_dir q) < length q" and "q \<noteq> ''/''"
proof -
  obtain a b where q: "q = a @ CHR ''/'' # b" "CHR ''/'' \<notin> set b"
    using assms(1) split_last_occ [of "CHR ''/''" q] by (auto simp: prefix_def)
  have da: "dirname q = a" using q by (simp add: dirname_tailname)
  obtain c where c: "q = d @ CHR ''/'' # c" using assms(1) by (auto simp: prefix_def)
  have pre: "prefix d a \<and> (a = d \<or> prefix (d @ ''/'') a)"
  proof -
    have "d @ CHR ''/'' # c = a @ CHR ''/'' # b" using c q by simp
    then show ?thesis using q(2)
      by (auto simp: append_eq_append_conv2 prefix_def append_eq_Cons_conv Cons_eq_append_conv)
  qed
  then have "a \<noteq> []" using assms(2) by auto
  then have pa: "parent_dir q = a" by (simp add: parent_dir_def da)
  then show "parent_dir q = d \<or> prefix (d @ ''/'') (parent_dir q)" using pre by auto
  show "length (parent_dir q) < length q" using pa q by simp
  show "q \<noteq> ''/''" using c assms(2) by (cases d) auto
qed

text \<open>Nothing lies below a path that does not exist.\<close>

lemma fs_wf_below:
  assumes "fs_wf w" and "file_at w d = None" and "d \<noteq> []" and "prefix (d @ ''/'') q"
  shows "file_at w q = None"
  using assms(4)
proof (induction "length q" arbitrary: q rule: less_induct)
  case less
  note b = parent_below [OF less.prems assms(3)]
  have "file_at w (parent_dir q) = None" using b(1,2) assms(2) less.hyps by auto
  then show ?case using fs_wf_parent [OF assms(1), of q] b(3)
    by (cases "file_at w q") (auto simp: is_dir_def)
qed

lemma sys_rmdir_empty:
  assumes "w_fault w (Sc_rmdir d) = None" and "is_dir w d" and "\<And>q. prefix (d @ ''/'') q \<Longrightarrow> file_at w q = None"
  shows "file_at (snd (sys_rmdir d w)) p = (if p = d then None else file_at w p)"
proof -
  have "\<not> (\<exists>(q, j) \<in> set (w_files w). prefix (d @ ''/'') q)"
    using assms(3) by (auto simp: map_of_eq_None_iff)  (metis fst_conv image_eqI)
  then show ?thesis using assms(1,2)
    by (auto simp: sys_rmdir_def guard_fault_def is_dir_def lookup_simps split: option.splits)
qed

text \<open>The source stands in its private directory \<open>d\<close>.\<close>

definition staged :: "world \<Rightarrow> path \<Rightarrow> inode \<Rightarrow> path \<Rightarrow> world \<Rightarrow> bool" where
  "staged w src i d u \<longleftrightarrow> parent_dir d = parent_dir src \<and> file_at w d = None \<and> file_at w (d @ ''/file_move'') = None \<and> temp_of src d
     \<and> (\<exists>x. x \<in> set (w_temp w) \<and> d = dirname src @ ''/file_move_'' @ x) \<and> is_dir w (parent_dir src) \<and> w_dev w d = w_dev w (parent_dir src)
     \<and> same_env w u \<and> (\<exists>j. \<forall>p. file_at u p = (if p = d @ ''/file_move'' then Some i
           else if p = src then None else if p = d then Some j else file_at w p))"

lemma parent_dir_staged: "d \<noteq> [] \<Longrightarrow> parent_dir (d @ ''/file_move'') = d"
  using dirname_slash [of "''file_move''" d] by (simp add: parent_dir_def)

lemma temp_of_not_Nil: "temp_of p d \<Longrightarrow> d \<noteq> []"
  by (auto simp: temp_of_def)

lemma mkdtemp_Inr:
  assumes "sys_mkdtemp (dirname src @ ''/file_move_'') w = (Inr d, w1)" and "fs_wf w" and "temp_same_dev src w" and "no_slash w"
  shows "file_at w d = None" and "temp_of src d" and "is_dir w (parent_dir src)"
    and "w_dev w d = w_dev w (parent_dir src)" and "file_at w (d @ ''/file_move'') = None"
    and "\<exists>j. w1 = put_file d j w" and "parent_dir d = parent_dir src"
    and "\<exists>x. x \<in> set (w_temp w) \<and> d = dirname src @ ''/file_move_'' @ x"
proof -
  obtain x where x: "fresh_suffix w (dirname src @ ''/file_move_'') = Some x"
    "d = dirname src @ ''/file_move_'' @ x" "is_dir w (parent_dir src)" "\<exists>j. w1 = put_file d j w"
    using assms(1) by (auto simp: sys_mkdtemp_def sys_mktemp_Inr parent_dir_stem0)
  show new: "file_at w d = None" using fresh_suffix_fresh [OF x(1)] x(2) by simp
  show tmp: "temp_of src d" using x(2) by (auto simp: temp_of_def prefix_def)
  show "w_dev w d = w_dev w (parent_dir src)"
    using fresh_suffix_fresh [OF x(1)] assms(3) x(2) by (simp add: temp_same_dev_def list_all_iff)
  have "\<not> is_dir w d" using new by (simp add: is_dir_def)
  then show "file_at w (d @ ''/file_move'') = None"
    using fs_wf_parent [OF assms(2), of "d @ ''/file_move''"] parent_dir_staged [OF temp_of_not_Nil [OF tmp]]
    by (cases "file_at w (d @ ''/file_move'')") auto
  show "is_dir w (parent_dir src)" "\<exists>j. w1 = put_file d j w" by (rule x(3), rule x(4))
  have "CHR ''/'' \<notin> set x"
    using fresh_suffix_fresh [OF x(1)] assms(4) by (auto simp: no_slash_def list_all_iff)
  then show "parent_dir d = parent_dir src" unfolding x(2) by (rule parent_dir_stem)
  show "\<exists>x. x \<in> set (w_temp w) \<and> d = dirname src @ ''/file_move_'' @ x" using fresh_suffix_fresh [OF x(1)] x(2) by blast
qed


text \<open>What a failed move leaves: every file as it was, and at most temporary files besides.\<close>

definition untouched :: "path \<Rightarrow> path \<Rightarrow> world \<Rightarrow> world \<Rightarrow> bool" where
  "untouched src dest w v \<longleftrightarrow> (\<forall>p. file_at v p = file_at w p
      \<or> (file_at w p = None \<and> (temp_of src p \<or> temp_of dest p)))"

lemma untouched_only: "only_files {d} w v \<Longrightarrow> file_at w d = None \<Longrightarrow> temp_of src d \<Longrightarrow> untouched src dest w v"
  unfolding untouched_def only_files_def by (metis singletonD)

lemma only_files_untouched: "only_files {} w v \<Longrightarrow> untouched src dest w v"
  by (simp add: untouched_def only_files_def)

lemma staged_rename:
  assumes mk: "sys_mkdtemp (dirname src @ ''/file_move_'') w = (Inr d, w1)"
    and rn: "sys_rename src (d @ ''/file_move'') w1 = (Inr (), u)"
    and src: "file_at w src = Some i" "i_kind i = Reg" and env: "fs_wf w" "temp_same_dev src w" "no_slash w"
  shows "staged w src i d u"
proof -
  note m = mkdtemp_Inr [OF mk env]
  obtain j where w1: "w1 = put_file d j w" using m(6) ..
  have "d \<noteq> src" using m(1) src by auto
  then have "file_at w1 src = Some i" using src by (simp add: w1 lookup_simps)
  note r = sys_rename_plain [OF rn this]
  have "file_at u p = (if p = d @ ''/file_move'' then Some i
      else if p = src then None else if p = d then Some j else file_at w p)" for p
    using r(1) [of p] src(2) by (simp add: w1 lookup_simps)
  moreover have "same_env w u" using same_env_trans [OF same_env_put_file(1) r(2) [unfolded w1]] src(2) by simp
  ultimately show ?thesis using m(1-5,7,8) by (auto simp: staged_def)
qed

lemma xdev_move_cases:
  assumes src: "file_at w src = Some i" "i_kind i = Reg" and env: "fs_wf w" "temp_same_dev src w" "no_slash w"
  shows "(\<exists>e v. xdev_move X a b src dest fi w = (Inl e, v) \<and> untouched src dest w v)
    \<or> (\<exists>d u. staged w src i d u \<and> xdev_move X a b src dest fi w =
         catchE (xdev_copy X (w_vfs w (dirname src)) (w_vfs w (dirname dest)) (d @ ''/file_move'') d dest fi)
           (\<lambda>e. \<not> is_crash e)
           (\<lambda>e. seqE (ignore (sys_rename (d @ ''/file_move'') src)) (\<lambda>_.
                seqE (ignore (sys_rmdir d)) (\<lambda>_. throw e))) u)"
proof (cases "checkDiskFree_vfs a b (fi_size fi) (w_vfs w (dirname dest))")
  case False
  then have "xdev_move X a b src dest fi w = (Inl (system_error EDQUOT ''insufficient disk space for destination file''), w)"
    by (simp add: xdev_move_def seqE_def)
  then show ?thesis using only_files_untouched by blast
next
  case space: True
  obtain r w1 where mk: "sys_mkdtemp (dirname src @ ''/file_move_'') w = (r, w1)"
    by (cases "sys_mkdtemp (dirname src @ ''/file_move_'') w")
  show ?thesis
  proof (cases r)
    case (Inl e)
    have "only_files {} w w1"
      using mk Inl by (auto simp: sys_mkdtemp_def sys_mktemp_def guard_fault_def fail_def only_files_def
          same_env_def split: option.splits if_splits)
    moreover have "xdev_move X a b src dest fi w = (Inl (crash ''mkdtemp returned null''), w1)"
      using mk Inl space by (simp add: xdev_move_def seqE_def check_def)
    ultimately show ?thesis using only_files_untouched by blast
  next
    case (Inr d)
    note mk = mk [unfolded Inr]
    note m = mkdtemp_Inr [OF mk env]
    obtain r2 u where rn: "sys_rename src (d @ ''/file_move'') w1 = (r2, u)"
      by (cases "sys_rename src (d @ ''/file_move'') w1")
    show ?thesis
    proof (cases r2)
      case (Inl e)
      have "only_files {d} w w1" using m(6) by (auto simp: only_files_def lookup_simps)
      moreover have "only_files {} w1 u"
        using rn Inl by (auto simp: sys_rename_def guard_fault_def fail_def only_files_def same_env_def
            split: option.splits if_splits)
      ultimately have "only_files {d} w u" by (blast intro: only_files_trans only_files_mono)
      moreover have "xdev_move X a b src dest fi w = (Inl (system_error e ''rename error (xdev)''), u)"
        using mk rn Inl space by (simp add: xdev_move_def seqE_def check_def Let_def)
      ultimately show ?thesis using untouched_only m(1,2) by blast
    next
      case (Inr x)
      then have "staged w src i d u" using staged_rename [OF mk _ src env] rn by simp
      moreover have "xdev_move X a b src dest fi w =
         catchE (xdev_copy X (w_vfs w (dirname src)) (w_vfs w (dirname dest)) (d @ ''/file_move'') d dest fi)
           (\<lambda>e. \<not> is_crash e)
           (\<lambda>e. seqE (ignore (sys_rename (d @ ''/file_move'') src)) (\<lambda>_.
                seqE (ignore (sys_rmdir d)) (\<lambda>_. throw e))) u"
        using mk rn Inr space by (simp add: xdev_move_def seqE_def check_def Let_def)
      ultimately show ?thesis by blast
    qed
  qed
qed


text \<open>Undoing the first rename restores everything, whatever the copy left behind.\<close>

lemma rollback_restores:
  assumes st: "staged w src i d u" and src: "file_at w src = Some i" "i_kind i = Reg"
    and ok: "w_fault w (Sc_rename (d @ ''/file_move'') src) = None"
    and env: "same_env u u1"
    and left: "\<And>p. file_at u1 p = file_at u p \<or> (file_at u p = None \<and> temp_of dest p \<and> \<not> is_dir u1 p)"
  shows "untouched src dest w (snd (sys_rmdir d (snd (sys_rename (d @ ''/file_move'') src u1))))"
proof -
  let ?t = "d @ ''/file_move''"
  obtain j where u: "\<And>p. file_at u p = (if p = ?t then Some i
      else if p = src then None else if p = d then Some j else file_at w p)"
    and new: "file_at w d = None" "file_at w ?t = None" "temp_of src d" "is_dir w (parent_dir src)"
      "w_dev w d = w_dev w (parent_dir src)" "same_env w u"
    using st by (auto simp: staged_def)
  have ts: "?t \<noteq> src" "d \<noteq> src" using new src by auto
  have t1: "file_at u1 ?t = Some i" using left [of ?t] by (auto simp: u)
  have "file_at u (parent_dir src) = file_at w (parent_dir src)"
    using new src by (auto simp: u is_dir_def)
  then have pd: "is_dir u1 (parent_dir src)"
    using left [of "parent_dir src"] new(4) by (auto simp: is_dir_def split: option.splits)
  have nd: "\<not> is_dir u1 src" using left [of src] ts by (auto simp: u is_dir_def)
  have "parent_dir ?t = d" using new(3) by (intro parent_dir_staged temp_of_not_Nil)
  then have "w_dev u1 (parent_dir ?t) = w_dev u1 (parent_dir src)"
    using new(5,6) env by (simp add: same_env_def)
  moreover have "w_fault u1 (Sc_rename ?t src) = None" using ok new(6) env by (simp add: same_env_def)
  ultimately obtain v where v: "sys_rename ?t src u1 = (Inr (), v)"
    using sys_rename_success [OF _ t1 _ pd _ nd] src(2) by auto
  have fv: "file_at v p = (if p = src then Some i else if p = ?t then None else file_at u1 p)" for p
    using sys_rename_plain(1) [OF v t1] src(2) by simp
  have "temp_of src ?t" using new(3) by (auto simp: temp_of_def prefix_def)
  then have "file_at v p = file_at w p \<or> (file_at w p = None \<and> (temp_of src p \<or> temp_of dest p))" for p
    using fv [of p] left [of p] u [of p] src new by (cases "p = d") (auto split: if_splits)
  moreover have "only_files {d} v (snd (sys_rmdir d v))"
    using stable_sys_rmdir by (simp add: stable_def)
  ultimately show ?thesis using v new(1,3) unfolding untouched_def only_files_def by (metis singletonD snd_conv)
qed

text \<open>
  When the rename that puts the source back fails, the source is kept under the temporary name it
  was moved to; every other file is as it was, and what is new is at most temporary names.
\<close>

definition staged_name :: "world \<Rightarrow> path \<Rightarrow> path \<Rightarrow> bool" where
  "staged_name w src t \<longleftrightarrow> (\<exists>x. x \<in> set (w_temp w) \<and> t = dirname src @ ''/file_move_'' @ x @ ''/file_move'')"

lemma staged_name_temp: "staged_name w src t \<Longrightarrow> temp_of src t"
  by (auto simp: staged_name_def temp_of_def prefix_def)

definition set_aside :: "path \<Rightarrow> path \<Rightarrow> world \<Rightarrow> world \<Rightarrow> bool" where
  "set_aside src dest w v \<longleftrightarrow> (\<exists>t i. staged_name w src t \<and> w_fault w (Sc_rename t src) \<noteq> None \<and> file_at w src = Some i \<and> file_at v t = Some i)
     \<and> (\<forall>p. p \<noteq> src \<longrightarrow> file_at v p = file_at w p \<or> (file_at w p = None \<and> (temp_of src p \<or> temp_of dest p)))"

lemma rollback_fails:
  assumes st: "staged w src i d u" and src: "file_at w src = Some i" "i_kind i = Reg"
    and bad: "w_fault w (Sc_rename (d @ ''/file_move'') src) \<noteq> None"
    and env: "same_env u u1"
    and left: "\<And>p. file_at u1 p = file_at u p \<or> (file_at u p = None \<and> temp_of dest p \<and> \<not> is_dir u1 p)"
  shows "set_aside src dest w (snd (sys_rmdir d (snd (sys_rename (d @ ''/file_move'') src u1))))"
proof -
  let ?t = "d @ ''/file_move''"
  obtain j where u: "\<And>p. file_at u p = (if p = ?t then Some i
      else if p = src then None else if p = d then Some j else file_at w p)"
    and new: "file_at w d = None" "file_at w ?t = None" "temp_of src d" "same_env w u"
    using st by (auto simp: staged_def)
  define v1 where "v1 = snd (sys_rename ?t src u1)"
  define v where "v = snd (sys_rmdir d v1)"
  have "w_fault u1 (Sc_rename ?t src) \<noteq> None" using bad new(4) env by (simp add: same_env_def)
  then have v1: "file_at v1 p = file_at u1 p" for p
    by (auto simp: v1_def sys_rename_def guard_fault_def fail_def)
  have "only_files {d} v1 v" using stable_sys_rmdir by (simp add: v_def stable_def)
  then have v: "file_at v p = file_at u1 p" if "p \<noteq> d" for p using that v1 by (simp add: only_files_def)
  have tt: "temp_of src ?t" using new(3) by (auto simp: temp_of_def prefix_def)
  have "file_at v ?t = Some i" using v [of ?t] left [of ?t] by (auto simp: u)
  moreover have "file_at v p = file_at w p \<or> (file_at w p = None \<and> (temp_of src p \<or> temp_of dest p))" if "p \<noteq> src" for p
    using v [of p] left [of p] u [of p] that new(1-3) tt by (cases "p = d"; cases "p = ?t") auto
  moreover have "staged_name w src ?t" using st by (auto simp: staged_def staged_name_def)
  ultimately show ?thesis using bad src(1) unfolding set_aside_def v_def v1_def by blast
qed

lemma temp_written_left:
  assumes "temp_written dest d u dt u1"
  shows "same_env u u1 \<and> (\<forall>p. file_at u1 p = file_at u p \<or> (file_at u p = None \<and> temp_of dest p \<and> \<not> is_dir u1 p))"
proof -
  have "\<not> is_dir u1 dt" using assms by (auto simp: temp_written_def is_dir_def)
  then show ?thesis using assms unfolding temp_written_def only_files_def by (metis singletonD)
qed

lemma xdev_move_fails:
  assumes "xdev_move X a b src dest fi w = (Inl e, v)" and src: "file_at w src = Some i" "i_kind i = Reg"
    and env: "fs_wf w" "no_slash w" "temp_same_dev src w"
  shows "untouched src dest w v \<or> set_aside src dest w v"
  using xdev_move_cases [OF src env(1,3,2), of X a b dest fi]
proof (elim disjE exE conjE)
  fix d u
  assume st: "staged w src i d u"
    and eq: "xdev_move X a b src dest fi w =
         catchE (xdev_copy X (w_vfs w (dirname src)) (w_vfs w (dirname dest)) (d @ ''/file_move'') d dest fi)
           (\<lambda>e. \<not> is_crash e)
           (\<lambda>e. seqE (ignore (sys_rename (d @ ''/file_move'') src)) (\<lambda>_.
                seqE (ignore (sys_rmdir d)) (\<lambda>_. throw e))) u"
  have ns: "no_slash u" using st env(2) by (simp add: staged_def same_env_def no_slash_def)
  obtain e1 u1 where u1: "xdev_copy X (w_vfs w (dirname src)) (w_vfs w (dirname dest)) (d @ ''/file_move'') d dest fi u
      = (Inl e1, u1)"
    using assms(1) eq xdev_copy_cases [OF ns] by (fastforce simp: catchE_def)
  then have left: "same_env u u1 \<and> (\<forall>p. file_at u1 p = file_at u p \<or> (file_at u p = None \<and> temp_of dest p \<and> \<not> is_dir u1 p))"
    using xdev_copy_cases [OF ns, of X "w_vfs w (dirname src)" "w_vfs w (dirname dest)" d dest fi]
    by (auto simp: only_files_def dest: temp_written_left)
  have "\<not> is_crash e1"
    using xdev_copy_cases [OF ns, of X "w_vfs w (dirname src)" "w_vfs w (dirname dest)" d dest fi] u1 by auto
  with assms(1) eq u1 have v: "v = snd (sys_rmdir d (snd (sys_rename (d @ ''/file_move'') src u1)))"
    by (simp add: catchE_def seqE_def ignore_def)
  show ?thesis
    using rollback_restores [OF st src, of u1 dest] rollback_fails [OF st src, of u1 dest] left unfolding v by blast
qed (use assms(1) in auto)

text \<open>
  What a move that returns has done. The data is at the destination, or, when the rename that puts the
  copy in place has failed, under the temporary name of the copy; the source is gone, every other file is as it
  was, and what else is new is at most temporary names.
\<close>

definition landed :: "('x) ext_base_scheme \<Rightarrow> path \<Rightarrow> FileInfo \<Rightarrow> world \<Rightarrow> world \<Rightarrow> bool" where
  "landed X dest fi w v \<longleftrightarrow> (\<exists>q j. file_at v q = Some j \<and> i_kind j = Reg \<and> crc_of X (i_data j) = fi_crc32 fi
     \<and> (q = dest \<or> (temp_of dest q \<and> w_fault w (Sc_rename q dest) \<noteq> None \<and> file_at v dest = None)))"

definition moved :: "('x) ext_base_scheme \<Rightarrow> path \<Rightarrow> path \<Rightarrow> FileInfo \<Rightarrow> world \<Rightarrow> world \<Rightarrow> bool" where
  "moved X src dest fi w v \<longleftrightarrow> file_at w dest = None \<and> landed X dest fi w v \<and> file_at v src = None
     \<and> (\<forall>p i. file_at w p = Some i \<longrightarrow> p \<noteq> src \<longrightarrow> file_at v p = Some i)
     \<and> (\<forall>p. file_at w p = None \<longrightarrow> file_at v p \<noteq> None \<longrightarrow> p = dest \<or> temp_of src p \<or> temp_of dest p)"

lemma xdev_move_succeeds:
  assumes "xdev_move X a b src dest fi w = (Inr (), v)" and src: "file_at w src = Some i" "i_kind i = Reg"
    and dst: "file_at w dest = None" and dev: "w_dev w (parent_dir src) \<noteq> w_dev w (parent_dir dest)"
    and rd: "\<And>p off. w_fault w (Sc_open p) = None \<and> w_fault w (Sc_read p off) = None"
    and env: "fs_wf w" "no_slash w" "temp_same_dev src w"
  shows "moved X src dest fi w v"
  using xdev_move_cases [OF src env(1,3,2), of X a b dest fi]
proof (elim disjE exE conjE)
  fix d u
  assume st: "staged w src i d u"
    and eq: "xdev_move X a b src dest fi w =
         catchE (xdev_copy X (w_vfs w (dirname src)) (w_vfs w (dirname dest)) (d @ ''/file_move'') d dest fi)
           (\<lambda>e. \<not> is_crash e)
           (\<lambda>e. seqE (ignore (sys_rename (d @ ''/file_move'') src)) (\<lambda>_.
                seqE (ignore (sys_rmdir d)) (\<lambda>_. throw e))) u"
  let ?t = "d @ ''/file_move''"
  obtain j where u: "\<And>p. file_at u p = (if p = ?t then Some i
      else if p = src then None else if p = d then Some j else file_at w p)"
    and new: "file_at w d = None" "file_at w ?t = None" "temp_of src d" "is_dir w (parent_dir src)"
      "w_dev w d = w_dev w (parent_dir src)" "parent_dir d = parent_dir src" and wu: "same_env w u"
    using st by (auto simp: staged_def)
  have ns: "no_slash u" using wu env(2) by (simp add: same_env_def no_slash_def)
  obtain dt u1 where tw: "temp_written dest d u dt u1" and crc: "crc_of X (readable_data u1 dt) = fi_crc32 fi"
    and v: "v = snd (sys_rmdir d (snd (sys_unlink ?t (snd (sys_rename dt dest u1)))))"
    using assms(1) eq xdev_copy_cases [OF ns, of X "w_vfs w (dirname src)" "w_vfs w (dirname dest)" d dest fi]
    by (auto simp: catchE_def seqE_def ignore_def)
  have uu: "same_env w u1" using tw wu by (auto simp: temp_written_def only_files_def intro: same_env_trans)
  obtain k where k: "file_at u1 dt = Some k" "i_kind k = Reg" using tw by (auto simp: temp_written_def)
  have u1: "file_at u1 p = file_at u p" if "p \<noteq> dt" for p using tw that by (simp add: temp_written_def only_files_def)
  have "parent_dir ?t = d" using new(3) by (intro parent_dir_staged temp_of_not_Nil)
  then have ne: "dest \<noteq> ?t" "dest \<noteq> d" using dev new(5,6) by (auto simp only:)
  have ne': "dest \<noteq> src" "src \<noteq> ?t" "src \<noteq> d"
    using new(1,2) src(1) dst by (auto simp only: option.distinct)
  have nd: "\<not> is_dir u1 dest" using u1 [of dest] k ne dst by (cases "dest = dt") (simp_all add: u is_dir_def)
  have tp: "file_at u dt = None" "parent_dir dt = parent_dir dest" "is_dir u (parent_dir dest)" "temp_of dest dt"
    using tw by (simp_all add: temp_written_def)
  then have pd: "is_dir u1 (parent_dir dest)" using u1 [of "parent_dir dest"] by (cases "parent_dir dest = dt") (simp_all add: is_dir_def)
  define v1 where "v1 = snd (sys_rename dt dest u1)"
  have "only_files {?t} v1 (snd (sys_unlink ?t v1))" "only_files {d} (snd (sys_unlink ?t v1)) v"
    using stable_sys_unlink stable_sys_rmdir by (simp_all add: stable_def v v1_def)
  then have fv: "file_at v p = file_at v1 p" if "p \<noteq> d" "p \<noteq> ?t" for p using that by (simp add: only_files_def)
  have kc: "crc_of X (i_data k) = fi_crc32 fi" using crc rd uu k(1) by (simp add: readable_data_def same_env_def)
  have "file_at u d \<noteq> None" using ne'(3) by (simp add: u)
  then have dd: "dt \<noteq> d" "dt \<noteq> ?t" using tp(1) tw by (auto simp: temp_written_def)
  have tt: "temp_of src ?t" using new(3) by (auto simp: temp_of_def prefix_def)
  have old: "file_at u1 p = Some q" "p \<noteq> d" "p \<noteq> ?t" "p \<noteq> dest" "p \<noteq> dt" if "file_at w p = Some q" "p \<noteq> src" for p q
  proof -
    show ne: "p \<noteq> d" "p \<noteq> ?t" "p \<noteq> dest" using that new dst by auto
    then have "file_at u p = Some q" using that by (simp add: u)
    then show nt: "p \<noteq> dt" using tp(1) by auto
    show "file_at u1 p = Some q" using u1 [OF nt] \<open>file_at u p = Some q\<close> by simp
  qed
  have gone: "file_at u1 src = None" if "src \<noteq> dt" using u1 [OF that] ne' by (simp add: u)
  have fresh: "p = d \<or> p = ?t \<or> p = dt" if "file_at w p = None" "file_at u1 p \<noteq> None" for p
    using that u1 [of p] by (auto simp: u split: if_splits)
  have sd: "src \<noteq> dt" using tp(2) dev by auto
  show ?thesis
  proof (cases "w_fault w (Sc_rename dt dest)")
    case None
    then have "w_fault u1 (Sc_rename dt dest) = None" using uu by (simp add: same_env_def)
    then obtain v1' where rn: "sys_rename dt dest u1 = (Inr (), v1')"
      using sys_rename_success [OF _ k(1) _ pd _ nd] k(2) tp(2) by auto
    have v1: "file_at v1 p = (if p = dest then Some k else if p = dt then None else file_at u1 p)" for p
      using sys_rename_plain(1) [OF rn k(1)] k(2) by (simp add: v1_def rn)
    have "file_at v dest = Some k" "file_at v src = None" using fv v1 ne ne' gone [OF sd] by simp_all
    moreover have "file_at v p = Some q" if "file_at w p = Some q" "p \<noteq> src" for p q using old [OF that] fv v1 by simp
    moreover have "p = dest \<or> temp_of src p \<or> temp_of dest p" if "file_at w p = None" "file_at v p \<noteq> None" for p
      using fresh [OF that(1)] fv [of p] v1 [of p] that(2) new(3) tt by (cases "p = d"; cases "p = ?t") (auto split: if_splits)
    ultimately show ?thesis using dst k(2) kc unfolding moved_def landed_def by blast
  next
    case (Some e)
    then have v1: "file_at v1 p = file_at u1 p" for p
      using uu by (auto simp: v1_def sys_rename_def guard_fault_def fail_def same_env_def)
    have "file_at v dt = Some k" "file_at v src = None" using fv v1 dd k(1) ne' gone [OF sd] by simp_all
    moreover have "dest = dt \<or> file_at v dest = None"
      using fv [of dest] v1 [of dest] ne u1 [of dest] u [of dest] ne' dst by metis
    moreover have "file_at v p = Some q" if "file_at w p = Some q" "p \<noteq> src" for p q using old [OF that] fv v1 by simp
    moreover have "p = dest \<or> temp_of src p \<or> temp_of dest p" if "file_at w p = None" "file_at v p \<noteq> None" for p
      using fresh [OF that(1)] fv [of p] v1 [of p] that(2) new(3) tt tp(4) by (cases "p = d"; cases "p = ?t") auto
    moreover have "landed X dest fi w v"
      unfolding landed_def
      by (intro exI [of _ dt] exI [of _ k]) (use calculation(1,3) k(2) kc tp(4) Some in auto)
    ultimately show ?thesis using dst unfolding moved_def by blast
  qed
qed (use assms(1) in auto)

subsection \<open>A run without failures\<close>

text \<open>A run in which no call fails and no write is short.\<close>

definition calm :: "world \<Rightarrow> bool" where
  "calm w \<longleftrightarrow> w_fault w = (\<lambda>_. None) \<and> w_short w = (\<lambda>_ _. 0)"

lemma calm_env: "same_env w v \<Longrightarrow> calm w \<Longrightarrow> calm v"
  by (simp add: calm_def same_env_def)

lemma calm_fault [simp]: "calm w \<Longrightarrow> w_fault w c = None"
  by (simp add: calm_def)

text \<open>The three closing calls: the temporary file takes the destination's name, the staged source goes.\<close>

lemma closing_calls:
  assumes calm: "calm u" and tmp: "file_at u dt = Some j" "i_kind j = Reg" "dt \<noteq> t" "dt \<noteq> d"
    and dest: "is_dir u (parent_dir dest)" "parent_dir dt = parent_dir dest" "dest = dt \<or> file_at u dest = None"
      "\<not> prefix (d @ ''/'') dest" "dest \<noteq> d"
    and src: "file_at u t = Some i" "i_kind i = Reg" "t = d @ ''/file_move''"
    and dir: "is_dir u d" "\<And>q. prefix (d @ ''/'') q \<Longrightarrow> q \<noteq> t \<Longrightarrow> q \<noteq> dt \<Longrightarrow> file_at u q = None"
  shows "file_at (snd (sys_rmdir d (snd (sys_unlink t (snd (sys_rename dt dest u)))))) p =
    (if p = dest then Some j else if p = d \<or> p = t \<or> p = dt then None else file_at u p)"
proof -
  have nd: "\<not> is_dir u dest" using dest(3) tmp(1,2) by (auto simp: is_dir_def)
  obtain v1 where rn: "sys_rename dt dest u = (Inr (), v1)"
    using sys_rename_success [of u dt dest j] calm tmp(1,2) dest(1,2) nd by auto
  have v1: "file_at v1 p = (if p = dest then Some j else if p = dt then None else file_at u p)" for p
    using sys_rename_plain(1) [OF rn tmp(1)] tmp(2) by simp
  have e1: "calm v1" using calm_env [OF sys_rename_plain(2) [OF rn tmp(1)]] tmp(2) calm by simp
  have td: "t \<noteq> dest" "t \<noteq> d" using dest(4) src(3) by auto
  define v2 where "v2 = snd (sys_unlink t v1)"
  have "file_at v1 t = Some i" using v1 [of t] td tmp(3) src by simp
  then have v2: "calm v2" "file_at v2 p = (if p = t then None else file_at v1 p)" for p
    using e1 src(2) by (auto simp: v2_def sys_unlink_def guard_fault_def lookup_simps calm_def)
  have "is_dir v2 d" using dir(1) v2(2) [of d] v1 [of d] td tmp(4) dest(5) by (simp add: is_dir_def)
  moreover have "file_at v2 q = None" if "prefix (d @ ''/'') q" for q
    using that v2(2) [of q] v1 [of q] dest(4) dir(2) [OF that] by auto
  ultimately have "file_at (snd (sys_rmdir d v2)) p = (if p = d then None else file_at v2 p)"
    using sys_rmdir_empty v2(1) by simp
  then show ?thesis using v2(2) [of p] v1 [of p] td dest(5) by (auto simp: rn v2_def)
qed

lemma xdev_copy_completes:
  assumes calm: "calm u" and src: "file_at u (d @ ''/file_move'') = Some i" "i_kind i = Reg"
    and dir: "is_dir u d" "\<And>q. prefix (d @ ''/'') q \<Longrightarrow> q \<noteq> d @ ''/file_move'' \<Longrightarrow> file_at u q = None"
    and dest: "is_dir u (parent_dir dest)" "file_at u dest = None" "\<not> prefix (d @ ''/'') dest" "dest \<noteq> d"
    and bsz: "0 < to_int32 (min (uint (f_bsize sv)) (uint (f_bsize dv)))"
    and tmp: "fresh_suffix u (dirname dest @ ''/file_move_'') = Some x" and ns: "no_slash u"
    and crc: "crc_of X (i_data i) = fi_crc32 fi"
  shows "\<exists>v j. xdev_copy X sv dv (d @ ''/file_move'') d dest fi u = (Inr (), v) \<and> i_kind j = Reg \<and> i_data j = i_data i
    \<and> (\<forall>p. file_at v p = (if p = dest then Some j else if p = d \<or> p = d @ ''/file_move'' then None else file_at u p))"
proof -
  define t where "t = d @ ''/file_move''"
  define dt where "dt = dirname dest @ ''/file_move_'' @ x"
  define u1 where "u1 = put_file dt (new_inode u Reg 0x8180) u"
  have mk: "sys_mkstemp (dirname dest @ ''/file_move_'') u = (Inr dt, u1)"
    using tmp dest(1) calm by (simp add: sys_mkstemp_def sys_mktemp_Inr parent_dir_stem0 dt_def u1_def)
  note m = mkstemp_Inr [OF mk ns] and tdt = mkstemp_Inr(7) [OF mk ns, of d, folded t_def]
  have c1: "calm u1" using calm by (simp add: u1_def put_file_def calm_def)
  have f1: "file_at u1 p = (if p = dt then Some (new_inode u Reg 0x8180) else file_at u p)" for p
    by (simp add: u1_def lookup_simps)
  have t1: "file_at u1 t = Some i" using src tdt by (simp add: f1 t_def [symmetric])
  then have op: "sys_open t u1 = (Inr (), u1)" using c1 by (simp add: sys_open_def guard_fault_def)
  define n where "n = nat (to_int32 (min (uint (f_bsize sv)) (uint (f_bsize dv))))"
  obtain u2 j where cp: "copy_loop (Suc (data_size u1 t)) t dt n 0 u1 = (Inr (), u2)" "only_files {dt} u1 u2"
      "file_at u2 dt = Some j" "i_kind j = Reg" "i_data j = i_data i"
    using copy_loop_exact [OF tdt t1, of "new_inode u Reg 0x8180" n 0 "Suc (data_size u1 t)"] bsz t1 c1
    by (auto simp: f1 n_def calm_def data_size_def new_inode_def)
  have c2: "calm u2" using cp(2) c1 calm_env by (auto simp: only_files_def)
  have "regular_file u2 dt = Some j" using cp(3,4) c2 by (simp add: regular_file_def)
  then obtain u3 where fi3: "file_info X dt u2 = (Inr (info_for X u2 dt j), u3)" "w_files u3 = w_files u2" "same_env u2 u3"
    using file_info_cases [of u2 dt X] by auto
  have "fi_crc32 (info_for X u2 dt j) = fi_crc32 fi"
    using cp(3,5) c2 crc by (simp add: info_for_def readable_data_def)
  then have run: "xdev_copy X sv dv t d dest fi u =
      (Inr (), snd (sys_rmdir d (snd (sys_unlink t (snd (sys_rename dt dest u3))))))"
    using mk op cp(1) fi3(1) bsz by (simp add: xdev_copy_def seqE_def check_def ignore_def n_def)
  have f3: "file_at u3 p = (if p = dt then Some j else file_at u p)" for p
    using fi3(2) cp(2,3) f1 [of p] by (auto simp: only_files_def)
  have "file_at (snd (sys_rmdir d (snd (sys_unlink t (snd (sys_rename dt dest u3)))))) p =
      (if p = dest then Some j else if p = d \<or> p = t \<or> p = dt then None else file_at u3 p)" for p
  proof (rule closing_calls)
    show "calm u3" using calm_env [OF fi3(3) c2] .
    show "is_dir u3 (parent_dir dest)" "is_dir u3 d" "dt \<noteq> d"
      using f3 [of "parent_dir dest"] f3 [of d] m(1,4) dir(1) by (auto simp: is_dir_def)
  qed (use f3 tdt src cp(4) m(3) dest dir(2) in \<open>auto simp: t_def\<close>)
  then show ?thesis
    using run cp(4,5) f3 m(1) dest(2) unfolding t_def [symmetric]
    by (intro exI [of _ "snd (sys_rmdir d (snd (sys_unlink t (snd (sys_rename dt dest u3)))))"] exI [of _ j]) auto
qed

lemma fresh_suffix_Some: "x \<in> set (w_temp w) \<Longrightarrow> file_at w (stem @ x) = None \<Longrightarrow> \<exists>y. fresh_suffix w stem = Some y"
  by (cases "fresh_suffix w stem") (auto simp: fresh_suffix_def find_None_iff)

lemma staged_not_dest:
  assumes st: "staged w src i d u" and wf: "fs_wf w"
    and dev: "w_dev w (parent_dir src) \<noteq> w_dev w (parent_dir p)" and pd: "is_dir w (parent_dir p)"
  shows "p \<noteq> d" and "\<not> prefix (d @ ''/'') p" and "p \<noteq> d @ ''/file_move''"
proof -
  have d: "parent_dir d = parent_dir src" "file_at w d = None" "temp_of src d"
    using st by (auto simp: staged_def)
  then show "p \<noteq> d" using dev by auto
  show np: "\<not> prefix (d @ ''/'') p"
  proof
    assume p: "prefix (d @ ''/'') p"
    note b = parent_below(1) [OF p temp_of_not_Nil [OF d(3)]]
    have "file_at w (parent_dir p) = None"
      using b fs_wf_below [OF wf d(2) temp_of_not_Nil [OF d(3)]] d(2) by auto
    then show False using pd by (simp add: is_dir_def)
  qed
  show "p \<noteq> d @ ''/file_move''" using np by auto
qed

lemma staged_is_dir:
  assumes st: "staged w src i d u" and "is_dir w p" and "file_at w src = Some i" "i_kind i = Reg"
  shows "is_dir u p"
proof -
  have "p \<noteq> src" "p \<noteq> d" "p \<noteq> d @ ''/file_move''" using assms by (auto simp: is_dir_def staged_def)
  then show ?thesis using assms(2) st by (auto simp: is_dir_def staged_def)
qed

lemma xdev_stage_completes:
  assumes calm: "calm w" and src: "file_at w src = Some i" "i_kind i = Reg" "is_dir w (parent_dir src)"
    and env: "fs_wf w" "temp_same_dev src w" "no_slash w"
    and tmp: "fresh_suffix w (dirname src @ ''/file_move_'') = Some x"
    and d: "d = dirname src @ ''/file_move_'' @ x"
  shows "\<exists>w1 u. sys_mkdtemp (dirname src @ ''/file_move_'') w = (Inr d, w1)
    \<and> sys_rename src (d @ ''/file_move'') w1 = (Inr (), u) \<and> staged w src i d u \<and> is_dir u d"
proof -
  let ?w1 = "put_file d (new_inode w Dir 0x41C0) w"
  have mk: "sys_mkdtemp (dirname src @ ''/file_move_'') w = (Inr d, ?w1)"
    using tmp src(3) calm by (simp add: sys_mkdtemp_def sys_mktemp_Inr parent_dir_stem0 d)
  note m = mkdtemp_Inr [OF mk env]
  have ds: "d \<noteq> src" using m(1) src(1) by auto
  have pt: "parent_dir (d @ ''/file_move'') = d" using m(2) by (intro parent_dir_staged temp_of_not_Nil)
  have dd: "is_dir ?w1 d" by (simp add: is_dir_def lookup_simps new_inode_def)
  have "\<exists>u. sys_rename src (d @ ''/file_move'') ?w1 = (Inr (), u)"
  proof (rule sys_rename_success)
    show "file_at ?w1 src = Some i" using src ds by (simp add: lookup_simps)
    show "is_dir ?w1 (parent_dir (d @ ''/file_move''))" using dd pt by simp
    show "\<not> is_dir ?w1 (d @ ''/file_move'')" using m(5) by (simp add: is_dir_def lookup_simps)
    show "w_dev ?w1 (parent_dir src) = w_dev ?w1 (parent_dir (d @ ''/file_move''))"
      using m(4) pt by (simp add: put_file_def)
  qed (use calm src in \<open>simp_all add: put_file_def\<close>)
  then obtain u where rn: "sys_rename src (d @ ''/file_move'') ?w1 = (Inr (), u)" ..
  have st: "staged w src i d u" by (rule staged_rename [OF mk rn src(1,2) env])
  have "file_at u d = file_at ?w1 d"
    using sys_rename_plain(1) [OF rn, of i d] src ds by (simp add: lookup_simps)
  then have "is_dir u d" using dd by (simp add: is_dir_def)
  with mk rn st show ?thesis by blast
qed

lemma xdev_move_completes:
  assumes calm: "calm w" and src: "file_at w src = Some i" "i_kind i = Reg" "is_dir w (parent_dir src)"
    and env: "fs_wf w" "temp_same_dev src w" "no_slash w"
    and tmp: "fresh_suffix w (dirname src @ ''/file_move_'') \<noteq> None"
      "fresh_suffix w (dirname dest @ ''/file_move_'') \<noteq> None"
    and dest: "file_at w dest = None" "is_dir w (parent_dir dest)" "w_dev w (parent_dir src) \<noteq> w_dev w (parent_dir dest)"
    and space: "checkDiskFree_vfs a b (fi_size fi) (w_vfs w (dirname dest))"
    and bsz: "0 < to_int32 (min (uint (f_bsize (w_vfs w (dirname src)))) (uint (f_bsize (w_vfs w (dirname dest)))))"
    and crc: "crc_of X (i_data i) = fi_crc32 fi"
  shows "\<exists>v j. xdev_move X a b src dest fi w = (Inr (), v) \<and> i_kind j = Reg \<and> i_data j = i_data i
    \<and> (\<forall>p. file_at v p = (if p = dest then Some j else if p = src then None else file_at w p))"
proof -
  obtain x y where xy: "fresh_suffix w (dirname src @ ''/file_move_'') = Some x"
    "fresh_suffix w (dirname dest @ ''/file_move_'') = Some y" using tmp by auto
  define d where "d = dirname src @ ''/file_move_'' @ x"
  obtain w1 u where mk: "sys_mkdtemp (dirname src @ ''/file_move_'') w = (Inr d, w1)"
    and rn: "sys_rename src (d @ ''/file_move'') w1 = (Inr (), u)" and st: "staged w src i d u" and ud: "is_dir u d"
    using xdev_stage_completes [OF calm src env xy(1) d_def] by blast
  let ?t = "d @ ''/file_move''"
  obtain j where u: "\<And>p. file_at u p = (if p = ?t then Some i
      else if p = src then None else if p = d then Some j else file_at w p)"
    and new: "file_at w d = None" "file_at w ?t = None" "temp_of src d" and wu: "same_env w u"
    using st by (auto simp: staged_def)
  note nd = staged_not_dest [OF st env(1) dest(3,2)]
  have y: "y \<in> set (w_temp w)" "file_at w (dirname dest @ ''/file_move_'' @ y) = None"
    using fresh_suffix_fresh [OF xy(2)] by simp_all
  then have "parent_dir (dirname dest @ ''/file_move_'' @ y) = parent_dir dest"
    using env(3) by (intro parent_dir_stem) (auto simp: no_slash_def list_all_iff)
  then have free: "file_at u ((dirname dest @ ''/file_move_'') @ y) = None"
    using staged_not_dest [OF st env(1), of "dirname dest @ ''/file_move_'' @ y"] dest y(2) u
    by (simp del: append_Cons)
  have "y \<in> set (w_temp u)" using y(1) wu by (simp add: same_env_def)
  from fresh_suffix_Some [OF this free]
  obtain z where z: "fresh_suffix u (dirname dest @ ''/file_move_'') = Some z" ..
  have empty: "file_at u q = None" if "prefix (d @ ''/'') q" "q \<noteq> ?t" for q
    using fs_wf_below [OF env(1) new(1) temp_of_not_Nil [OF new(3)] that(1)] that(2) u [of q] that(1) by auto
  have "file_at u dest = None" using u [of dest] nd dest(1) by simp
  moreover have "no_slash u" "calm u" using wu env(3) calm calm_env by (auto simp: no_slash_def same_env_def)
  ultimately obtain v j' where v: "xdev_copy X (w_vfs w (dirname src)) (w_vfs w (dirname dest)) ?t d dest fi u = (Inr (), v)"
    "i_kind j' = Reg" "i_data j' = i_data i"
    "\<And>p. file_at v p = (if p = dest then Some j' else if p = d \<or> p = ?t then None else file_at u p)"
    using xdev_copy_completes [OF _ _ src(2) ud empty staged_is_dir [OF st dest(2) src(1,2)] _ nd(2,1) bsz z _ crc] u
    by auto
  have "xdev_move X a b src dest fi w = (Inr (), v)"
    using mk rn space v(1) by (simp add: xdev_move_def seqE_def check_def Let_def catchE_def)
  moreover have "file_at v p = (if p = dest then Some j' else if p = src then None else file_at w p)" for p
    using v(4) [of p] u [of p] new src(1) dest(1) by auto
  ultimately show ?thesis using v(2,3) by blast
qed

section \<open>The whole operation\<close>

text \<open>Only \<open>errno\<close> and the clock may differ.\<close>

definition quiet :: "world \<Rightarrow> world \<Rightarrow> bool" where
  "quiet w v \<longleftrightarrow> w_files v = w_files w \<and> same_env w v"

lemma quiet_simps:
  assumes "quiet w v"
  shows "file_at v = file_at w" "fs_wf v = fs_wf w" "no_slash v = no_slash w" "w_fault v = w_fault w"
    "temp_same_dev p v = temp_same_dev p w" "untouched src dest v u = untouched src dest w u"
    "regular_file v = regular_file w" "readable_data v = readable_data w" "w_dev v = w_dev w"
proof -
  have e: "w_files v = w_files w" "w_fault v = w_fault w" "w_dev v = w_dev w" "w_temp v = w_temp w"
    using assms by (simp_all add: quiet_def same_env_def)
  then show "file_at v = file_at w" "w_fault v = w_fault w" "w_dev v = w_dev w" by simp_all
  show "no_slash v = no_slash w" "temp_same_dev p v = temp_same_dev p w"
    using e by (simp_all add: no_slash_def temp_same_dev_def)
  have "is_dir v = is_dir w" using e by (simp add: fun_eq_iff is_dir_def)
  then show "fs_wf v = fs_wf w" using e by (simp add: fs_wf_def)
  show "untouched src dest v u = untouched src dest w u" using e by (simp add: untouched_def)
  show "regular_file v = regular_file w" "readable_data v = readable_data w"
    using e by (auto intro!: ext simp: regular_file_def readable_data_def split: option.splits)
qed

lemma quiet_trans: "quiet w v \<Longrightarrow> quiet v u \<Longrightarrow> quiet w u"
  by (auto simp: quiet_def intro: same_env_trans)

lemma quiet_untouched: "quiet w v \<Longrightarrow> untouched src dest w v"
  by (simp add: quiet_def untouched_def)

lemma sys_rename_Inl: "sys_rename src dest w = (Inl e, v) \<Longrightarrow> quiet w v"
  by (auto simp: sys_rename_def guard_fault_def fail_def quiet_def same_env_def
      split: option.splits if_splits)

lemma move_file_cases:
  "(\<exists>e v. move_file X a b src dest fi w = (Inl e, v) \<and> quiet w v)
   \<or> (\<exists>i w3. regular_file w src = Some i \<and> crc_of X (readable_data w src) = fi_crc32 fi
       \<and> (w_fault w (Sc_access dest F_OK) = None \<longrightarrow> file_at w dest = None) \<and> quiet w w3
       \<and> ((\<exists>v. sys_rename src dest w3 = (Inr (), v) \<and> move_file X a b src dest fi w = (Inr (), v))
        \<or> (\<exists>w4. sys_rename src dest w3 = (Inl EXDEV, w4) \<and> quiet w w4
             \<and> move_file X a b src dest fi w = xdev_move X a b src dest fi w4)))"
proof -
  obtain r w1 where ac: "sys_access dest F_OK w = (r, w1)" by (cases "sys_access dest F_OK w")
  have w1: "quiet w w1" and abs: "\<And>e. r = Inl e \<Longrightarrow> w_fault w (Sc_access dest F_OK) = None \<longrightarrow> file_at w dest = None"
    using ac by (auto simp: sys_access_def guard_fault_def fail_def same_env_def quiet_def split: option.splits)
  show ?thesis
  proof (cases r)
    case (Inr x)
    with ac have "move_file X a b src dest fi w = (Inl (system_error EEXIST ''move_file error - file exists''), w1)"
      by (simp add: move_file_def seqE_def attempt_def)
    with w1 show ?thesis by blast
  next
    case (Inl e0)
    obtain r2 w2 where fi2: "file_info X src w1 = (r2, w2)" by (cases "file_info X src w1")
    have w2: "quiet w w2" using file_info_cases [of w1 src X] fi2 w1
      by (intro quiet_trans [OF w1]) (auto simp: quiet_def)
    obtain r3 w3 where rn: "sys_rename src dest w2 = (r3, w3)" by (cases "sys_rename src dest w2")
    have eq: "move_file X a b src dest fi w = (case r2 of Inl e \<Rightarrow> (Inl e, w2) | Inr pre \<Rightarrow>
        if fi_crc32 pre \<noteq> fi_crc32 fi then (Inl (runtime_error ''move_file: CRC Check failed on source file''), w2)
        else (case r3 of Inr _ \<Rightarrow> (Inr (), w3) | Inl e \<Rightarrow> if e = EXDEV then xdev_move X a b src dest fi w3
           else (Inl (system_error e ''Error renaming''), w3)))"
      using ac Inl fi2 rn by (simp add: move_file_def seqE_def attempt_def split: sum.splits)
    show ?thesis
    proof (cases r2)
      case (Inl e)
      with eq w2 show ?thesis by auto
    next
      case (Inr pre)
      obtain i where i: "regular_file w src = Some i" "fi_crc32 pre = crc_of X (readable_data w src)"
        using file_info_Inr [OF fi2 [unfolded Inr]] by (auto simp: info_for_def quiet_simps [OF w1])
      have "quiet w w3" if "r3 = Inl e" for e
        using sys_rename_Inl [OF rn [unfolded that]] w2 quiet_trans by blast
      with eq Inr i w2 rn abs [OF Inl] show ?thesis by (cases r3) auto
    qed
  qed
qed

lemma move_file_outcome:
  assumes "move_file X min_free_disk min_free_pct src dest fi w = (Inl e, v)"
    and "fs_wf w" and "no_slash w" and "temp_same_dev src w"
  shows "untouched src dest w v \<or> set_aside src dest w v"
  using move_file_cases [of X min_free_disk min_free_pct src dest fi w]
proof (elim disjE exE conjE)
  fix i w3 w4
  assume i: "regular_file w src = Some i" and "quiet w w4"
    and mv: "move_file X min_free_disk min_free_pct src dest fi w = xdev_move X min_free_disk min_free_pct src dest fi w4"
  note q = quiet_simps [OF \<open>quiet w w4\<close>]
  have src: "file_at w4 src = Some i" "i_kind i = Reg"
    using i by (auto simp: q regular_file_def split: option.splits if_splits)
  have "untouched src dest w4 v \<or> set_aside src dest w4 v"
    using xdev_move_fails [OF _ src] assms mv q by metis
  moreover have "w_temp w4 = w_temp w" using \<open>quiet w w4\<close> by (simp add: quiet_def same_env_def)
  ultimately show ?thesis by (simp add: q set_aside_def staged_name_def)
qed (use assms(1) in \<open>auto intro: quiet_untouched\<close>)

lemma move_file_throws:
  assumes "move_file X min_free_disk min_free_pct src dest fi w = (Inl e, v)"
    and "\<And>t. temp_of src t \<Longrightarrow> w_fault w (Sc_rename t src) = None"
    and "fs_wf w" and "no_slash w" and "temp_same_dev src w"
  shows "untouched src dest w v"
  using move_file_outcome [OF assms(1,3-5)] assms(2) staged_name_temp by (auto simp: set_aside_def)

text \<open>
  (C1) \<open>move_file\<close> loses nothing on failure: whatever system calls fail and wherever, if it throws then
  every file that existed before is there with the same contents, the source included, nothing
  appears at the destination, and what is new is at most the temporary names in the directories
  of source and destination. If the call that failed is the rename that puts the source back, then the source is
  under the temporary name it had been moved to, and the same holds of every other file. (A moved file keeps
  its inode, so contents, times and mode are all covered.) Of the file system it is assumed that every file lies in a directory,
  that temporary names have no slash, and that a directory made beside the source is on its device.
\<close>

theorem move_file_failure_atomic:
  assumes "move_file X min_free_disk min_free_pct src dest fi w = (Inl e, v)"
    and "fs_wf w" and "no_slash w" and "temp_same_dev src w"
  shows "untouched src dest w v \<or> set_aside src dest w v"
  using assms by (rule move_file_outcome)


lemma move_file_moved:
  assumes mv: "move_file X min_free_disk min_free_pct src dest fi w = (Inr (), v)"
    and acc: "w_fault w (Sc_access dest F_OK) = None" and ren: "w_fault w (Sc_rename src dest) \<noteq> Some EXDEV"
    and rd: "\<And>p off. w_fault w (Sc_open p) = None \<and> w_fault w (Sc_read p off) = None"
    and env: "fs_wf w" "no_slash w" "temp_same_dev src w"
  shows "moved X src dest fi w v"
  using move_file_cases [of X min_free_disk min_free_pct src dest fi w]
proof (elim disjE exE conjE)
  fix i w3 v'
  assume i: "regular_file w src = Some i" "crc_of X (readable_data w src) = fi_crc32 fi"
    "w_fault w (Sc_access dest F_OK) = None \<longrightarrow> file_at w dest = None" "quiet w w3"
    and rn: "sys_rename src dest w3 = (Inr (), v')"
    and "move_file X min_free_disk min_free_pct src dest fi w = (Inr (), v')"
  with mv have rn: "sys_rename src dest w3 = (Inr (), v)" by simp
  have src: "file_at w3 src = Some i" "i_kind i = Reg"
    using i(1) by (auto simp: quiet_simps [OF i(4)] regular_file_def split: option.splits if_splits)
  have "readable_data w src = i_data i"
    using src rd by (simp add: readable_data_def quiet_simps [OF i(4)])
  moreover have fa: "file_at v p = (if p = dest then Some i else if p = src then None else file_at w p)" for p
    using sys_rename_plain(1) [OF rn src(1)] src(2) by (simp add: quiet_simps [OF i(4)])
  moreover have "src \<noteq> dest" using src(1) i(3) acc by (auto simp: quiet_simps [OF i(4)])
  ultimately show ?thesis using i(2,3) src(2) acc by (auto simp: moved_def landed_def split: if_splits)
next
  fix i w3 w4
  assume i: "regular_file w src = Some i" "w_fault w (Sc_access dest F_OK) = None \<longrightarrow> file_at w dest = None"
    "quiet w w3" "quiet w w4" and rn: "sys_rename src dest w3 = (Inl EXDEV, w4)"
    and mx: "move_file X min_free_disk min_free_pct src dest fi w = xdev_move X min_free_disk min_free_pct src dest fi w4"
  note q = quiet_simps [OF i(4)] and q3 = quiet_simps [OF i(3)]
  have src: "file_at w4 src = Some i" "i_kind i = Reg"
    using i(1) by (auto simp: q regular_file_def split: option.splits if_splits)
  have dst: "file_at w4 dest = None" using i(2) acc by (simp add: q)
  have dev: "w_dev w4 (parent_dir src) \<noteq> w_dev w4 (parent_dir dest)"
    using rn ren by (auto simp: sys_rename_def guard_fault_def fail_def q q3 split: option.splits if_splits)
  have "xdev_move X min_free_disk min_free_pct src dest fi w4 = (Inr (), v)" using mx mv by simp
  from xdev_move_succeeds [OF this src dst dev] rd env have "moved X src dest fi w4 v" by (simp add: q)
  then show ?thesis unfolding moved_def landed_def q .
qed (use mv in auto)

lemma move_file_returns:
  assumes mv: "move_file X min_free_disk min_free_pct src dest fi w = (Inr (), v)"
    and acc: "w_fault w (Sc_access dest F_OK) = None" and ren: "w_fault w (Sc_rename src dest) \<noteq> Some EXDEV"
    and last: "\<And>t. temp_of dest t \<Longrightarrow> w_fault w (Sc_rename t dest) = None"
    and rd: "\<And>p off. w_fault w (Sc_open p) = None \<and> w_fault w (Sc_read p off) = None"
    and env: "fs_wf w" "no_slash w" "temp_same_dev src w"
  shows "file_at w dest = None
    \<and> (\<exists>j. file_at v dest = Some j \<and> i_kind j = Reg \<and> crc_of X (i_data j) = fi_crc32 fi)
    \<and> file_at v src = None
    \<and> (\<forall>p i. file_at w p = Some i \<longrightarrow> p \<noteq> src \<longrightarrow> file_at v p = Some i)"
proof -
  have m: "moved X src dest fi w v" by (rule move_file_moved [OF mv acc ren rd env])
  then obtain q j where "file_at v q = Some j" "i_kind j = Reg" "crc_of X (i_data j) = fi_crc32 fi"
    "q = dest \<or> temp_of dest q \<and> w_fault w (Sc_rename q dest) \<noteq> None" by (auto simp: moved_def landed_def)
  moreover from this(4) have "q = dest" using last by metis
  ultimately show ?thesis using m by (auto simp: moved_def)
qed

text \<open>
  (C2) A move that returns has moved the file: the destination did not exist before, it now holds
  a regular file whose contents have the checksum asked for, the source is gone, every other
  file that existed is unchanged, and what else is new is at most temporary names. When the rename that puts the copy in place has
  failed, which the code does not look at, the data is under the temporary name of the copy instead and there is nothing at the
  destination. The hypotheses exclude an \<open>access\<close> test that is refused although the file is there, a rename
  that reports two devices where there is one, and files that cannot be opened or read, since
  the checksum of what cannot be read is that of an empty file.
\<close>

theorem move_file_success:
  assumes mv: "move_file X min_free_disk min_free_pct src dest fi w = (Inr (), v)"
    and acc: "w_fault w (Sc_access dest F_OK) = None" and ren: "w_fault w (Sc_rename src dest) \<noteq> Some EXDEV"
    and rd: "\<And>p off. w_fault w (Sc_open p) = None \<and> w_fault w (Sc_read p off) = None"
    and env: "fs_wf w" "no_slash w" "temp_same_dev src w"
  shows "file_at w dest = None \<and> landed X dest fi w v \<and> file_at v src = None
    \<and> (\<forall>p i. file_at w p = Some i \<longrightarrow> p \<noteq> src \<longrightarrow> file_at v p = Some i)
    \<and> (\<forall>p. file_at w p = None \<longrightarrow> file_at v p \<noteq> None \<longrightarrow> p = dest \<or> temp_of src p \<or> temp_of dest p)"
  using move_file_moved [OF assms] by (simp add: moved_def)


text \<open>
  Moving across devices completes when no call fails: if the destination is free, its
  directory exists and has room, and the checksum given is that of the source, then \<open>move_file\<close>
  returns, the destination is a regular file with exactly the bytes of the source, the source is
  gone and the rest of the file system, temporary names included, is what it was.
\<close>

lemma move_file_xdev_completes:
  assumes calm: "calm w" and src: "file_at w src = Some i" "i_kind i = Reg" "is_dir w (parent_dir src)"
    and env: "fs_wf w" "temp_same_dev src w" "no_slash w"
    and tmp: "fresh_suffix w (dirname src @ ''/file_move_'') \<noteq> None"
      "fresh_suffix w (dirname dest @ ''/file_move_'') \<noteq> None"
    and dest: "file_at w dest = None" "is_dir w (parent_dir dest)" "w_dev w (parent_dir src) \<noteq> w_dev w (parent_dir dest)"
    and space: "checkDiskFree_vfs min_free_disk min_free_pct (fi_size fi) (w_vfs w (dirname dest))"
    and bsz: "0 < to_int32 (min (uint (f_bsize (w_vfs w (dirname src)))) (uint (f_bsize (w_vfs w (dirname dest)))))"
    and crc: "crc_of X (i_data i) = fi_crc32 fi"
  shows "\<exists>v j. move_file X min_free_disk min_free_pct src dest fi w = (Inr (), v) \<and> i_kind j = Reg \<and> i_data j = i_data i
    \<and> (\<forall>p. file_at v p = (if p = dest then Some j else if p = src then None else file_at w p))"
proof -
  let ?w1 = "w\<lparr>w_errno := ENOENT\<rparr>"
  have ac: "sys_access dest F_OK w = (Inl ENOENT, ?w1)"
    using calm dest(1) by (simp add: sys_access_def guard_fault_def fail_def)
  have "regular_file ?w1 src = Some i" using src calm by (simp add: regular_file_def)
  then obtain w2 where fi2: "file_info X src ?w1 = (Inr (info_for X ?w1 src i), w2)" "w_files w2 = w_files ?w1" "same_env ?w1 w2"
    using file_info_cases [of ?w1 src X] by auto
  have crc1: "fi_crc32 (info_for X ?w1 src i) = fi_crc32 fi"
    using crc src(1) calm by (simp add: info_for_def readable_data_def)
  define w3 where "w3 = w2\<lparr>w_errno := EXDEV\<rparr>"
  have q: "quiet w w3" and vf: "w_vfs w3 = w_vfs w" and tm: "w_temp w3 = w_temp w"
    using fi2(2,3) by (simp_all add: w3_def quiet_def same_env_def)
  note qs = quiet_simps [OF q]
  have dirs: "is_dir w3 = is_dir w" by (simp add: fun_eq_iff is_dir_def qs)
  have e2: "w_files w2 = w_files w" "w_dev w2 = w_dev w" "w_fault w2 = w_fault w"
    using fi2(2,3) by (simp_all add: same_env_def)
  then have rn: "sys_rename src dest w2 = (Inl EXDEV, w3)"
    using calm src(1) dest(2,3) by (simp add: sys_rename_def guard_fault_def fail_def is_dir_def w3_def)
  have fs: "fresh_suffix w3 = fresh_suffix w" by (simp add: fun_eq_iff fresh_suffix_def qs tm)
  have "move_file X min_free_disk min_free_pct src dest fi w = xdev_move X min_free_disk min_free_pct src dest fi w3"
    using ac fi2(1) crc1 rn by (simp add: move_file_def seqE_def attempt_def)
  moreover have "calm w3" using calm q calm_env by (auto simp: quiet_def)
  ultimately show ?thesis
    using xdev_move_completes [of w3 src i dest min_free_disk min_free_pct fi X] assms by (simp add: qs dirs fs vf cong: if_cong)
qed


text \<open>Whatever happens, a move leaves the environment alone.\<close>

lemma stable_same_env: "stable (only_files UNIV) m \<Longrightarrow> stable same_env m"
  by (simp add: stable_def only_files_def)

lemma stable_UNIV_calls:
  "stable (only_files UNIV) (sys_rename src dst)" "stable (only_files UNIV) (sys_unlink p)"
  "stable (only_files UNIV) (sys_rmdir p)" "stable (only_files UNIV) (sys_mkdtemp p)"
  "stable (only_files UNIV) (sys_mkstemp p)" "stable (only_files UNIV) (copy_loop fuel s d n off)"
  using stable_sys_rename stable_sys_unlink stable_sys_rmdir stable_copy_loop
  by (auto simp: stable_def only_files_def writes_to_def sys_mkdtemp_def sys_mkstemp_def sys_mktemp_def
      guard_fault_def fail_def same_env_def put_file_def split: option.splits)

lemma stable_move_file_env: "stable same_env (move_file X a b src dest fi)"
proof (rule stable_same_env)
  have copy: "stable (only_files UNIV) (xdev_copy X sv dv s d dest fi)" for sv dv s d
    unfolding xdev_copy_def by (intro frame_intros stable_UNIV_calls)
  have "stable (only_files UNIV) (xdev_move X a b src dest fi)"
    unfolding xdev_move_def by (intro frame_intros stable_UNIV_calls copy)
  then show "stable (only_files UNIV) (move_file X a b src dest fi)"
    unfolding move_file_def by (intro frame_intros stable_UNIV_calls)
qed

section \<open>Witnesses\<close>

text \<open>
  A checksum that adds the bytes up, a file \<^verbatim>\<open>/a/f\<close>, a destination on the other file system, and a
  run in which every write is refused.
\<close>

definition sum_ext :: ext_base where
  "sum_ext = \<lparr>x_crc32 = (\<lambda>c bs. c + sum_list (map ucast bs)), x_crc_init = 0, x_strerror = (\<lambda>_. ''error'')\<rparr>"

definition two_disks :: "(syscall \<Rightarrow> errno option) \<Rightarrow> world" where
  "two_disks = demo_world [(''/'', demo_dir), (''/a'', demo_dir), (''/b'', demo_dir), (''/a/f'', demo_file [1, 2, 3])]"

definition disk_full :: "syscall \<Rightarrow> errno option" where
  "disk_full c = (case c of Sc_write p n \<Rightarrow> Some ENOSPC | _ \<Rightarrow> None)"

definition demo_info :: FileInfo where
  "demo_info = \<lparr>fi_id = ''f'', fi_path = ''/a/f'', fi_size = 3, fi_modified = 10, fi_created = 10,
     fi_crc32 = ''00000006'', fi_extra = None\<rparr>"

lemma two_disks_env: "fs_wf (two_disks f)" "no_slash (two_disks f)" "temp_same_dev ''/a/f'' (two_disks f)"
  by (simp_all add: fs_wf_def no_slash_def temp_same_dev_def two_disks_def demo_world_def is_dir_def demo_dir_def
      parent_dir_def dirname_def rfind_def)

lemma two_disks_fault: "w_fault (two_disks f) = f"
  by (simp add: two_disks_def demo_world_def)

theorem move_file_failure_atomic_witness:
  "fst (move_file sum_ext (-1) (-1) ''/a/f'' ''/b/g'' demo_info (two_disks disk_full))
     = Inl (runtime_error ''move_file: CRC Check failed on written file'')
   \<and> untouched ''/a/f'' ''/b/g'' (two_disks disk_full)
       (snd (move_file sum_ext (-1) (-1) ''/a/f'' ''/b/g'' demo_info (two_disks disk_full)))"
proof -
  have run: "fst (move_file sum_ext (-1) (-1) ''/a/f'' ''/b/g'' demo_info (two_disks disk_full))
     = Inl (runtime_error ''move_file: CRC Check failed on written file'')" by code_simp
  with move_file_failure_atomic [OF _ two_disks_env, of sum_ext "-1" "-1" "''/b/g''" demo_info disk_full
      "runtime_error ''move_file: CRC Check failed on written file''"]
  show ?thesis by (simp add: two_disks_fault disk_full_def prod_eq_iff set_aside_def)
qed

theorem move_file_success_witness:
  "fst (move_file sum_ext (-1) (-1) ''/a/f'' ''/b/g'' demo_info (two_disks (\<lambda>_. None))) = Inr ()
   \<and> file_at (snd (move_file sum_ext (-1) (-1) ''/a/f'' ''/b/g'' demo_info (two_disks (\<lambda>_. None)))) ''/a/f'' = None
   \<and> landed sum_ext ''/b/g'' demo_info (two_disks (\<lambda>_. None))
       (snd (move_file sum_ext (-1) (-1) ''/a/f'' ''/b/g'' demo_info (two_disks (\<lambda>_. None))))"
proof -
  have run: "fst (move_file sum_ext (-1) (-1) ''/a/f'' ''/b/g'' demo_info (two_disks (\<lambda>_. None))) = Inr ()"
    by code_simp
  with move_file_success [OF _ _ _ _ two_disks_env, of sum_ext "-1" "-1" "''/b/g''" demo_info "\<lambda>_. None"]
  show ?thesis by (simp add: two_disks_fault prod_eq_iff)
qed

text \<open>
  The result of the rename that puts the copy in place is not looked at: when it fails, the move
  reports success, and the data is left under the temporary name only.
\<close>

definition last_rename_fails :: "syscall \<Rightarrow> errno option" where
  "last_rename_fails c = (if c = Sc_rename ''/b/file_move_x'' ''/b/g'' then Some EIO else None)"

lemma move_file_last_rename_unchecked:
  "case move_file sum_ext (-1) (-1) ''/a/f'' ''/b/g'' demo_info (two_disks last_rename_fails) of
     (r, v) \<Rightarrow> r = Inr () \<and> file_at v ''/a/f'' = None \<and> file_at v ''/b/g'' = None"
  by code_simp

text \<open>On one device a rename is enough; across devices the file is copied.\<close>

lemma move_file_completes:
  assumes calm: "calm w" and src: "file_at w src = Some i" "i_kind i = Reg" "is_dir w (parent_dir src)"
    and env: "fs_wf w" "temp_same_dev src w" "no_slash w"
    and dest: "file_at w dest = None" "is_dir w (parent_dir dest)"
    and crc: "crc_of X (i_data i) = fi_crc32 fi"
    and xdev: "w_dev w (parent_dir src) \<noteq> w_dev w (parent_dir dest) \<Longrightarrow>
      fresh_suffix w (dirname src @ ''/file_move_'') \<noteq> None \<and> fresh_suffix w (dirname dest @ ''/file_move_'') \<noteq> None
      \<and> checkDiskFree_vfs min_free_disk min_free_pct (fi_size fi) (w_vfs w (dirname dest))
      \<and> 0 < to_int32 (min (uint (f_bsize (w_vfs w (dirname src)))) (uint (f_bsize (w_vfs w (dirname dest)))))"
  shows "\<exists>v j. move_file X min_free_disk min_free_pct src dest fi w = (Inr (), v) \<and> i_kind j = Reg \<and> i_data j = i_data i
    \<and> (\<forall>p. file_at v p = (if p = dest then Some j else if p = src then None else file_at w p))"
proof (cases "w_dev w (parent_dir src) = w_dev w (parent_dir dest)")
  case False
  then show ?thesis using move_file_xdev_completes [OF calm src env _ _ dest False _ _ crc] xdev by blast
next
  case True
  let ?w1 = "w\<lparr>w_errno := ENOENT\<rparr>"
  have ac: "sys_access dest F_OK w = (Inl ENOENT, ?w1)"
    using calm dest(1) by (simp add: sys_access_def guard_fault_def fail_def)
  have "regular_file ?w1 src = Some i" using src calm by (simp add: regular_file_def)
  then obtain w2 where fi2: "file_info X src ?w1 = (Inr (info_for X ?w1 src i), w2)" "w_files w2 = w_files ?w1" "same_env ?w1 w2"
    using file_info_cases [of ?w1 src X] by auto
  have crc1: "fi_crc32 (info_for X ?w1 src i) = fi_crc32 fi"
    using crc src(1) calm by (simp add: info_for_def readable_data_def)
  have e2: "w_files w2 = w_files w" "w_dev w2 = w_dev w" "w_fault w2 = w_fault w"
    using fi2(2,3) by (simp_all add: same_env_def)
  have ne: "src \<noteq> dest" using src(1) dest(1) by auto
  let ?v = "w2\<lparr>w_files := AList.update dest i (AList.delete src (w_files w2))\<rparr>"
  have "sys_rename src dest w2 = (Inr (), ?v)"
    using calm src(1,2) dest True ne by (simp add: sys_rename_def guard_fault_def is_dir_def e2)
  then have "move_file X min_free_disk min_free_pct src dest fi w = (Inr (), ?v)"
    using ac fi2(1) crc1 by (simp add: move_file_def seqE_def attempt_def)
  then show ?thesis using src(2) by (intro exI [of _ ?v] exI [of _ i]) (simp add: e2 lookup_simps)
qed

end
