(* ===== verification/Oort_Cache.thy ===== *)
theory Oort_Cache
  imports Oort_Prelude
begin

text \<open>
  \<^verbatim>\<open>impl/Cache.h\<close>: the time-limited cache in front of directory listings and metadata files.
  Time points are milliseconds of the steady clock. A call of \<open>get\<close> reads that clock at up to four
  places, always before it calls the wrapped function; the readings are arguments (\<open>t1\<close> in
  \<open>is_cache_ttl_expired\<close>, \<open>t2\<close> in the first \<open>clean_expired\<close>, \<open>now\<close> in \<open>get\<close>, \<open>t4\<close> in the second
  \<open>clean_expired\<close>). The mutex makes a call one step. The wrapped function runs on the state of
  its owner and may throw; the cache is then left as it was prepared, without an entry.
\<close>

record 'a cache =
  m_name :: string
  cache_enabled :: bool
  m_ttl_ms :: "32 word"
  m_cache_last_cleaned_at :: int
  cache_contents :: "(string \<times> int \<times> 'a) list"
  m_gets :: "32 word"
  m_hits :: "32 word"
  m_cleaned :: "32 word"

definition new_cache :: "string \<Rightarrow> 32 word \<Rightarrow> int \<Rightarrow> 'a cache" where
  "new_cache name ttl now = \<lparr>m_name = name, cache_enabled = True, m_ttl_ms = ttl,
     m_cache_last_cleaned_at = now, cache_contents = [], m_gets = 0, m_hits = 0, m_cleaned = 0\<rparr>"

definition is_cache_ttl_expired :: "int \<Rightarrow> 'a cache \<Rightarrow> bool" where
  "is_cache_ttl_expired now c \<longleftrightarrow> m_cache_last_cleaned_at c < now - uint (m_ttl_ms c)"

definition entry_expired :: "int \<Rightarrow> 'a cache \<Rightarrow> int \<times> 'a \<Rightarrow> bool" where
  "entry_expired now c e \<longleftrightarrow> fst e < now - uint (m_ttl_ms c)"

definition clean_expired :: "int \<Rightarrow> 'a cache \<Rightarrow> 'a cache" where
  "clean_expired now c = c\<lparr>
     cache_contents := filter (\<lambda>(k, e). \<not> entry_expired now c e) (cache_contents c),
     m_cleaned := m_cleaned c + of_nat (length (filter (\<lambda>(k, e). entry_expired now c e) (cache_contents c))),
     m_cache_last_cleaned_at := now\<rparr>"

definition flush :: "int \<Rightarrow> 'a cache \<Rightarrow> 'a cache" where
  "flush now c = c\<lparr>cache_contents := [], m_cache_last_cleaned_at := now\<rparr>"

definition enable :: "'a cache \<Rightarrow> 'a cache" where
  "enable c = c\<lparr>cache_enabled := True\<rparr>"

definition disable :: "'a cache \<Rightarrow> 'a cache" where
  "disable c = c\<lparr>cache_enabled := False\<rparr>"

text \<open>\<open>unordered_map::emplace\<close> does nothing when the key is there already.\<close>

definition emplace :: "string \<Rightarrow> int \<times> 'a \<Rightarrow> 'a cache \<Rightarrow> 'a cache" where
  "emplace k e c = (case map_of (cache_contents c) k of
      None \<Rightarrow> c\<lparr>cache_contents := (k, e) # cache_contents c\<rparr> | Some _ \<Rightarrow> c)"

definition cache_at :: "string \<Rightarrow> 'a cache \<Rightarrow> exn + 'a" where
  "cache_at k c = (case map_of (cache_contents c) k of
      None \<Rightarrow> Inl (out_of_range ''_Map_base::at'') | Some (t, v) \<Rightarrow> Inr v)"

definition cache_get :: "int \<Rightarrow> int \<Rightarrow> int \<Rightarrow> int \<Rightarrow> (string \<Rightarrow> ('s, 'a) ste) \<Rightarrow> string
    \<Rightarrow> 'a cache \<Rightarrow> 's \<Rightarrow> (exn + 'a) \<times> 'a cache \<times> 's" where
  "cache_get t1 t2 now t4 fn key c s =
    (if \<not> cache_enabled c then (case fn key s of (r, s') \<Rightarrow> (r, c, s'))
     else
       let c1 = c\<lparr>m_gets := m_gets c + 1\<rparr>;
           c2 = (if is_cache_ttl_expired t1 c1 then clean_expired t2 c1 else c1)
       in case map_of (cache_contents c2) key of
            None \<Rightarrow>
              (case fn key s of
                 (Inl e, s') \<Rightarrow> (Inl e, c2, s')
               | (Inr v, s') \<Rightarrow> let c3 = emplace key (now, v) c2 in (cache_at key c3, c3, s'))
          | Some e \<Rightarrow>
              if entry_expired now c2 e then
                let c3 = clean_expired t4 c2 in
                (case fn key s of
                   (Inl x, s') \<Rightarrow> (Inl x, c3, s')
                 | (Inr v, s') \<Rightarrow> let c4 = emplace key (now, v) c3 in (cache_at key c4, c4, s'))
              else let c3 = c2\<lparr>m_hits := m_hits c2 + 1\<rparr> in (cache_at key c3, c3, s))"

section \<open>What the cache promises\<close>

text \<open>
  The abstract cache: for a time \<open>T\<close>, the entries a \<open>get\<close> at that time would still use. Keys are
  unique in an \<open>unordered_map\<close>; \<open>cache_wf\<close> says so of the association list.
\<close>

definition cache_wf :: "'a cache \<Rightarrow> bool" where
  "cache_wf c \<longleftrightarrow> distinct (map fst (cache_contents c))"

definition live :: "int \<Rightarrow> 'a cache \<Rightarrow> string \<Rightarrow> (int \<times> 'a) option" where
  "live T c k = (case map_of (cache_contents c) k of
      None \<Rightarrow> None | Some e \<Rightarrow> if entry_expired T c e then None else Some e)"

text \<open>
  The contract of a memo table with a lifetime: what is live after a hit and after a miss, that
  a live entry answers without running the function, and that a failing function leaves nothing.
\<close>

locale ttl_memo =
  fixes get :: "int \<Rightarrow> int \<Rightarrow> int \<Rightarrow> int \<Rightarrow> (string \<Rightarrow> ('s, 'a) ste) \<Rightarrow> string \<Rightarrow> 'c \<Rightarrow> 's \<Rightarrow> (exn + 'a) \<times> 'c \<times> 's"
    and alive :: "int \<Rightarrow> 'c \<Rightarrow> string \<Rightarrow> (int \<times> 'a) option"
    and wf :: "'c \<Rightarrow> bool"
    and on :: "'c \<Rightarrow> bool"
    and ttl :: "'c \<Rightarrow> int"
  assumes hit: "wf c \<Longrightarrow> on c \<Longrightarrow> t1 \<le> t2 \<Longrightarrow> t2 \<le> now \<Longrightarrow> alive now c k = Some (t, v) \<Longrightarrow>
      \<exists>c'. get t1 t2 now t4 fn k c s = (Inr v, c', s) \<and> wf c' \<and> on c' \<and> ttl c' = ttl c
        \<and> (\<forall>T \<ge> now. alive T c' = alive T c)"
    and miss: "wf c \<Longrightarrow> on c \<Longrightarrow> t1 \<le> t2 \<Longrightarrow> t2 \<le> now \<Longrightarrow> now \<le> t4 \<Longrightarrow> alive now c k = None \<Longrightarrow>
      fn k s = (Inr v, s') \<Longrightarrow>
      \<exists>c'. get t1 t2 now t4 fn k c s = (Inr v, c', s') \<and> wf c' \<and> on c' \<and> ttl c' = ttl c
        \<and> (\<forall>T \<ge> t4. alive T c' = (alive T c)(k := if now < T - ttl c then None else Some (now, v)))"
    and miss_throws: "wf c \<Longrightarrow> on c \<Longrightarrow> t1 \<le> t2 \<Longrightarrow> t2 \<le> now \<Longrightarrow> now \<le> t4 \<Longrightarrow> alive now c k = None \<Longrightarrow>
      fn k s = (Inl e, s') \<Longrightarrow>
      \<exists>c'. get t1 t2 now t4 fn k c s = (Inl e, c', s') \<and> wf c' \<and> on c' \<and> ttl c' = ttl c
        \<and> (\<forall>T \<ge> t4. alive T c' = alive T c)"
    and alive_not_older: "alive T c k = Some (t, v) \<Longrightarrow> T - ttl c \<le> t"
begin

text \<open>A second call for the same key within the lifetime answers the same, whatever the function.\<close>

lemma second_get:
  assumes "wf c" "on c" "t1 \<le> t2" "t2 \<le> now" "now \<le> t4" "alive now c k = None" "fn k s = (Inr v, s')"
    and "t4 \<le> now'" "t1' \<le> t2'" "t2' \<le> now'" "now' \<le> now + ttl c"
  shows "\<exists>c' c''. get t1 t2 now t4 fn k c s = (Inr v, c', s')
    \<and> get t1' t2' now' t4' fn' k c' s'' = (Inr v, c'', s'')"
proof -
  obtain c' where c': "get t1 t2 now t4 fn k c s = (Inr v, c', s')" "wf c'" "on c'" "ttl c' = ttl c"
    and al: "\<forall>T \<ge> t4. alive T c' = (alive T c)(k := if now < T - ttl c then None else Some (now, v))"
    using miss [of c t1 t2 now t4 k fn s v s'] assms by auto
  have "alive now' c' k = Some (now, v)" using al assms by auto
  then obtain c'' where "get t1' t2' now' t4' fn' k c' s'' = (Inr v, c'', s'')"
    using hit [of c' t1' t2' now' k now v t4' fn' s''] c' assms by auto
  with c' show ?thesis by blast
qed

text \<open>Whatever \<open>get\<close> returns was stored within the lifetime or has just been computed.\<close>

lemma fresh_answer:
  assumes "wf c" "on c" "t1 \<le> t2" "t2 \<le> now" "now \<le> t4" "get t1 t2 now t4 fn k c s = (Inr v, c', s')"
  shows "(\<exists>t. alive now c k = Some (t, v) \<and> now - ttl c \<le> t \<and> s' = s) \<or> fn k s = (Inr v, s')"
proof (cases "alive now c k")
  case (Some e)
  then obtain t u where e: "alive now c k = Some (t, u)" by (cases e) auto
  with assms have "v = u \<and> s' = s" using hit [of c t1 t2 now k t u t4 fn s] by auto
  with e show ?thesis using alive_not_older [of now c k t u] by blast
next
  case None
  obtain r u where fn: "fn k s = (r, u)" by (cases "fn k s")
  with None assms show ?thesis
    using miss [of c t1 t2 now t4 k fn s _ u] miss_throws [of c t1 t2 now t4 k fn s _ u]
    by (cases r) auto
qed

end

section \<open>The implementation keeps the promise\<close>

lemma map_of_filter_entry:
  assumes "distinct (map fst al)"
  shows "map_of (filter (\<lambda>(k, e). P e) al) k =
    (case map_of al k of None \<Rightarrow> None | Some e \<Rightarrow> if P e then Some e else None)"
  using assms
proof (induction al)
  case (Cons a al)
  have "k \<notin> fst ` set al \<Longrightarrow> map_of (filter (\<lambda>(k, e). P e) al) k = None"
    by (force simp: map_of_eq_None_iff)
  with Cons show ?case by (cases a) auto
qed simp

lemma wf_clean_expired: "cache_wf c \<Longrightarrow> cache_wf (clean_expired now c)"
  by (simp add: cache_wf_def clean_expired_def distinct_map_filter)

lemma clean_expired_fields [simp]:
  "cache_enabled (clean_expired now c) = cache_enabled c" "m_ttl_ms (clean_expired now c) = m_ttl_ms c"
  "entry_expired T (clean_expired now c) e = entry_expired T c e"
  by (simp_all add: clean_expired_def entry_expired_def)

lemma map_of_clean_expired:
  "cache_wf c \<Longrightarrow> map_of (cache_contents (clean_expired now c)) k = live now c k"
  by (auto simp: cache_wf_def clean_expired_def live_def map_of_filter_entry split: option.splits)

text \<open>Cleaning is invisible: it drops only what no later call could use.\<close>

lemma live_clean_expired: "cache_wf c \<Longrightarrow> now \<le> T \<Longrightarrow> live T (clean_expired now c) = live T c"
  by (rule ext) (auto simp: live_def [of T "clean_expired now c"] map_of_clean_expired live_def
      entry_expired_def split: option.splits)

lemma live_emplace:
  assumes "map_of (cache_contents c) k = None"
  shows "live T (emplace k (now, v) c) = (live T c)(k := if now < T - uint (m_ttl_ms c) then None else Some (now, v))"
  using assms by (auto simp: fun_eq_iff live_def emplace_def entry_expired_def split: option.splits)

lemma wf_emplace: "cache_wf c \<Longrightarrow> cache_wf (emplace k e c)"
  by (auto simp: cache_wf_def emplace_def map_of_eq_None_iff split: option.splits)

lemma emplace_fields [simp]:
  "cache_enabled (emplace k e c) = cache_enabled c" "m_ttl_ms (emplace k e c) = m_ttl_ms c"
  by (simp_all add: emplace_def split: option.splits)

lemma cache_at_emplace: "map_of (cache_contents c) k = None \<Longrightarrow> cache_at k (emplace k (now, v) c) = Inr v"
  by (simp add: cache_at_def emplace_def)

lemma live_count [simp]:
  "live T (c\<lparr>m_gets := n\<rparr>) = live T c" "live T (c\<lparr>m_hits := n\<rparr>) = live T c"
  "cache_wf (c\<lparr>m_gets := n\<rparr>) = cache_wf c" "cache_wf (c\<lparr>m_hits := n\<rparr>) = cache_wf c"
  by (simp_all add: fun_eq_iff live_def cache_wf_def entry_expired_def split: option.splits)

text \<open>The state of the cache when \<open>get\<close> looks the key up.\<close>

definition prepared :: "int \<Rightarrow> int \<Rightarrow> 'a cache \<Rightarrow> 'a cache" where
  "prepared t1 t2 c = (let c1 = c\<lparr>m_gets := m_gets c + 1\<rparr>
     in if is_cache_ttl_expired t1 c1 then clean_expired t2 c1 else c1)"

lemma prepared_props:
  assumes "cache_wf c"
  shows "cache_wf (prepared t1 t2 c)" "cache_enabled (prepared t1 t2 c) = cache_enabled c"
    "m_ttl_ms (prepared t1 t2 c) = m_ttl_ms c"
  using assms by (auto simp: prepared_def Let_def wf_clean_expired)

lemma live_prepared: "cache_wf c \<Longrightarrow> t2 \<le> T \<Longrightarrow> live T (prepared t1 t2 c) = live T c"
  by (auto simp: prepared_def Let_def live_clean_expired)

lemma cache_get_prepared:
  assumes "cache_enabled c"
  shows "cache_get t1 t2 now t4 fn k c s = (let c2 = prepared t1 t2 c in
    case map_of (cache_contents c2) k of
      None \<Rightarrow> (case fn k s of (Inl e, s') \<Rightarrow> (Inl e, c2, s')
          | (Inr v, s') \<Rightarrow> let c3 = emplace k (now, v) c2 in (cache_at k c3, c3, s'))
    | Some e \<Rightarrow> if entry_expired now c2 e then
          let c3 = clean_expired t4 c2 in
          (case fn k s of (Inl x, s') \<Rightarrow> (Inl x, c3, s')
           | (Inr v, s') \<Rightarrow> let c4 = emplace k (now, v) c3 in (cache_at k c4, c4, s'))
        else let c3 = c2\<lparr>m_hits := m_hits c2 + 1\<rparr> in (cache_at k c3, c3, s))"
  using assms by (simp add: cache_get_def prepared_def Let_def)

text \<open>On a miss \<open>get\<close> works on a cache \<open>d\<close> that has no entry for the key and is otherwise as live.\<close>

lemma cache_get_miss:
  assumes "cache_wf c" "cache_enabled c" "t2 \<le> now" "now \<le> t4" "live now c k = None"
  shows "\<exists>d. cache_wf d \<and> cache_enabled d \<and> m_ttl_ms d = m_ttl_ms c \<and> map_of (cache_contents d) k = None
    \<and> (\<forall>T \<ge> t4. live T d = live T c)
    \<and> cache_get t1 t2 now t4 fn k c s = (case fn k s of (Inl e, s') \<Rightarrow> (Inl e, d, s')
        | (Inr v, s') \<Rightarrow> (Inr v, emplace k (now, v) d, s'))"
proof -
  let ?p = "prepared t1 t2 c"
  note p = prepared_props [OF assms(1), of t1 t2]
  have lp: "live now ?p k = None" using assms by (simp add: live_prepared)
  show ?thesis
  proof (cases "map_of (cache_contents ?p) k")
    case None
    with p assms show ?thesis
      by (intro exI [of _ ?p]) (auto simp: cache_get_prepared cache_at_emplace Let_def live_prepared
          split: prod.splits sum.splits)
  next
    case (Some e)
    with lp have ex: "entry_expired now ?p e" by (simp add: live_def split: if_splits)
    let ?d = "clean_expired t4 ?p"
    have none: "map_of (cache_contents ?d) k = None"
      using ex Some assms by (auto simp: map_of_clean_expired p(1) live_def entry_expired_def)
    from p assms ex Some none show ?thesis
      by (intro exI [of _ ?d]) (auto simp: cache_get_prepared cache_at_emplace Let_def
          wf_clean_expired live_clean_expired live_prepared split: prod.splits sum.splits)
  qed
qed

interpretation agent_cache: ttl_memo cache_get live cache_wf cache_enabled "\<lambda>c. uint (m_ttl_ms c)"
proof (unfold_locales, goal_cases)
  case (1 c t1 t2 now k t v t4 fn s)
  let ?p = "prepared t1 t2 c"
  note p = prepared_props [OF 1(1), of t1 t2]
  have "live now ?p k = Some (t, v)" using 1 by (simp add: live_prepared)
  then have "map_of (cache_contents ?p) k = Some (t, v)" "\<not> entry_expired now ?p (t, v)"
    by (auto simp: live_def split: option.splits if_splits)
  with 1 p show ?case by (auto simp: cache_get_prepared Let_def cache_at_def live_prepared)
next
  case (2 c t1 t2 now t4 k fn s v s')
  from cache_get_miss [OF 2(1,2,4,5,6), of t1 fn s] 2(7) show ?case
    by (auto simp: live_emplace wf_emplace)
next
  case (3 c t1 t2 now t4 k fn s e s')
  from cache_get_miss [OF 3(1,2,4,5,6), of t1 fn s] 3(7) show ?case by auto
next
  case (4 T c k t v)
  then show ?case by (auto simp: live_def entry_expired_def split: option.splits if_splits)
qed

section \<open>Claims\<close>

text \<open>
  (C22) The cache refines a memo table with a lifetime. A call of \<open>get\<close> with an entry stored
  within the lifetime returns its value and runs nothing; any other call runs the wrapped
  function once, returns or throws what it does, and records its value only when it returns.
  Removing expired entries never changes what a later call can use.
\<close>

theorem cache_get_refines_memo:
  assumes "cache_wf c" "cache_enabled c" "t1 \<le> t2" "t2 \<le> now" "now \<le> t4"
  shows "\<exists>c'. cache_get t1 t2 now t4 fn k c s = (case live now c k of
        Some (t, v) \<Rightarrow> (Inr v, c', s) | None \<Rightarrow> (fst (fn k s), c', snd (fn k s)))
    \<and> cache_wf c' \<and> cache_enabled c'
    \<and> (\<forall>T \<ge> t4. live T c' = (case (live now c k, fst (fn k s)) of
        (None, Inr v) \<Rightarrow> (live T c)(k := if now < T - uint (m_ttl_ms c) then None else Some (now, v))
      | _ \<Rightarrow> live T c))"
proof (cases "live now c k")
  case None
  obtain r s' where "fn k s = (r, s')" by (cases "fn k s")
  with None assms show ?thesis
    using agent_cache.miss [of c t1 t2 now t4 k fn s _ s']
      agent_cache.miss_throws [of c t1 t2 now t4 k fn s _ s'] by (cases r) auto
next
  case (Some e)
  with assms show ?thesis
    using agent_cache.hit [of c t1 t2 now k "fst e" "snd e" t4 fn s] by (auto split: prod.splits)
qed

theorem cache_get_refines_memo_witness:
  "\<exists>c'. cache_get 0 1 2 3 (\<lambda>k s. (Inr (length k + s), Suc s)) ''ab'' (new_cache ''D'' 5000 0) 7
     = (Inr 9, c', 8) \<and> cache_wf c'"
  using cache_get_refines_memo [of "new_cache ''D'' 5000 0" 0 1 2 3 "\<lambda>k s. (Inr (length k + s), Suc s)" "''ab''" 7]
  by (auto simp: new_cache_def cache_wf_def live_def)

text \<open>
  (C27) An answer is never older than the lifetime: whatever value an enabled cache returns was
  stored at most \<open>m_ttl_ms\<close> before the reading of the clock, or the wrapped function has just
  returned it; and a second call for the same key within the lifetime of a stored value answers
  the same without running its function.
\<close>

theorem cache_answer_fresh:
  fixes fn :: "string \<Rightarrow> ('s, 'a) ste"
  assumes "cache_wf c" "cache_enabled c" "t1 \<le> t2" "t2 \<le> now" "now \<le> t4"
    and "cache_get t1 t2 now t4 fn k c s = (Inr v, c', s')"
  shows "((\<exists>t. live now c k = Some (t, v) \<and> now - uint (m_ttl_ms c) \<le> t \<and> s' = s) \<or> fn k s = (Inr v, s'))
    \<and> (live now c k = None \<longrightarrow> (\<forall>now' (fn' :: string \<Rightarrow> ('s, 'a) ste) s''. t4 \<le> now' \<longrightarrow>
         now' \<le> now + uint (m_ttl_ms c) \<longrightarrow> (\<exists>c''. cache_get now' now' now' now' fn' k c' s'' = (Inr v, c'', s''))))"
proof (intro conjI impI allI)
  show fresh: "(\<exists>t. live now c k = Some (t, v) \<and> now - uint (m_ttl_ms c) \<le> t \<and> s' = s) \<or> fn k s = (Inr v, s')"
    using agent_cache.fresh_answer [OF assms] .
  fix now' s'' and fn' :: "string \<Rightarrow> ('s, 'a) ste"
  assume "live now c k = None" "t4 \<le> now'" "now' \<le> now + uint (m_ttl_ms c)"
  moreover from this fresh have "fn k s = (Inr v, s')" by simp
  ultimately show "\<exists>c''. cache_get now' now' now' now' fn' k c' s'' = (Inr v, c'', s'')"
    using agent_cache.second_get [of c t1 t2 now t4 k fn s v s' now' now' now' now' fn' s''] assms by auto
qed

theorem cache_answer_fresh_witness:
  "\<exists>c'. cache_get 0 1 2 3 (\<lambda>k. ret (length k)) ''ab'' (new_cache ''D'' 5000 0) () = (Inr 2, c', ())
     \<and> (\<exists>c''. cache_get 9 9 9 9 (\<lambda>k. ret 77) ''ab'' c' () = (Inr 2, c'', ()))"
proof -
  let ?c = "new_cache ''D'' 5000 0 :: nat cache"
  have wf: "cache_wf ?c" "cache_enabled ?c" "live 2 ?c ''ab'' = None"
    by (simp_all add: new_cache_def cache_wf_def live_def)
  obtain c' where c': "cache_get 0 1 2 3 (\<lambda>k. ret (length k)) ''ab'' ?c () = (Inr 2, c', ())"
    using agent_cache.miss [of ?c 0 1 2 3 "''ab''" "\<lambda>k. ret (length k)" "()" 2 "()"] wf by auto
  then have "\<forall>now' (fn' :: string \<Rightarrow> (unit, nat) ste) s''. 3 \<le> now' \<longrightarrow> now' \<le> 5002 \<longrightarrow>
      (\<exists>c''. cache_get now' now' now' now' fn' ''ab'' c' s'' = (Inr 2, c'', s''))"
    using cache_answer_fresh [OF wf(1,2), of 0 1 2 3 "\<lambda>k. ret (length k)" "''ab''" "()" 2 c' "()"] wf(3)
    by (simp add: new_cache_def)
  from this [rule_format, of 9 "\<lambda>k. ret 77" "()"] c' show ?thesis by auto
qed

end
