(* ===== verification/Oort_Model.thy ===== *)
theory Oort_Model
  imports Oort_Move Oort_Cache
begin

text \<open>
  The data the agent's components share: the API objects of \<^verbatim>\<open>spec/oort-sdk-api.yml\<close> and
  \<^verbatim>\<open>spec/oort-collector-api.yml\<close>, the result of a handler (\<^verbatim>\<open>Utils.h\<close>), the names of the two files of
  a transfer (\<^verbatim>\<open>Agent.h\<close>), the configuration (\<^verbatim>\<open>Config.h\<close>) and the state of the agent. JSON, the
  version strings of the build, \<open>uname\<close> and the password database are parameters (\<open>ext\<close>).
\<close>

section \<open>API objects\<close>

record TTLParams =
  ttl_urgent :: int
  ttl_bulk :: int
  ttl_surplus :: int

record SendOptions =
  so_ttl :: TTLParams
  so_reliable :: bool

record SendFileRequest =
  sr_destination :: string
  sr_filepath :: string
  sr_topic :: string
  sr_options :: SendOptions

record RetrieveFileRequest =
  rr_id :: string
  rr_save_path :: string

record TransferMeta =
  tm_meta_version :: string
  tm_topic :: string
  tm_destination :: string
  tm_node :: string
  tm_time :: int
  tm_file_info :: FileInfo
  tm_send_options :: SendOptions

record AvailableFilesResponse =
  af_files :: "FileInfo list"
  af_overflow :: bool

record SystemInfo =
  si_version :: string
  si_build :: string
  si_diskfree :: int
  si_workdir :: string
  si_uploads :: string
  si_agent_upgrades :: string
  si_dead :: string
  si_username :: string
  si_nodename :: string
  si_machine :: string

record InfoResponse =
  ir_sysinfo :: SystemInfo
  ir_topics :: "string list"
  ir_files :: "string list"
  ir_dead :: "string list"

datatype Code = Ok | Bad_Request

text \<open>\<open>ResponseCode\<close>: the result is \<open>None\<close> while it is default-constructed.\<close>

record 'a ResponseCode =
  code :: Code
  result :: "'a option"
  err :: string

definition good :: "'a \<Rightarrow> 'a ResponseCode" where
  "good r = \<lparr>code = Ok, result = Some r, err = []\<rparr>"

definition bad :: "string \<Rightarrow> 'a ResponseCode" where
  "bad msg = \<lparr>code = Bad_Request, result = None, err = msg\<rparr>"

lemma good_bad_simps [simp]:
  "code (good r) = Ok" "result (good r) = Some r" "code (bad m) = Bad_Request" "err (bad m) = m"
  "good r \<noteq> bad m" "bad m \<noteq> good r" "good r = good s \<longleftrightarrow> r = s" "bad m = bad n \<longleftrightarrow> m = n"
  by (auto simp: good_def bad_def)

section \<open>The two files of a transfer\<close>

definition META_EXT :: string where "META_EXT = ''.meta.oort''"

definition DATA_EXT :: string where "DATA_EXT = ''.data.oort''"

definition meta_file :: "string \<Rightarrow> exn + string" where
  "meta_file datafile = map_sum id (\<lambda>s. s @ META_EXT) (chop datafile DATA_EXT)"

definition data_file :: "string \<Rightarrow> exn + string" where
  "data_file metafile = map_sum id (\<lambda>s. s @ DATA_EXT) (chop metafile META_EXT)"

text \<open>The two names are twins: each function undoes the other on the names it is meant for.\<close>

lemma meta_file_data [simp]: "meta_file (s @ DATA_EXT) = Inr (s @ META_EXT)"
  by (simp add: meta_file_def)

lemma data_file_meta [simp]: "data_file (s @ META_EXT) = Inr (s @ DATA_EXT)"
  by (simp add: data_file_def)

lemma ext_not_suffix [simp]: "\<not> suffix META_EXT (s @ DATA_EXT)" "\<not> suffix DATA_EXT (s @ META_EXT)"
  by (auto simp: META_EXT_def DATA_EXT_def suffix_def append_eq_append_conv2 append_eq_Cons_conv Cons_eq_append_conv)

lemma ext_ne [simp]: "s @ META_EXT \<noteq> t @ DATA_EXT" "s @ DATA_EXT \<noteq> t @ META_EXT"
  using ext_not_suffix by (metis suffixI)+

lemma META_DATA_ne [simp]: "META_EXT \<noteq> DATA_EXT" "DATA_EXT \<noteq> META_EXT"
  by (simp_all add: META_EXT_def DATA_EXT_def)

section \<open>Configuration\<close>

text \<open>Which settings still have their default.\<close>

record config_defaults =
  ud_minfree :: bool
  ud_interval :: bool
  ud_maxage :: bool
  ud_port :: bool
  ud_loglevel :: bool
  ud_shim_node_id :: bool

record AgentConfig =
  initialized :: bool
  wantUsage :: bool
  cfg_workdir :: string
  minFreeMb :: int
  minFreePct :: int
  cleanupInterval :: int
  maxAge :: int
  port :: int
  can_interface :: string
  can_interface_enabled :: bool
  uavcan_node_id :: "32 word"
  shim_node_id :: "32 word"
  use_defaults :: config_defaults

section \<open>Parameters\<close>

text \<open>
  \<open>x_print_meta\<close> is \<open>to_jsonstr\<close> on a \<open>TransferMeta\<close>, \<open>x_parse_meta\<close> is \<open>from_jsonfile\<close> on the bytes of
  a stream; both rest on the JSON library and on generated code. \<open>x_getpwuid\<close> is \<open>getpwuid_r\<close> for a
  buffer of the given length: an error, no user, or the name.
\<close>

record ext = ext_base +
  x_print_meta :: "TransferMeta \<Rightarrow> bytes"
  x_parse_meta :: "bytes \<Rightarrow> exn + TransferMeta"
  x_api_version :: string
  x_release_version :: string
  x_build_version :: string
  x_uname :: "errno + (string \<times> string)"
  x_getpwuid :: "nat \<Rightarrow> errno + string option"

text \<open>What the agent relies on of the JSON code: when it fails, it throws one of its own exceptions.\<close>

definition json_errors :: "('x) ext_scheme \<Rightarrow> bool" where
  "json_errors X \<longleftrightarrow> (\<forall>bs e. x_parse_meta X bs = Inl e \<longrightarrow> is_json_exception e)"

section \<open>State\<close>

record agent =
  ag_world :: world
  workdir :: string
  max_query :: int
  m_allowedTopics :: "string list"
  min_free_disk :: int
  min_free_pct :: int
  transfer_dir :: string
  upload_dir :: string
  upgrade_dir :: string
  deadletter_dir :: string
  nodename :: string
  machine :: string
  dir_cache :: "string list cache"
  metafile_cache :: "string list cache"
  meta_cache :: "TransferMeta cache"

type_synonym ('z, 'a) act = "('z agent_scheme, 'a) ste"

text \<open>Running a computation on the file system inside the agent.\<close>

definition onworld :: "(world, 'a) ste \<Rightarrow> ('z, 'a) act" where
  "onworld m a = (case m (ag_world a) of (r, w) \<Rightarrow> (r, a\<lparr>ag_world := w\<rparr>))"

text \<open>The four readings of the clock that \<open>Cache::get\<close> may take.\<close>

definition clock4 :: "world \<Rightarrow> (int \<times> int \<times> int \<times> int) \<times> world" where
  "clock4 w = (let (t1, w1) = steady_now w; (t2, w2) = steady_now w1; (t3, w3) = steady_now w2;
                   (t4, w4) = steady_now w3 in ((t1, t2, t3, t4), w4))"

definition cached :: "('z agent_scheme \<Rightarrow> 'a cache) \<Rightarrow> ('a cache \<Rightarrow> 'z agent_scheme \<Rightarrow> 'z agent_scheme)
    \<Rightarrow> (string \<Rightarrow> ('z, 'a) act) \<Rightarrow> string \<Rightarrow> ('z, 'a) act" where
  "cached read_c write_c fn key a = (case clock4 (ag_world a) of ((t1, t2, t3, t4), w) \<Rightarrow>
     let b = a\<lparr>ag_world := w\<rparr> in
     (case cache_get t1 t2 t3 t4 fn key (read_c b) b of (r, c, b') \<Rightarrow> (r, write_c c b')))"

definition OSError :: "('x) ext_base_scheme \<Rightarrow> string \<Rightarrow> (world, string) ste" where
  "OSError X pre = gets (\<lambda>w. pre @ x_strerror X (w_errno w))"

lemma clock4_props:
  assumes "clock4 w = ((t1, t2, t3, t4), v)"
  shows "t1 \<le> t2" "t2 \<le> t3" "t3 \<le> t4" "w_files v = w_files w" "same_env w v" "w_errno v = w_errno w" "w_rand v = w_rand w"
    "t4 \<le> w_mono v" "w_mono w \<le> t1"
  using assms by (auto simp: clock4_def steady_now_def Let_def same_env_def)

end
