(* ===== verification/Oort_Sync.thy ===== *)
theory Oort_Sync
  imports Oort_Prelude
begin

text \<open>
  \<^verbatim>\<open>impl/Utils.cpp\<close> and \<^verbatim>\<open>impl/Utils.h\<close>: \<open>Semaphore\<close>, \<open>BinSemaphore\<close> and the guard \<open>sem_guard\<close>. A semaphore is
  its value; \<open>wait\<close>, which blocks, is partial. The contract that clients rely on is that of a lock.
\<close>

section \<open>Semaphores\<close>

definition SEM_VALUE_MAX :: nat where
  "SEM_VALUE_MAX = 2147483647"

text \<open>The results are those of the C functions: 0, or -1 with the value of \<open>errno\<close>.\<close>

datatype sem_result = Done | Failed errno

definition new_Semaphore :: "int \<Rightarrow> exn + nat" where
  "new_Semaphore n = (if n mod 2 ^ 32 \<le> int SEM_VALUE_MAX then Inr (nat (n mod 2 ^ 32))
     else Inl (system_error EINVAL ''initializing semaphore''))"

definition BinSemaphore :: "exn + nat" where
  "BinSemaphore = new_Semaphore 1"

definition sem_wait :: "nat \<Rightarrow> (sem_result \<times> nat) option" where
  "sem_wait v = (if 0 < v then Some (Done, v - 1) else None)"

definition sem_trywait :: "nat \<Rightarrow> sem_result \<times> nat" where
  "sem_trywait v = (if 0 < v then (Done, v - 1) else (Failed EAGAIN, v))"

text \<open>
  A wait with a deadline takes the semaphore if it can, now or when it has been posted; only one that is
  blocked ends with an error \<open>e\<close>, that the deadline has passed or that a signal has come.
\<close>

definition sem_timedwait :: "errno \<Rightarrow> nat \<Rightarrow> sem_result \<times> nat" where
  "sem_timedwait e v = (if 0 < v then (Done, v - 1) else (Failed e, v))"

definition sem_post :: "nat \<Rightarrow> sem_result \<times> nat" where
  "sem_post v = (if v < SEM_VALUE_MAX then (Done, v + 1) else (Failed EOVERFLOW, v))"

section \<open>Guards\<close>

text \<open>A guard is whether it owns the semaphore; the semaphore is passed beside it.\<close>

definition guard_wait :: "bool \<times> nat \<Rightarrow> (bool \<times> bool \<times> nat) option" where
  "guard_wait gs = (case gs of (m_owned, v) \<Rightarrow> (case sem_wait v of
      None \<Rightarrow> None | Some (r, v') \<Rightarrow> let o' = (r = Done \<or> m_owned) in Some (o', o', v')))"

definition guard_trywait :: "bool \<times> nat \<Rightarrow> bool \<times> bool \<times> nat" where
  "guard_trywait gs = (case gs of (m_owned, v) \<Rightarrow> (case sem_trywait v of
      (r, v') \<Rightarrow> let o' = (r = Done \<or> m_owned) in (o', o', v')))"

definition guard_destroy :: "bool \<times> nat \<Rightarrow> nat" where
  "guard_destroy gs = (case gs of (m_owned, v) \<Rightarrow> if m_owned then snd (sem_post v) else v)"

section \<open>The contract of a lock\<close>

text \<open>Who holds the lock, and that it is held by one at most.\<close>

definition held :: "('l \<Rightarrow> bool) \<Rightarrow> 'l \<Rightarrow> 'a set \<Rightarrow> bool" where
  "held free l H \<longleftrightarrow> (if free l then H = {} else \<exists>t. H = {t})"

locale try_lock =
  fixes free :: "'l \<Rightarrow> bool" and enter :: "'l \<Rightarrow> bool \<times> 'l" and leave :: "'l \<Rightarrow> 'l" and valid :: "'l \<Rightarrow> bool"
  assumes enter_free: "valid l \<Longrightarrow> free l \<Longrightarrow> enter l = (True, l') \<Longrightarrow> \<not> free l'"
    and enter_granted: "valid l \<Longrightarrow> fst (enter l) = free l"
    and enter_busy: "valid l \<Longrightarrow> \<not> free l \<Longrightarrow> snd (enter l) = l"
    and leave_free: "valid l \<Longrightarrow> \<not> free l \<Longrightarrow> free (leave l)"
    and valid_enter: "valid l \<Longrightarrow> valid (snd (enter l))"
    and valid_leave: "valid l \<Longrightarrow> \<not> free l \<Longrightarrow> valid (leave l)"
begin

lemma held_enter:
  assumes "valid l" and "held free l H" and "enter l = (True, l')"
  shows "H = {} \<and> held free l' {t} \<and> valid l'"
proof -
  have f: "free l" using enter_granted [OF assms(1)] assms(3) by simp
  then have "\<not> free l'" using enter_free assms(1,3) by blast
  moreover have "valid l'" using valid_enter [OF assms(1)] assms(3) by simp
  ultimately show ?thesis using assms(2) f by (simp add: held_def)
qed

lemma held_refused:
  assumes "valid l" and "held free l H" and "enter l = (False, l')"
  shows "l' = l \<and> (\<exists>t. H = {t})"
proof -
  have "\<not> free l" using enter_granted [OF assms(1)] assms(3) by simp
  then show ?thesis using enter_busy [OF assms(1)] assms(2,3) by (simp add: held_def)
qed

lemma held_leave:
  assumes "valid l" and "held free l H" and "t \<in> H"
  shows "H = {t} \<and> held free (leave l) {} \<and> valid (leave l)"
proof -
  have "\<not> free l" "H = {t}" using assms(2,3) by (auto simp: held_def split: if_splits)
  then show ?thesis using leave_free valid_leave assms(1) by (simp add: held_def)
qed

end

text \<open>A guard on a binary semaphore is such a lock.\<close>

interpretation latch: try_lock "\<lambda>v. 0 < v" "\<lambda>v. let (got, owned, v') = guard_trywait (False, v) in (got, v')"
    "\<lambda>v. guard_destroy (True, v)" "\<lambda>v. v \<le> (1 :: nat)"
  by unfold_locales
    (auto simp: guard_trywait_def guard_destroy_def sem_trywait_def sem_post_def SEM_VALUE_MAX_def Let_def split: if_splits)

end
