(* ===== verification/Oort_Cleaner.thy ===== *)
theory Oort_Cleaner
  imports Oort_Model Oort_Sync
begin

text \<open>
  \<^verbatim>\<open>impl/Cleaner.cpp\<close>: removing old files, and the worker thread that does it. The thread, its
  semaphore and the thread that starts and stops it are a step relation on a small state.
\<close>

record cleaner =
  m_cleanupDirs :: "path list"
  m_cleanupInterval :: int
  m_maxAge :: int

definition new_cleaner :: cleaner where
  "new_cleaner = \<lparr>m_cleanupDirs = [], m_cleanupInterval = 3600, m_maxAge = 86400\<rparr>"

definition setCleanupDirs :: "path list \<Rightarrow> cleaner \<Rightarrow> cleaner" where
  "setCleanupDirs cleanupDirs c = c\<lparr>m_cleanupDirs := cleanupDirs\<rparr>"

definition setCleanupInterval :: "int \<Rightarrow> cleaner \<Rightarrow> cleaner" where
  "setCleanupInterval interval c = c\<lparr>m_cleanupInterval := interval\<rparr>"

definition setMaxAge :: "int \<Rightarrow> cleaner \<Rightarrow> cleaner" where
  "setMaxAge age c = c\<lparr>m_maxAge := age\<rparr>"

fun remove_meta :: "path list \<Rightarrow> (world, unit) ste" where
  "remove_meta [] = ret ()"
| "remove_meta (f # fs) =
     (if ends_with f META_EXT then seqE (ignore (sys_unlink f)) (\<lambda>_. remove_meta fs) else remove_meta fs)"

fun remove_orphans :: "path list \<Rightarrow> (world, unit) ste" where
  "remove_orphans [] = ret ()"
| "remove_orphans (f # fs) =
     (if ends_with f DATA_EXT then
        seqE (lift (meta_file f)) (\<lambda>meta.
        seqE (attempt (sys_access meta R_OK)) (\<lambda>r.
        seqE (case r of Inl _ \<Rightarrow> ignore (sys_unlink f) | Inr _ \<Rightarrow> ret ()) (\<lambda>_. remove_orphans fs)))
      else remove_orphans fs)"

definition cleanOldFiles :: "cleaner \<Rightarrow> path \<Rightarrow> (world, unit) ste" where
  "cleanOldFiles c dir = seqE (oldFiles dir (m_maxAge c)) (\<lambda>flist.
     seqE (remove_meta flist) (\<lambda>_. remove_orphans flist))"

fun clean_dirs :: "cleaner \<Rightarrow> path list \<Rightarrow> (world, unit) ste" where
  "clean_dirs c [] = ret ()"
| "clean_dirs c (d # ds) = seqE (cleanOldFiles c d) (\<lambda>_. clean_dirs c ds)"

definition doCleanup :: "cleaner \<Rightarrow> (world, unit) ste" where
  "doCleanup c = clean_dirs c (m_cleanupDirs c)"

section \<open>The worker thread\<close>

text \<open>
  The two threads and what they share: the flag \<open>workerRunning\<close> and the semaphore \<open>runningSem\<close>
  (\<^verbatim>\<open>Oort_Sync\<close>), which starts at one. The program counters name the statement that comes next.
\<close>

datatype worker_pc =
    W_none          \<comment> \<open>not started\<close>
  | W_test          \<comment> \<open>\<open>while (workerRunning)\<close>\<close>
  | W_wait          \<comment> \<open>\<open>runningSem.timedwait(ts)\<close>\<close>
  | W_woken bool    \<comment> \<open>\<open>if (workerRunning && status == -1 && errno == ETIMEDOUT)\<close>\<close>
  | W_clean         \<comment> \<open>\<open>doCleanup()\<close>\<close>
  | W_done

datatype owner_pc =
    O_flag          \<comment> \<open>\<open>workerRunning = true\<close>\<close>
  | O_wait          \<comment> \<open>\<open>runningSem.wait()\<close>\<close>
  | O_spawn         \<comment> \<open>\<open>thread worker(...)\<close>\<close>
  | O_run           \<comment> \<open>\<open>scheduleCleanup\<close> has returned\<close>
  | O_post          \<comment> \<open>\<open>workerRunning = false\<close> done, \<open>runningSem.post()\<close> next\<close>
  | O_join
  | O_end

record threads =
  workerRunning :: bool
  runningSem :: nat
  worker :: worker_pc
  owner :: owner_pc
  cleanups :: nat

definition threads_init :: threads where
  "threads_init = \<lparr>workerRunning = False, runningSem = 1, worker = W_none, owner = O_flag, cleanups = 0\<rparr>"

text \<open>One iteration of \<open>cleanupTask\<close>, statement by statement.\<close>

inductive worker_step :: "threads \<Rightarrow> threads \<Rightarrow> bool" where
  enter: "worker s = W_test \<Longrightarrow> workerRunning s \<Longrightarrow> worker_step s (s\<lparr>worker := W_wait\<rparr>)"
| leave: "worker s = W_test \<Longrightarrow> \<not> workerRunning s \<Longrightarrow> worker_step s (s\<lparr>worker := W_done\<rparr>)"
| timedwait: "worker s = W_wait \<Longrightarrow> e \<in> {ETIMEDOUT, EINTR} \<Longrightarrow> sem_timedwait e (runningSem s) = (status, v) \<Longrightarrow>
    worker_step s (s\<lparr>runningSem := v, worker := W_woken (status = Failed ETIMEDOUT)\<rparr>)"
| due: "worker s = W_woken True \<Longrightarrow> workerRunning s \<Longrightarrow> worker_step s (s\<lparr>worker := W_clean\<rparr>)"
| not_due: "worker s = W_woken b \<Longrightarrow> \<not> (b \<and> workerRunning s) \<Longrightarrow> worker_step s (s\<lparr>worker := W_test\<rparr>)"
| cleaned: "worker s = W_clean \<Longrightarrow> worker_step s (s\<lparr>worker := W_test, cleanups := Suc (cleanups s)\<rparr>)"

text \<open>\<open>scheduleCleanup\<close> and, later, \<open>stopWorker\<close>.\<close>

inductive owner_step :: "threads \<Rightarrow> threads \<Rightarrow> bool" where
  set_flag: "owner s = O_flag \<Longrightarrow> owner_step s (s\<lparr>workerRunning := True, owner := O_wait\<rparr>)"
| take: "owner s = O_wait \<Longrightarrow> sem_wait (runningSem s) = Some (status, v) \<Longrightarrow> owner_step s (s\<lparr>runningSem := v, owner := O_spawn\<rparr>)"
| spawn: "owner s = O_spawn \<Longrightarrow> owner_step s (s\<lparr>worker := W_test, owner := O_run\<rparr>)"
| clear_flag: "owner s = O_run \<Longrightarrow> owner_step s (s\<lparr>workerRunning := False, owner := O_post\<rparr>)"
| post: "owner s = O_post \<Longrightarrow> sem_post (runningSem s) = (status, v) \<Longrightarrow> owner_step s (s\<lparr>runningSem := v, owner := O_join\<rparr>)"
| join: "owner s = O_join \<Longrightarrow> worker s = W_done \<Longrightarrow> owner_step s (s\<lparr>owner := O_end\<rparr>)"

definition threads_step :: "threads \<Rightarrow> threads \<Rightarrow> bool" where
  "threads_step s t \<longleftrightarrow> worker_step s t \<or> owner_step s t"

inductive_cases worker_stepE: "worker_step s t"
inductive_cases owner_stepE: "owner_step s t"

lemmas threads_step_cases = worker_stepE owner_stepE

lemmas sem_run = sem_timedwait_def sem_wait_def sem_post_def SEM_VALUE_MAX_def

section \<open>What a cleaning pass removes\<close>

text \<open>A plain file that \<open>unlink\<close> would remove.\<close>

definition removable :: "world \<Rightarrow> path \<Rightarrow> bool" where
  "removable w p \<longleftrightarrow> w_fault w (Sc_unlink p) = None \<and> (case file_at w p of None \<Rightarrow> False | Some i \<Rightarrow> i_kind i \<noteq> Dir)"

definition stale_meta :: "world \<Rightarrow> path list \<Rightarrow> path \<Rightarrow> bool" where
  "stale_meta w old p \<longleftrightarrow> p \<in> set old \<and> ends_with p META_EXT \<and> removable w p"

text \<open>A data file whose metadata is missing, unreadable, or removed in the same pass.\<close>

definition orphan :: "world \<Rightarrow> path list \<Rightarrow> path \<Rightarrow> bool" where
  "orphan w old p \<longleftrightarrow> p \<in> set old \<and> ends_with p DATA_EXT \<and> removable w p
     \<and> (case meta_file p of Inl _ \<Rightarrow> False | Inr m \<Rightarrow>
          w_fault w (Sc_access m R_OK) \<noteq> None \<or> file_at w m = None \<or> stale_meta w old m)"

lemma meta_file_ends: "ends_with f DATA_EXT \<Longrightarrow> \<exists>s. f = s @ DATA_EXT \<and> meta_file f = Inr (s @ META_EXT)"
  by (auto simp: ends_with_iff suffix_def)

lemma sys_unlink_removable:
  "\<exists>v. ignore (sys_unlink f) w = (Inr (), v) \<and> same_env w v
     \<and> (\<forall>p. file_at v p = (if p = f \<and> removable w f then None else file_at w p))"
  by (auto simp: ignore_def sys_unlink_def guard_fault_def fail_def removable_def lookup_simps same_env_def
      split: option.splits)

lemma removable_cong: "same_env w v \<Longrightarrow> file_at v p = file_at w p \<Longrightarrow> removable v p = removable w p"
  by (simp add: removable_def same_env_def)

lemma remove_meta_result:
  "\<exists>v. remove_meta fs w = (Inr (), v) \<and> same_env w v
     \<and> (\<forall>p. file_at v p = (if stale_meta w fs p then None else file_at w p))"
proof (induction fs arbitrary: w)
  case (Cons f fs)
  show ?case
  proof (cases "ends_with f META_EXT")
    case False
    with Cons.IH [of w] show ?thesis by (auto simp: stale_meta_def)
  next
    case True
    obtain u where u: "ignore (sys_unlink f) w = (Inr (), u)" "same_env w u"
      "\<And>p. file_at u p = (if p = f \<and> removable w f then None else file_at w p)"
      using sys_unlink_removable [of f w] by blast
    obtain v where v: "remove_meta fs u = (Inr (), v)" "same_env u v"
      "\<And>p. file_at v p = (if stale_meta u fs p then None else file_at u p)" using Cons.IH [of u] by blast
    have "file_at v p = (if stale_meta w (f # fs) p then None else file_at w p)" for p
      using v(3) [of p] u(3) [of p] removable_cong [OF u(2), of p] True by (auto simp: stale_meta_def)
    with True u v show ?thesis by (auto simp: seqE_def intro: same_env_trans)
  qed
qed (simp add: stale_meta_def)

text \<open>In the second pass only data files go, so the metadata it looks at does not change.\<close>

definition unpaired :: "world \<Rightarrow> path list \<Rightarrow> path \<Rightarrow> bool" where
  "unpaired w fs p \<longleftrightarrow> p \<in> set fs \<and> ends_with p DATA_EXT \<and> removable w p
     \<and> (case meta_file p of Inl _ \<Rightarrow> False | Inr m \<Rightarrow> w_fault w (Sc_access m R_OK) \<noteq> None \<or> file_at w m = None)"

lemma remove_orphans_result:
  "\<exists>v. remove_orphans fs w = (Inr (), v) \<and> same_env w v
     \<and> (\<forall>p. file_at v p = (if unpaired w fs p then None else file_at w p))"
proof (induction fs arbitrary: w)
  case (Cons f fs)
  show ?case
  proof (cases "ends_with f DATA_EXT")
    case False
    with Cons.IH [of w] show ?thesis by (auto simp: unpaired_def)
  next
    case True
    then obtain s where s: "f = s @ DATA_EXT" "meta_file f = Inr (s @ META_EXT)" using meta_file_ends by blast
    let ?gone = "w_fault w (Sc_access (s @ META_EXT) R_OK) \<noteq> None \<or> file_at w (s @ META_EXT) = None"
    obtain r w1 where ac: "sys_access (s @ META_EXT) R_OK w = (r, w1)" by (cases "sys_access (s @ META_EXT) R_OK w")
    have w1: "w_files w1 = w_files w" "same_env w w1" and r: "(\<exists>e. r = Inl e) \<longleftrightarrow> ?gone"
      using ac by (auto simp: sys_access_def guard_fault_def fail_def same_env_def split: option.splits)
    obtain u where u: "(case r of Inl _ \<Rightarrow> ignore (sys_unlink f) | Inr _ \<Rightarrow> ret ()) w1 = (Inr (), u)" "same_env w u"
      "\<And>p. file_at u p = (if p = f \<and> removable w f \<and> ?gone then None else file_at w p)"
    proof (cases r)
      case (Inl e)
      with r have ?gone by simp
      moreover obtain u where "ignore (sys_unlink f) w1 = (Inr (), u)" "same_env w1 u"
        "\<forall>p. file_at u p = (if p = f \<and> removable w1 f then None else file_at w1 p)"
        using sys_unlink_removable [of f w1] by blast
      moreover have "removable w1 f = removable w f" using removable_cong [OF w1(2)] w1(1) by simp
      ultimately show ?thesis using Inl w1 same_env_trans by (intro that [of u]) auto
    next
      case (Inr x)
      with r have "\<not> ?gone" by auto
      with Inr w1 show ?thesis by (intro that [of w1]) auto
    qed
    obtain v where v: "remove_orphans fs u = (Inr (), v)" "same_env u v"
      "\<And>p. file_at v p = (if unpaired u fs p then None else file_at u p)" using Cons.IH [of u] by blast
    have "file_at v p = (if unpaired w (f # fs) p then None else file_at w p)" for p
    proof (cases "ends_with p DATA_EXT")
      case True
      then obtain t where t: "p = t @ DATA_EXT" "meta_file p = Inr (t @ META_EXT)" using meta_file_ends by blast
      have "file_at u (t @ META_EXT) = file_at w (t @ META_EXT)" using u(3) s(1) by simp
      then have unp: "unpaired u fs p \<longleftrightarrow> p \<in> set fs \<and> removable u p
          \<and> (w_fault w (Sc_access (t @ META_EXT) R_OK) \<noteq> None \<or> file_at w (t @ META_EXT) = None)"
        using t True u(2) by (simp add: unpaired_def same_env_def)
      have unw: "unpaired w (f # fs) p \<longleftrightarrow> (p = f \<or> p \<in> set fs) \<and> removable w p
          \<and> (w_fault w (Sc_access (t @ META_EXT) R_OK) \<noteq> None \<or> file_at w (t @ META_EXT) = None)"
        using t True by (simp add: unpaired_def)
      show ?thesis
      proof (cases "p = f")
        case True
        then have "t = s" using t(1) s(1) by simp
        show ?thesis
        proof (cases "removable w f \<and> ?gone")
          case yes: True
          then have "file_at u p = None" using u(3) [of p] True by simp
          with yes True \<open>t = s\<close> v(3) [of p] show ?thesis unfolding unw by simp
        next
          case no: False
          then have "file_at u p = file_at w p" using u(3) [of p] by auto
          with no True \<open>t = s\<close> v(3) [of p] removable_cong [OF u(2) this] show ?thesis
            unfolding unw unp by auto
        qed
      next
        case False
        then have "file_at u p = file_at w p" using u(3) [of p] by simp
        with False v(3) [of p] removable_cong [OF u(2) this] show ?thesis unfolding unp unw by auto
      qed
    next
      case False
      then show ?thesis using v(3) [of p] u(3) [of p] s True by (auto simp: unpaired_def)
    qed
    moreover have "remove_orphans (f # fs) w = (Inr (), v)"
      using True s(2) ac u(1) v(1) by (simp add: seqE_def attempt_def)
    ultimately show ?thesis using u(2) v(2) by (auto intro: same_env_trans)
  qed
qed (simp add: unpaired_def)


text \<open>
  (C11) A cleaning pass removes exactly what it should: from the old files of the directory it
  removes every metadata file, and every data file whose metadata is missing, unreadable or
  removed in the same pass; a data file whose metadata stays is kept, so the pass never takes the
  data of a transfer that is still announced. Nothing else changes, and the pass returns whatever
  \<open>unlink\<close> and \<open>access\<close> calls fail.
\<close>

theorem cleanOldFiles_exact:
  assumes "oldFiles d (m_maxAge c) w = (Inr old, u)"
  shows "\<exists>v. cleanOldFiles c d w = (Inr (), v) \<and> same_env w v
    \<and> (\<forall>p. file_at v p = (if stale_meta w old p \<or> orphan w old p then None else file_at w p))"
proof -
  have uw: "same_env w u" "w_files u = w_files w"
    using stableD [OF stable_oldFiles assms] oldFiles_keeps [of d "m_maxAge c" w] assms
    by (auto simp: only_files_def)
  obtain u1 where u1: "remove_meta old u = (Inr (), u1)" "same_env u u1"
    "\<And>p. file_at u1 p = (if stale_meta u old p then None else file_at u p)"
    using remove_meta_result [of old u] by blast
  obtain v where v: "remove_orphans old u1 = (Inr (), v)" "same_env u1 v"
    "\<And>p. file_at v p = (if unpaired u1 old p then None else file_at u1 p)"
    using remove_orphans_result [of old u1] by blast
  have sm: "stale_meta u old = stale_meta w old"
    using uw by (simp add: fun_eq_iff stale_meta_def removable_def same_env_def)
  have env: "same_env w u1" using uw(1) u1(2) by (rule same_env_trans)
  have "unpaired u1 old p = orphan w old p" for p
  proof (cases "ends_with p DATA_EXT")
    case True
    then obtain s where s: "p = s @ DATA_EXT" "meta_file p = Inr (s @ META_EXT)" using meta_file_ends by blast
    then have "\<not> stale_meta w old p" by (simp add: stale_meta_def ends_with_iff)
    then have "file_at u1 p = file_at w p" using u1(3) [of p] uw(2) sm by simp
    then have "removable u1 p = removable w p" by (rule removable_cong [OF env])
    moreover have "file_at u1 (s @ META_EXT) = (if stale_meta w old (s @ META_EXT) then None else file_at w (s @ META_EXT))"
      using u1(3) [of "s @ META_EXT"] uw(2) sm by simp
    ultimately show ?thesis using s env by (auto simp: unpaired_def orphan_def same_env_def)
  qed (simp add: unpaired_def orphan_def)
  then have "file_at v p = (if stale_meta w old p \<or> orphan w old p then None else file_at w p)" for p
    using v(3) [of p] u1(3) [of p] uw(2) sm by simp
  moreover have "cleanOldFiles c d w = (Inr (), v)"
    using assms u1(1) v(1) by (simp add: cleanOldFiles_def seqE_def)
  ultimately show ?thesis using same_env_trans [OF env v(2)] by blast
qed


section \<open>The life of the worker\<close>

definition threads_inv :: "threads \<Rightarrow> bool" where
  "threads_inv s \<longleftrightarrow>
     (workerRunning s \<longleftrightarrow> owner s \<in> {O_wait, O_spawn, O_run})
   \<and> runningSem s \<le> 1
   \<and> (owner s \<in> {O_flag, O_wait} \<longrightarrow> runningSem s = 1)
   \<and> (owner s \<in> {O_spawn, O_run, O_post} \<longrightarrow> runningSem s = 0)
   \<and> (worker s = W_none \<longleftrightarrow> owner s \<in> {O_flag, O_wait, O_spawn})
   \<and> (worker s = W_done \<longrightarrow> owner s \<in> {O_post, O_join, O_end})
   \<and> (owner s = O_join \<and> worker s = W_wait \<longrightarrow> runningSem s = 1)
   \<and> (owner s = O_end \<longrightarrow> worker s = W_done)"

lemma threads_inv_init: "threads_inv threads_init"
  by (simp add: threads_inv_def threads_init_def)

lemma worker_step_inv: "worker_step s t \<Longrightarrow> threads_inv s \<Longrightarrow> threads_inv t"
  by (erule worker_stepE; cases "owner s") (auto simp: threads_inv_def sem_run split: if_splits)

lemma owner_step_inv: "owner_step s t \<Longrightarrow> threads_inv s \<Longrightarrow> threads_inv t"
  by (erule owner_stepE; cases "worker s") (auto simp: threads_inv_def sem_run split: if_splits)

lemma threads_reach_inv: "threads_step\<^sup>*\<^sup>* threads_init s \<Longrightarrow> threads_inv s"
proof (induction rule: rtranclp_induct)
  case base
  show ?case by (rule threads_inv_init)
next
  case (step s t)
  then show ?case using worker_step_inv owner_step_inv by (auto simp: threads_step_def)
qed

text \<open>How many steps the worker still takes once the flag is down.\<close>

definition stop_steps :: "threads \<Rightarrow> nat" where
  "stop_steps s = (case worker s of W_none \<Rightarrow> 0 | W_done \<Rightarrow> 0 | W_test \<Rightarrow> 1 | W_woken _ \<Rightarrow> 2 | W_clean \<Rightarrow> 2 | W_wait \<Rightarrow> 3)
     + (if owner s = O_join then 1 else 0)"

text \<open>
  (C13) Stopping the cleaner cannot hang. In every reachable state in which \<open>stopWorker\<close> waits for
  the thread, some step is possible, every possible step brings the end strictly closer, and at
  most four steps are left; at the end the worker has finished. A worker that waits is not blocked: the
  semaphore has been posted for it, and it does not sit out the interval.
\<close>

theorem stopWorker_returns:
  assumes "threads_step\<^sup>*\<^sup>* threads_init s" and "owner s = O_join"
  shows "(\<exists>t. threads_step s t) \<and> stop_steps s \<le> 4 \<and> (worker s = W_wait \<longrightarrow> 0 < runningSem s)
    \<and> (\<forall>t. threads_step s t \<longrightarrow> stop_steps t < stop_steps s \<and> (owner t = O_end \<longrightarrow> worker t = W_done))"
proof (intro conjI allI impI)
  have inv: "threads_inv s" using assms(1) by (rule threads_reach_inv)
  show "\<exists>t. threads_step s t"
  proof (cases "worker s")
    case W_none
    with inv assms(2) show ?thesis by (auto simp: threads_inv_def)
  next
    case W_test
    with inv assms(2) show ?thesis by (auto simp: threads_inv_def threads_step_def intro: worker_step.leave)
  next
    case W_wait
    then show ?thesis
      unfolding threads_step_def by (metis insertI1 prod.collapse worker_step.timedwait)
  next
    case (W_woken b)
    with inv assms(2) show ?thesis by (auto simp: threads_inv_def threads_step_def intro: worker_step.not_due)
  next
    case W_clean
    then show ?thesis by (auto simp: threads_step_def intro: worker_step.cleaned)
  next
    case W_done
    with assms(2) show ?thesis by (auto simp: threads_step_def intro: owner_step.join)
  qed
  show "0 < runningSem s" if "worker s = W_wait" using inv assms(2) that by (simp add: threads_inv_def)
  show "stop_steps s \<le> 4" by (auto simp: stop_steps_def split: worker_pc.splits)
  fix t
  assume st: "threads_step s t"
  then show "stop_steps t < stop_steps s"
    using inv assms(2) unfolding threads_step_def
    by (elim disjE threads_step_cases) (auto simp: stop_steps_def threads_inv_def)
  have "threads_inv t" using st inv worker_step_inv owner_step_inv by (auto simp: threads_step_def)
  then show "owner t = O_end \<Longrightarrow> worker t = W_done" by (simp add: threads_inv_def)
qed

text \<open>
  (C28) No cleaning run starts after \<open>stopWorker\<close> has lowered the flag, at most the one already
  begun is completed, and while the agent runs the worker never takes the semaphore, so that
  what wakes it up is the end of the interval (or a signal, which starts no cleaning).
\<close>

theorem no_cleanup_after_stop:
  assumes "threads_step\<^sup>*\<^sup>* threads_init s" and "threads_step s t"
  shows "(worker t = W_clean \<and> worker s \<noteq> W_clean \<longrightarrow> owner s = O_run \<and> worker s = W_woken True)
    \<and> (owner s = O_run \<longrightarrow> runningSem t = 0)
    \<and> (cleanups t \<noteq> cleanups s \<longrightarrow> cleanups t = Suc (cleanups s) \<and> worker s = W_clean)
    \<and> (owner s = O_end \<longrightarrow> t = s)"
proof -
  have inv: "threads_inv s" using assms(1) by (rule threads_reach_inv)
  from assms(2) show ?thesis
    unfolding threads_step_def
    by (elim disjE threads_step_cases) (use inv in \<open>auto simp: threads_inv_def sem_run\<close>)
qed


section \<open>Witnesses\<close>

text \<open>
  Two transfers older than the limit; the metadata of the second has been touched since.
\<close>

definition old_world :: world where
  "old_world = demo_world [(''/'', demo_dir), (''/t'', demo_dir),
     (''/t/a.meta.oort'', demo_file [1]), (''/t/a.data.oort'', demo_file [2]),
     (''/t/b.meta.oort'', (demo_file [3])\<lparr>i_mtime := 90\<rparr>), (''/t/b.data.oort'', demo_file [4])] (\<lambda>_. None)"

definition fifty :: cleaner where
  "fifty = new_cleaner\<lparr>m_maxAge := 50\<rparr>"

theorem cleanOldFiles_exact_witness:
  "\<exists>v. cleanOldFiles fifty ''/t'' old_world = (Inr (), v) \<and> file_at v ''/t/a.meta.oort'' = None
     \<and> file_at v ''/t/a.data.oort'' = None \<and> file_at v ''/t/b.data.oort'' = Some (demo_file [4])"
proof -
  let ?old = "[''/t/a.meta.oort'', ''/t/a.data.oort'', ''/t/b.data.oort'']"
  have "fst (oldFiles ''/t'' (m_maxAge fifty) old_world) = Inr ?old" by code_simp
  then obtain v where "cleanOldFiles fifty ''/t'' old_world = (Inr (), v)"
    and v: "\<And>p. file_at v p = (if stale_meta old_world ?old p \<or> orphan old_world ?old p then None else file_at old_world p)"
    using cleanOldFiles_exact [of "''/t''" fifty old_world ?old "snd (oldFiles ''/t'' (m_maxAge fifty) old_world)"]
    by (auto simp: prod_eq_iff)
  moreover have "stale_meta old_world ?old ''/t/a.meta.oort''" "orphan old_world ?old ''/t/a.data.oort''"
    "\<not> stale_meta old_world ?old ''/t/b.data.oort''" "\<not> orphan old_world ?old ''/t/b.data.oort''"
    "file_at old_world ''/t/b.data.oort'' = Some (demo_file [4])" by code_simp+
  ultimately show ?thesis by auto
qed

text \<open>The worker has been started, waits, and the owner comes to the join.\<close>

definition joining :: threads where
  "joining = \<lparr>workerRunning = False, runningSem = 1, worker = W_wait, owner = O_join, cleanups = 0\<rparr>"

definition waiting :: threads where
  "waiting = \<lparr>workerRunning = True, runningSem = 0, worker = W_wait, owner = O_run, cleanups = 0\<rparr>"

lemma reach_waiting: "threads_step\<^sup>*\<^sup>* threads_init waiting"
proof -
  let ?a = "threads_init\<lparr>workerRunning := True, owner := O_wait\<rparr>"
  let ?b = "?a\<lparr>runningSem := 0, owner := O_spawn\<rparr>"
  let ?c = "?b\<lparr>worker := W_test, owner := O_run\<rparr>"
  have "threads_step threads_init ?a" by (simp add: threads_step_def threads_init_def owner_step.simps sem_run)
  moreover have "threads_step ?a ?b" by (simp add: threads_step_def threads_init_def owner_step.simps sem_run)
  moreover have "threads_step ?b ?c" by (simp add: threads_step_def threads_init_def owner_step.simps sem_run)
  moreover have "threads_step ?c waiting"
    by (simp add: threads_step_def threads_init_def waiting_def worker_step.simps sem_run)
  ultimately show ?thesis by (meson converse_rtranclp_into_rtranclp rtranclp.rtrancl_refl)
qed

lemma reach_joining: "threads_step\<^sup>*\<^sup>* threads_init joining"
proof -
  let ?a = "waiting\<lparr>workerRunning := False, owner := O_post\<rparr>"
  have "threads_step waiting ?a" by (simp add: threads_step_def waiting_def owner_step.simps sem_run)
  moreover have "threads_step ?a joining" by (simp add: threads_step_def waiting_def joining_def owner_step.simps sem_run)
  ultimately show ?thesis using reach_waiting by (meson rtranclp.rtrancl_into_rtrancl)
qed

theorem stopWorker_returns_witness: "(\<exists>t. threads_step joining t) \<and> stop_steps joining \<le> 4 \<and> 0 < runningSem joining"
  using stopWorker_returns [OF reach_joining] by (simp add: joining_def)

theorem no_cleanup_after_stop_witness:
  "threads_step waiting (waiting\<lparr>worker := W_woken True\<rparr>) \<and> runningSem (waiting\<lparr>worker := W_woken True\<rparr>) = 0"
proof -
  have "threads_step waiting (waiting\<lparr>worker := W_woken True\<rparr>)"
    by (simp add: threads_step_def waiting_def worker_step.simps sem_run)
  with no_cleanup_after_stop [OF reach_waiting this] show ?thesis by (simp add: waiting_def)
qed

end
