(* ===== verification/Oort_Agent.thy ===== *)
theory Oort_Agent
  imports Oort_Cleaner
begin

text \<open>
  \<^verbatim>\<open>impl/Agent.cpp\<close>: construction, the dead-letter box, metadata, and the handlers of the SDK and the
  collector. A handler is a computation on the agent; an exception that leaves it is the \<open>Inl\<close> of
  its outcome. Calls of the log are left out: they change nothing the handlers look at.
\<close>

section \<open>Construction\<close>

fun create_dirs :: "path list \<Rightarrow> (world, unit) ste" where
  "create_dirs [] = ret ()"
| "create_dirs (dir # dirs) = seqE (attempt (sys_mkdir dir 0x41C0)) (\<lambda>r. case r of
      Inl e \<Rightarrow> if e \<noteq> EEXIST then throw (runtime_error (''Error initializing directory '' @ dir))
               else create_dirs dirs
    | Inr _ \<Rightarrow> create_dirs dirs)"

text \<open>The agent and its cleaner after construction. The free-space limits keep their defaults.\<close>

definition new_agent :: "('x) ext_scheme \<Rightarrow> AgentConfig \<Rightarrow> world \<Rightarrow> (exn + agent \<times> cleaner) \<times> world" where
  "new_agent X cfg w =
    (if \<not> initialized cfg then (Inl (runtime_error ''configuration not initialized''), w)
     else case x_uname X of
       Inl e \<Rightarrow> (Inl (system_error e ''initializing uname''), w)
     | Inr (node, mach) \<Rightarrow>
         let wd = cfg_workdir cfg;
             all_dirs = [wd @ ''/transfers'', wd @ ''/uploads'', wd @ ''/upgrades'', wd @ ''/dead'']
         in (case create_dirs all_dirs w of
               (Inl e, v) \<Rightarrow> (Inl e, v)
             | (Inr _, v) \<Rightarrow>
                 (Inr (\<lparr>ag_world = v, workdir = wd, max_query = 50, m_allowedTopics = [],
                        min_free_disk = -1, min_free_pct = -1,
                        transfer_dir = wd @ ''/transfers'', upload_dir = wd @ ''/uploads'',
                        upgrade_dir = wd @ ''/upgrades'', deadletter_dir = wd @ ''/dead'',
                        nodename = node, machine = mach,
                        dir_cache = new_cache ''Directory'' 5000 (w_mono v),
                        metafile_cache = new_cache ''Metafile'' 5000 (w_mono v),
                        meta_cache = new_cache ''Metainfo'' 10000 (w_mono v)\<rparr>,
                       setMaxAge (maxAge cfg) (setCleanupInterval (cleanupInterval cfg)
                         (setCleanupDirs all_dirs new_cleaner))), v)))"

definition setMinFreeMb :: "int \<Rightarrow> 'z agent_scheme \<Rightarrow> 'z agent_scheme" where
  "setMinFreeMb mb a = a\<lparr>min_free_disk := mb\<rparr>"

definition setMinFreePct :: "int \<Rightarrow> 'z agent_scheme \<Rightarrow> 'z agent_scheme" where
  "setMinFreePct pct a = a\<lparr>min_free_pct := pct\<rparr>"

definition setMaxQuery :: "int \<Rightarrow> 'z agent_scheme \<Rightarrow> 'z agent_scheme" where
  "setMaxQuery mx a = a\<lparr>max_query := mx\<rparr>"

section \<open>The dead-letter box\<close>

definition endeaden_pair :: "path \<Rightarrow> path \<Rightarrow> path \<Rightarrow> (world, unit) ste" where
  "endeaden_pair dead filepath twin =
     seqE (ignore (sys_rename filepath (dead @ ''/'' @ tailname filepath))) (\<lambda>_.
     ignore (sys_rename twin (dead @ ''/'' @ tailname twin)))"

definition endeaden :: "path \<Rightarrow> ('z, unit) act" where
  "endeaden filepath = seqE (gets id) (\<lambda>a.
     if \<not> (starts_with filepath (transfer_dir a) \<or> starts_with filepath (upload_dir a)
           \<or> starts_with filepath (upgrade_dir a)) then ret ()
     else if ends_with filepath META_EXT then
       seqE (lift (data_file filepath)) (\<lambda>twin. onworld (endeaden_pair (deadletter_dir a) filepath twin))
     else if ends_with filepath DATA_EXT then
       seqE (lift (meta_file filepath)) (\<lambda>twin. onworld (endeaden_pair (deadletter_dir a) filepath twin))
     else ret ())"

section \<open>Metadata\<close>

definition transfer_meta :: "('x) ext_scheme \<Rightarrow> SendFileRequest \<Rightarrow> FileInfo \<Rightarrow> 'z agent_scheme \<Rightarrow> TransferMeta" where
  "transfer_meta X req fi a = \<lparr>tm_meta_version = x_api_version X, tm_topic = sr_topic req,
     tm_destination = sr_destination req, tm_node = nodename a, tm_time = to_int32 (w_time (ag_world a)),
     tm_file_info = fi, tm_send_options = sr_options req\<rparr>"

text \<open>What a stream that has been opened on a path delivers to the JSON code; metadata is read with one call.\<close>

definition stream_data :: "path \<Rightarrow> (world, bytes) ste" where
  "stream_data p = gets (\<lambda>w. if w_fault w (Sc_read p 0) \<noteq> None then []
     else case file_at w p of None \<Rightarrow> [] | Some i \<Rightarrow> i_data i)"

definition read_transfer_meta :: "('x) ext_scheme \<Rightarrow> path \<Rightarrow> ('z, TransferMeta) act" where
  "read_transfer_meta X file = seqE (onworld (attempt (sys_open file))) (\<lambda>r. case r of
      Inl e \<Rightarrow> seqE (endeaden file) (\<lambda>_. throw (runtime_error ''error reading metadata''))
    | Inr _ \<Rightarrow>
        catchE (seqE (onworld (stream_data file)) (\<lambda>bs. lift (x_parse_meta X bs))) is_json_exception
          (\<lambda>e. seqE (endeaden file) (\<lambda>_. throw (runtime_error ''error parsing metadata''))))"

definition read_transfer_meta_cached :: "('x) ext_scheme \<Rightarrow> path \<Rightarrow> ('z, TransferMeta) act" where
  "read_transfer_meta_cached X file =
     cached meta_cache (\<lambda>c. meta_cache_update (\<lambda>_. c)) (read_transfer_meta X) file"

section \<open>Available files\<close>

text \<open>\<open>size() > max_query\<close> compares as unsigned 64-bit values.\<close>

definition exceeds :: "nat \<Rightarrow> int \<Rightarrow> bool" where
  "exceeds n mx \<longleftrightarrow> nat (mx mod 2 ^ 64) < n"

text \<open>One file of the listing; \<open>None\<close> is \<open>continue\<close> or an error that has been dealt with.\<close>

definition examine :: "('x) ext_scheme \<Rightarrow> string \<Rightarrow> path \<Rightarrow> ('z, FileInfo option) act" where
  "examine X topic meta = catchE
     (seqE (read_transfer_meta_cached X meta) (\<lambda>tm.
        if tm_topic tm \<noteq> topic then ret None
        else seqE (lift (data_file meta)) (\<lambda>data.
             seqE (onworld (file_info X data)) (\<lambda>fi.
               if fi_crc32 (tm_file_info tm) \<noteq> fi_crc32 fi
               then seqE (endeaden meta) (\<lambda>_. ret None)
               else ret (Some (tm_file_info tm))))))
     is_runtime_error (\<lambda>e. seqE (endeaden meta) (\<lambda>_. ret None))"

text \<open>The loop; \<open>flist\<close> is the list so far. A file that is skipped does not end it.\<close>

fun files_loop :: "('x) ext_scheme \<Rightarrow> path \<Rightarrow> string \<Rightarrow> string list \<Rightarrow> FileInfo list \<Rightarrow> ('z, FileInfo list) act" where
  "files_loop X dir topic [] flist = ret flist"
| "files_loop X dir topic (f # fs) flist = seqE (examine X topic (dir @ ''/'' @ f)) (\<lambda>r.
     seqE (gets max_query) (\<lambda>mx.
     let flist' = (case r of None \<Rightarrow> flist | Some fi \<Rightarrow> flist @ [fi])
     in if exceeds (length flist') mx then ret flist' else files_loop X dir topic fs flist'))"

definition meta_listing :: "path \<Rightarrow> ('z, string list) act" where
  "meta_listing dir = cached metafile_cache (\<lambda>c. metafile_cache_update (\<lambda>_. c)) (\<lambda>d. onworld (list_files d META_EXT)) dir"

definition files_info :: "('x) ext_scheme \<Rightarrow> path \<Rightarrow> string \<Rightarrow> ('z, FileInfo list) act" where
  "files_info X dir topic =
     seqE (meta_listing dir) (\<lambda>meta_files.
     files_loop X dir topic meta_files [])"

definition query_available :: "('x) ext_scheme \<Rightarrow> string \<Rightarrow> ('z, AvailableFilesResponse ResponseCode) act" where
  "query_available X topic = seqE (gets upload_dir) (\<lambda>d. seqE (files_info X d topic) (\<lambda>files.
     seqE (gets max_query) (\<lambda>mx.
       ret (good (if exceeds (length files) mx
                  then \<lparr>af_files = butlast files, af_overflow = True\<rparr>
                  else \<lparr>af_files = files, af_overflow = False\<rparr>)))))"

section \<open>Small handlers\<close>

definition ping :: "string ResponseCode" where
  "ping = good ''PONG''"

definition agent_meta :: "('x) ext_scheme \<Rightarrow> string \<Rightarrow> ('z, TransferMeta ResponseCode) act" where
  "agent_meta X uuid = seqE (gets transfer_dir) (\<lambda>d. catchE
     (seqE (read_transfer_meta_cached X (d @ ''/'' @ uuid @ META_EXT)) (\<lambda>tm. ret (good tm)))
     is_runtime_error (\<lambda>e. ret (bad (what (x_strerror X) e))))"

text \<open>The expression \<^verbatim>\<open>^[-_[:alnum:]]+$\<close>, and the list of allowed topics.\<close>

definition topic_char :: "char \<Rightarrow> bool" where
  "topic_char c \<longleftrightarrow> c \<in> set ''-_0123456789ABCDEFGHIJKLMNOPQRSTUVWXYZabcdefghijklmnopqrstuvwxyz''"

definition checkTopic :: "string \<Rightarrow> 'z agent_scheme \<Rightarrow> bool" where
  "checkTopic topic a \<longleftrightarrow>
    (if \<not> (topic \<noteq> [] \<and> list_all topic_char topic) then False
     else if m_allowedTopics a = [] then True
     else topic \<in> set (m_allowedTopics a))"

section \<open>Sending a file\<close>

text \<open>
  Writing the metadata through a \<open>sync_ofstream\<close>: opening may fail, and a write may fail while the
  stream is used (\<open>Sc_write\<close>), which the code sees; what fails when the destructor flushes
  the buffer (\<open>Sc_flush\<close>) it does not see, and the file is then empty.
\<close>

definition write_meta :: "path \<Rightarrow> bytes \<Rightarrow> (world, unit) ste" where
  "write_meta destmeta bs = seqE (attempt (sys_creat destmeta)) (\<lambda>r. seqE (gets id) (\<lambda>w.
     if isl r \<or> w_fault w (Sc_write destmeta 0) \<noteq> None
     then seqE (ignore (sys_unlink destmeta)) (\<lambda>_. throw (runtime_error ''error writing metadata''))
     else if w_fault w (Sc_flush destmeta) \<noteq> None then ret ()
     else modify (\<lambda>w. case file_at w destmeta of None \<Rightarrow> w
            | Some i \<Rightarrow> put_file destmeta (i\<lparr>i_data := bs\<rparr>) w)))"

text \<open>The first \<open>try\<close> block.\<close>

definition prepare_send :: "('x) ext_scheme \<Rightarrow> SendFileRequest \<Rightarrow> string \<Rightarrow> path \<Rightarrow> ('z, FileInfo) act" where
  "prepare_send X req uuid destmeta =
     seqE (onworld (file_info X (sr_filepath req))) (\<lambda>fi0. let fi = fi0\<lparr>fi_id := uuid\<rparr> in
     seqE (gets (transfer_meta X req fi)) (\<lambda>tm.
     seqE (onworld (write_meta destmeta (x_print_meta X tm))) (\<lambda>_. ret fi)))"

definition draw_uuid :: "(world, string) ste" where
  "draw_uuid w = (case read_urandom w of (r, v) \<Rightarrow> (Inr (mkUUID r), v))"

definition send_file :: "('x) ext_scheme \<Rightarrow> SendFileRequest \<Rightarrow> ('z, string ResponseCode) act" where
  "send_file X req =
     seqE (onworld draw_uuid) (\<lambda>uuid. seqE (gets id) (\<lambda>a.
     let src = sr_filepath req; topic = sr_topic req;
         dest = transfer_dir a @ ''/'' @ uuid @ DATA_EXT; destmeta = transfer_dir a @ ''/'' @ uuid @ META_EXT
     in if \<not> checkPath src then ret (bad (''File path '' @ src @ '' is not absolute''))
     else if \<not> checkTopic topic a then ret (bad (''Topic '' @ topic @ '' is not allowed''))
     else seqE (onworld (attempt (sys_access (dirname src) W_OK))) (\<lambda>acc. case acc of
       Inl _ \<Rightarrow> ret (bad ''Source directory not writable'')
     | Inr _ \<Rightarrow>
         seqE (catchE (seqE (prepare_send X req uuid destmeta) (\<lambda>fi. ret (Inr fi))) is_runtime_error
                 (\<lambda>e. seqE (onworld (OSError X (''Error getting info on '' @ src @ '': ''))) (\<lambda>m. ret (Inl m)))) (\<lambda>p. case p of
           Inl m \<Rightarrow> ret (bad m)
         | Inr fi \<Rightarrow>
             catchE (seqE (onworld (move_file X (min_free_disk a) (min_free_pct a) src dest fi)) (\<lambda>_. ret (good uuid)))
               is_system_error
               (\<lambda>e. seqE (onworld (ignore (sys_unlink destmeta))) (\<lambda>_. ret (bad (what (x_strerror X) e))))))))"

section \<open>Retrieving a file\<close>

definition retrieve_file :: "('x) ext_scheme \<Rightarrow> RetrieveFileRequest \<Rightarrow> ('z, FileInfo ResponseCode) act" where
  "retrieve_file X req = seqE (gets id) (\<lambda>a.
     let srcid = rr_id req; dest = rr_save_path req;
         srcfile = upload_dir a @ ''/'' @ srcid @ DATA_EXT; src_meta = upload_dir a @ ''/'' @ srcid @ META_EXT
     in if \<not> checkPath dest then ret (bad (''Destination path '' @ dest @ '' is not absolute''))
     else seqE (onworld (attempt (sys_access src_meta R_OK))) (\<lambda>acc. case acc of
       Inl _ \<Rightarrow> seqE (onworld (OSError X (''meta file unreadable for '' @ srcid @ '': ''))) (\<lambda>m. ret (bad m))
     | Inr _ \<Rightarrow>
         seqE (catchE
             (seqE (read_transfer_meta_cached X src_meta) (\<lambda>tm.
              seqE (onworld (move_file X (min_free_disk a) (min_free_pct a) srcfile dest (tm_file_info tm))) (\<lambda>_.
              ret (good (tm_file_info tm)))))
             is_runtime_error
             (\<lambda>e. if is_system_error e then ret (bad (what (x_strerror X) e))
                   else seqE (endeaden srcfile) (\<lambda>_. ret (bad (what (x_strerror X) e))))) (\<lambda>resp.
         if code resp = Bad_Request then ret resp
         else seqE (onworld (ignore (sys_unlink src_meta))) (\<lambda>_. ret resp))))"

section \<open>The collector\<close>

text \<open>The buffer is doubled until \<open>getpwuid_r\<close> is content or the limit is passed.\<close>

function getpw_loop :: "(nat \<Rightarrow> errno + string option) \<Rightarrow> nat \<Rightarrow> (errno + string option) \<Rightarrow> errno + string option" where
  "getpw_loop getpwuid buflen res = (if 0 < buflen \<and> buflen < 10240 then
     (let r = getpwuid buflen in if r \<noteq> Inl ERANGE then r else getpw_loop getpwuid (buflen * 2) r) else res)"
  by pat_completeness auto
termination
  by (relation "measure (\<lambda>(g, n, r). 10240 - n)") auto

declare getpw_loop.simps [simp del]

definition getUsername :: "('x) ext_scheme \<Rightarrow> string" where
  "getUsername X = (case getpw_loop (x_getpwuid X) 128 (Inl ERANGE) of Inr (Some name) \<Rightarrow> name | _ \<Rightarrow> [])"

definition getSysinfo :: "('x) ext_scheme \<Rightarrow> 'z agent_scheme \<Rightarrow> SystemInfo" where
  "getSysinfo X a = \<lparr>si_version = x_release_version X, si_build = x_build_version X,
     si_diskfree = getDiskfree (workdir a) (ag_world a), si_workdir = transfer_dir a, si_uploads = upload_dir a,
     si_agent_upgrades = upgrade_dir a, si_dead = deadletter_dir a, si_username = getUsername X,
     si_nodename = nodename a, si_machine = machine a\<rparr>"

definition dir_listing :: "('x) ext_scheme \<Rightarrow> path \<Rightarrow> ('z, string list) act" where
  "dir_listing X d = cached dir_cache (\<lambda>c. dir_cache_update (\<lambda>_. c)) (\<lambda>d. onworld (file_names X d)) d"

definition collector_info :: "('x) ext_scheme \<Rightarrow> string list option \<Rightarrow> ('z, InfoResponse ResponseCode) act" where
  "collector_info X topics =
     seqE (case topics of None \<Rightarrow> ret () | Some ts \<Rightarrow> modify (m_allowedTopics_update (\<lambda>_. ts))) (\<lambda>_.
     seqE (gets id) (\<lambda>a.
     seqE (dir_listing X (transfer_dir a)) (\<lambda>files.
     seqE (dir_listing X (deadletter_dir a)) (\<lambda>dead.
     ret (good \<lparr>ir_sysinfo = getSysinfo X a, ir_topics = m_allowedTopics a, ir_files = files, ir_dead = dead\<rparr>)))))"

section \<open>Running handlers\<close>

lemma onworld_eq: "m (ag_world a) = (r, w) \<Longrightarrow> onworld m a = (r, a\<lparr>ag_world := w\<rparr>)"
  by (simp add: onworld_def)

lemma seqE_onworld: "seqE (onworld m) f a = (case m (ag_world a) of
    (Inl e, w) \<Rightarrow> (Inl e, a\<lparr>ag_world := w\<rparr>) | (Inr x, w) \<Rightarrow> f x (a\<lparr>ag_world := w\<rparr>))"
  by (simp add: seqE_def onworld_def split: prod.splits sum.splits)

lemma fs_wf_iff: "fs_wf w \<longleftrightarrow> (\<forall>p. file_at w p \<noteq> None \<longrightarrow> p = ''/'' \<or> is_dir w (parent_dir p))"
proof -
  have dom: "file_at w p \<noteq> None \<longleftrightarrow> p \<in> fst ` set (w_files w)" for p by (simp add: map_of_eq_None_iff)
  have "fs_wf w \<longleftrightarrow> (\<forall>p \<in> fst ` set (w_files w). p = ''/'' \<or> is_dir w (parent_dir p))"
    by (auto simp: fs_wf_def list_all_iff)
  then show ?thesis unfolding dom by blast
qed

text \<open>Adding a file in an existing directory keeps the file system well formed.\<close>

lemma fs_wf_add:
  assumes "fs_wf w" and "only_files {p} w v" and "file_at w p = None" and "is_dir w (parent_dir p)"
  shows "fs_wf v"
  unfolding fs_wf_iff
proof (intro allI impI)
  fix q
  assume q: "file_at v q \<noteq> None"
  have keep: "is_dir v d" if "is_dir w d" for d
    using that assms(2,3) by (cases "d = p") (auto simp: is_dir_def only_files_def)
  show "q = ''/'' \<or> is_dir v (parent_dir q)"
  proof (cases "q = p")
    case True
    then show ?thesis using keep assms(4) by simp
  next
    case False
    then have "file_at w q \<noteq> None" using q assms(2) by (simp add: only_files_def)
    then show ?thesis using assms(1) keep by (auto simp: fs_wf_iff)
  qed
qed

section \<open>Writing the metadata\<close>

lemma sys_creat_new:
  assumes "file_at w p = None"
  shows "(\<exists>v. sys_creat p w = (Inr (), v) \<and> w_fault w (Sc_creat p) = None \<and> is_dir w (parent_dir p)
      \<and> v = put_file p (new_inode w Reg 0x81A4) w)
    \<or> (\<exists>e v. sys_creat p w = (Inl e, v) \<and> quiet w v)"
  using assms by (auto simp: sys_creat_def guard_fault_def fail_def quiet_def same_env_def split: option.splits)

lemma write_meta_Inr:
  assumes "write_meta p bs w = (Inr (), v)" and "file_at w p = None"
  shows "only_files {p} w v \<and> is_dir w (parent_dir p) \<and> (\<exists>i. file_at v p = Some i \<and> i_kind i = Reg
    \<and> i_data i = (if w_fault w (Sc_flush p) = None then bs else []))"
  using sys_creat_new [OF assms(2)]
proof (elim disjE exE conjE)
  fix u
  assume c: "sys_creat p w = (Inr (), u)" and d: "is_dir w (parent_dir p)"
    and u: "u = put_file p (new_inode w Reg 0x81A4) w"
  have f: "w_fault u = w_fault w" "file_at u p = Some (new_inode w Reg 0x81A4)"
    by (simp_all add: u lookup_simps) (simp add: put_file_def)
  from assms(1) c f have "v = (if w_fault w (Sc_flush p) = None
      then put_file p ((new_inode w Reg 0x81A4)\<lparr>i_data := bs\<rparr>) u else u)"
    by (auto simp: write_meta_def seqE_def attempt_def ignore_def split: if_splits)
  then show ?thesis using d by (auto simp: u only_files_def lookup_simps new_inode_def same_env_def put_file_def)
next
  fix e u
  assume "sys_creat p w = (Inl e, u)"
  with assms(1) show ?thesis by (simp add: write_meta_def seqE_def attempt_def ignore_def)
qed

lemma write_meta_Inl:
  assumes "write_meta p bs w = (Inl e, v)" and "file_at w p = None" and "w_fault w (Sc_unlink p) = None"
  shows "only_files {} w v \<and> is_runtime_error e"
  using sys_creat_new [OF assms(2)]
proof (elim disjE exE conjE)
  fix u
  assume c: "sys_creat p w = (Inr (), u)" and u: "u = put_file p (new_inode w Reg 0x81A4) w"
  have f: "w_fault u = w_fault w" "file_at u p = Some (new_inode w Reg 0x81A4)"
    by (simp_all add: u lookup_simps) (simp add: put_file_def)
  from assms(1) c have v: "v = snd (sys_unlink p u)" and "is_runtime_error e"
    by (auto simp: write_meta_def seqE_def attempt_def ignore_def split: if_splits)
  moreover have "sys_unlink p u = (Inr (), u\<lparr>w_files := AList.delete p (w_files u)\<rparr>)"
    using f assms(3) by (simp add: sys_unlink_def guard_fault_def new_inode_def)
  ultimately show ?thesis using assms(2)
    by (auto simp: only_files_def u lookup_simps same_env_def put_file_def)
next
  fix e' u
  assume c: "sys_creat p w = (Inl e', u)" and q: "quiet w u"
  from assms(1) c have v: "v = snd (sys_unlink p u)" and "is_runtime_error e"
    by (auto simp: write_meta_def seqE_def attempt_def ignore_def split: if_splits)
  moreover have "only_files {p} u v" using stable_sys_unlink by (simp add: stable_def v)
  moreover have "file_at v p = None"
    using assms(2) q by (simp add: v sys_unlink_def guard_fault_def fail_def quiet_def split: option.splits)
  ultimately have "file_at v x = file_at w x" for x
    using q assms(2) by (cases "x = p") (simp_all add: only_files_def quiet_def)
  moreover have "same_env w v"
    using q \<open>only_files {p} u v\<close> by (auto simp: only_files_def quiet_def intro: same_env_trans)
  ultimately show ?thesis using \<open>is_runtime_error e\<close> by (simp add: only_files_def)
qed

section \<open>send\_file\<close>

definition sent_data :: "'z agent_scheme \<Rightarrow> string \<Rightarrow> path" where
  "sent_data a uuid = transfer_dir a @ ''/'' @ uuid @ DATA_EXT"

definition sent_meta :: "'z agent_scheme \<Rightarrow> string \<Rightarrow> path" where
  "sent_meta a uuid = transfer_dir a @ ''/'' @ uuid @ META_EXT"

text \<open>The identifier the next request gets.\<close>

definition next_uuid :: "'z agent_scheme \<Rightarrow> string" where
  "next_uuid a = mkUUID (fst (read_urandom (ag_world a)))"

text \<open>The metadata that is written for a request.\<close>

definition meta_for :: "('x) ext_scheme \<Rightarrow> SendFileRequest \<Rightarrow> 'z agent_scheme \<Rightarrow> inode \<Rightarrow> TransferMeta" where
  "meta_for X req a i = transfer_meta X req
     ((info_for X (ag_world a) (sr_filepath req) i)\<lparr>fi_id := next_uuid a\<rparr>) a"

text \<open>The state once the metadata is on disk and before the file is moved.\<close>

definition announced :: "('x) ext_scheme \<Rightarrow> SendFileRequest \<Rightarrow> 'z agent_scheme \<Rightarrow> inode \<Rightarrow> world \<Rightarrow> bool" where
  "announced X req a i v \<longleftrightarrow> regular_file (ag_world a) (sr_filepath req) = Some i
     \<and> checkPath (sr_filepath req) \<and> checkTopic (sr_topic req) a
     \<and> only_files {sent_meta a (next_uuid a)} (ag_world a) v \<and> is_dir (ag_world a) (parent_dir (sent_meta a (next_uuid a)))
     \<and> (\<exists>m. file_at v (sent_meta a (next_uuid a)) = Some m \<and> i_kind m = Reg
          \<and> i_data m = (if w_fault (ag_world a) (Sc_flush (sent_meta a (next_uuid a))) = None
                         then x_print_meta X (meta_for X req a i) else []))"

lemma read_urandom_quiet: "read_urandom w = (r, v) \<Longrightarrow> quiet w v"
  by (auto simp: read_urandom_def quiet_def same_env_def split: list.splits)

lemma regular_file_at: "regular_file w p = Some i \<Longrightarrow> file_at w p = Some i \<and> i_kind i = Reg"
  by (auto simp: regular_file_def split: option.splits if_splits)

lemma checkTopic_world [simp]: "checkTopic t (a\<lparr>ag_world := w\<rparr>) = checkTopic t a"
  by (simp add: checkTopic_def)

lemma prepare_send_cases:
  assumes q: "quiet (ag_world a) w" and fresh: "file_at (ag_world a) (sent_meta a (next_uuid a)) = None"
    and un: "w_fault (ag_world a) (Sc_unlink (sent_meta a (next_uuid a))) = None"
    and chk: "checkPath (sr_filepath req)" "checkTopic (sr_topic req) a"
  shows "(\<exists>e v. prepare_send X req (next_uuid a) (sent_meta a (next_uuid a)) (a\<lparr>ag_world := w\<rparr>) = (Inl e, a\<lparr>ag_world := v\<rparr>)
       \<and> is_runtime_error e \<and> only_files {} (ag_world a) v)
    \<or> (\<exists>i v. prepare_send X req (next_uuid a) (sent_meta a (next_uuid a)) (a\<lparr>ag_world := w\<rparr>)
           = (Inr ((info_for X (ag_world a) (sr_filepath req) i)\<lparr>fi_id := next_uuid a\<rparr>), a\<lparr>ag_world := v\<rparr>)
       \<and> announced X req a i v)"
proof -
  let ?m = "sent_meta a (next_uuid a)" and ?src = "sr_filepath req"
  note qs = quiet_simps [OF q]
  consider (ok) i v where "regular_file w ?src = Some i" "file_info X ?src w = (Inr (info_for X w ?src i), v)" "quiet w v"
    | (no) e v where "file_info X ?src w = (Inl e, v)" "is_runtime_error e" "quiet w v"
    using file_info_cases [of w ?src X] by (auto simp: quiet_def)
  then show ?thesis
  proof cases
    case no
    then have "prepare_send X req (next_uuid a) ?m (a\<lparr>ag_world := w\<rparr>) = (Inl e, a\<lparr>ag_world := v\<rparr>)"
      by (simp add: prepare_send_def seqE_onworld)
    moreover have "only_files {} (ag_world a) v"
      using quiet_trans [OF q no(3)] by (simp add: quiet_def only_files_def)
    ultimately show ?thesis using no(2) by blast
  next
    case ok
    have qv: "quiet (ag_world a) v" using quiet_trans [OF q ok(3)] .
    have reg: "regular_file (ag_world a) ?src = Some i" using ok(1) by (simp add: qs)
    have info: "info_for X w ?src i = info_for X (ag_world a) ?src i"
      by (simp add: info_for_def qs)
    let ?bs = "x_print_meta X (meta_for X req a i)"
    have tm: "transfer_meta X req ((info_for X (ag_world a) ?src i)\<lparr>fi_id := next_uuid a\<rparr>) (a\<lparr>ag_world := v\<rparr>) = meta_for X req a i"
      using qv by (simp add: meta_for_def transfer_meta_def quiet_def same_env_def)
    obtain r u where wm: "write_meta ?m ?bs v = (r, u)" by (cases "write_meta ?m ?bs v")
    have run: "prepare_send X req (next_uuid a) ?m (a\<lparr>ag_world := w\<rparr>) = (case r of Inl e \<Rightarrow> (Inl e, a\<lparr>ag_world := u\<rparr>)
        | Inr _ \<Rightarrow> (Inr ((info_for X (ag_world a) ?src i)\<lparr>fi_id := next_uuid a\<rparr>), a\<lparr>ag_world := u\<rparr>))"
      using ok(2) wm info tm
      by (simp add: prepare_send_def seqE_onworld Let_def split: sum.splits)
        (simp add: seqE_def onworld_def split: sum.splits)
    have fv: "file_at v ?m = None" "w_fault v = w_fault (ag_world a)" using fresh by (simp_all add: quiet_simps [OF qv])
    have ofv: "only_files A (ag_world a) v" for A using qv by (simp add: quiet_def only_files_def)
    have pv: "is_dir v = is_dir (ag_world a)" by (simp add: fun_eq_iff is_dir_def quiet_simps [OF qv])
    show ?thesis
    proof (cases r)
      case (Inl e)
      from write_meta_Inl [OF wm [unfolded Inl] fv(1)] un fv(2)
      have "only_files {} v u" "is_runtime_error e" by simp_all
      then show ?thesis using run Inl only_files_trans [OF ofv] by auto
    next
      case (Inr x)
      from write_meta_Inr [OF _ fv(1), of ?bs u] wm Inr fv(2) pv
      have "only_files {?m} v u" "is_dir (ag_world a) (parent_dir ?m)" "\<exists>i. file_at u ?m = Some i \<and> i_kind i = Reg
          \<and> i_data i = (if w_fault (ag_world a) (Sc_flush ?m) = None then ?bs else [])" by simp_all
      then have "announced X req a i u"
        using reg chk only_files_trans [OF ofv] by (auto simp: announced_def)
      then show ?thesis using run Inr by auto
    qed
  qed
qed

text \<open>
  A request is refused with the files as they were, or announced and then decided by \<open>move_file\<close>.
\<close>

lemma send_file_cases:
  fixes a :: "'z agent_scheme"
  assumes fresh: "file_at (ag_world a) (sent_meta a (next_uuid a)) = None"
    and un: "w_fault (ag_world a) (Sc_unlink (sent_meta a (next_uuid a))) = None"
  shows "(\<exists>m v. send_file X req a = (Inr (bad m), a\<lparr>ag_world := v\<rparr>) \<and> only_files {} (ag_world a) v)
    \<or> (\<exists>i w. announced X req a i w \<and> send_file X req a =
        (case move_file X (min_free_disk a) (min_free_pct a) (sr_filepath req) (sent_data a (next_uuid a))
            ((info_for X (ag_world a) (sr_filepath req) i)\<lparr>fi_id := next_uuid a\<rparr>) w of
           (Inr _, v) \<Rightarrow> (Inr (good (next_uuid a)), a\<lparr>ag_world := v\<rparr>)
         | (Inl e, v) \<Rightarrow> if is_system_error e
             then (Inr (bad (what (x_strerror X) e)), a\<lparr>ag_world := snd (sys_unlink (sent_meta a (next_uuid a)) v)\<rparr>)
             else (Inl e, a\<lparr>ag_world := v\<rparr>)))"
proof -
  let ?w = "ag_world a" and ?src = "sr_filepath req" and ?u = "next_uuid a"
  obtain r w0 where rd: "read_urandom ?w = (r, w0)" by (cases "read_urandom ?w")
  have id: "draw_uuid ?w = (Inr ?u, w0)" using rd by (simp add: draw_uuid_def next_uuid_def)
  have q0: "quiet ?w w0" using rd by (rule read_urandom_quiet)
  have of: "only_files {} ?w v" if "quiet ?w v" for v using that by (simp add: quiet_def only_files_def)
  consider (path) "\<not> checkPath ?src" | (topic) "checkPath ?src" "\<not> checkTopic (sr_topic req) a"
    | (ok) "checkPath ?src" "checkTopic (sr_topic req) a" by blast
  then show ?thesis
  proof cases
    case path
    then have "\<exists>m. send_file X req a = (Inr (bad m), a\<lparr>ag_world := w0\<rparr>)"
      using id by (simp add: send_file_def seqE_onworld) (simp add: seqE_def Let_def)
    then show ?thesis using of [OF q0] by blast
  next
    case topic
    then have "\<exists>m. send_file X req a = (Inr (bad m), a\<lparr>ag_world := w0\<rparr>)"
      using id by (simp add: send_file_def seqE_onworld) (simp add: seqE_def Let_def)
    then show ?thesis using of [OF q0] by blast
  next
    case ok
    obtain r1 w1 where ac: "sys_access (dirname ?src) W_OK w0 = (r1, w1)" by (cases "sys_access (dirname ?src) W_OK w0")
    have "quiet w0 w1"
      using ac by (auto simp: sys_access_def guard_fault_def fail_def quiet_def same_env_def split: option.splits)
    then have q1: "quiet ?w w1" by (rule quiet_trans [OF q0])
    define rest :: "string + FileInfo \<Rightarrow> ('z, string ResponseCode) act" where "rest = (\<lambda>p. case p of Inl m \<Rightarrow> ret (bad m) | Inr fi \<Rightarrow>
        catchE (seqE (onworld (move_file X (min_free_disk a) (min_free_pct a) ?src (sent_data a ?u) fi)) (\<lambda>_. ret (good ?u)))
          is_system_error
          (\<lambda>e. seqE (onworld (ignore (sys_unlink (sent_meta a ?u)))) (\<lambda>_. ret (bad (what (x_strerror X) e)))))"
    show ?thesis
    proof (cases r1)
      case (Inl e)
      then have "send_file X req a = (Inr (bad ''Source directory not writable''), a\<lparr>ag_world := w1\<rparr>)"
        using id ok ac by (simp add: send_file_def seqE_onworld)
          (simp add: seqE_def Let_def attempt_def onworld_def)
      then show ?thesis using of [OF q1] by blast
    next
      case (Inr x)
      have run: "send_file X req a = seqE (catchE (seqE (prepare_send X req ?u (sent_meta a ?u)) (\<lambda>fi. ret (Inr fi))) is_runtime_error
           (\<lambda>e. seqE (onworld (OSError X (''Error getting info on '' @ ?src @ '': ''))) (\<lambda>m. ret (Inl m)))) rest (a\<lparr>ag_world := w1\<rparr>)"
        unfolding rest_def sent_data_def sent_meta_def using id ok ac Inr
        by (simp add: send_file_def seqE_onworld seqE_gets Let_def attempt_def)
      from prepare_send_cases [OF q1 fresh un ok, of X] show ?thesis
      proof (elim disjE exE conjE)
        fix e v
        assume p: "prepare_send X req ?u (sent_meta a ?u) (a\<lparr>ag_world := w1\<rparr>) = (Inl e, a\<lparr>ag_world := v\<rparr>)"
          "is_runtime_error e" "only_files {} ?w v"
        then have "\<exists>m. send_file X req a = (Inr (bad m), a\<lparr>ag_world := v\<rparr>)"
          unfolding run by (simp add: seqE_def catchE_def onworld_def OSError_def rest_def)
        with p(3) show ?thesis by blast
      next
        fix i v
        let ?fi = "(info_for X ?w ?src i)\<lparr>fi_id := ?u\<rparr>"
        assume p: "prepare_send X req ?u (sent_meta a ?u) (a\<lparr>ag_world := w1\<rparr>) = (Inr ?fi, a\<lparr>ag_world := v\<rparr>)"
          and an: "announced X req a i v"
        have "send_file X req a = rest (Inr ?fi) (a\<lparr>ag_world := v\<rparr>)"
          unfolding run using p by (simp add: seqE_def catchE_def)
        also have "\<dots> = (case move_file X (min_free_disk a) (min_free_pct a) ?src (sent_data a ?u) ?fi v of
           (Inr _, v) \<Rightarrow> (Inr (good ?u), a\<lparr>ag_world := v\<rparr>)
         | (Inl e, v) \<Rightarrow> if is_system_error e
             then (Inr (bad (what (x_strerror X) e)), a\<lparr>ag_world := snd (sys_unlink (sent_meta a ?u) v)\<rparr>)
             else (Inl e, a\<lparr>ag_world := v\<rparr>))"
          by (simp add: rest_def catchE_def seqE_def onworld_def ignore_def split: prod.splits sum.splits)
        finally show ?thesis using an by blast
      qed
    qed
  qed
qed

text \<open>The calls whose failure \<open>move_file\<close> does not notice do not fail.\<close>

definition calls_ok :: "path \<Rightarrow> world \<Rightarrow> bool" where
  "calls_ok dest w \<longleftrightarrow> w_fault w (Sc_access dest F_OK) = None
     \<and> (\<forall>s. w_fault w (Sc_rename s dest) \<noteq> Some EXDEV) \<and> (\<forall>t. temp_of dest t \<longrightarrow> w_fault w (Sc_rename t dest) = None)
     \<and> (\<forall>p off. w_fault w (Sc_open p) = None \<and> w_fault w (Sc_read p off) = None)"

definition fs_env :: "path \<Rightarrow> world \<Rightarrow> bool" where
  "fs_env src w \<longleftrightarrow> fs_wf w \<and> no_slash w \<and> temp_same_dev src w"

definition undo_ok :: "path \<Rightarrow> world \<Rightarrow> bool" where
  "undo_ok src w \<longleftrightarrow> (\<forall>t. temp_of src t \<longrightarrow> w_fault w (Sc_rename t src) = None)"

lemma announced_env:
  assumes "announced X req a i w" and "file_at (ag_world a) (sent_meta a (next_uuid a)) = None" and "fs_env src (ag_world a)"
  shows "fs_env src w" and "w_fault w = w_fault (ag_world a)"
proof -
  have o: "only_files {sent_meta a (next_uuid a)} (ag_world a) w"
    "is_dir (ag_world a) (parent_dir (sent_meta a (next_uuid a)))" using assms(1) by (simp_all add: announced_def)
  then show "w_fault w = w_fault (ag_world a)" by (simp add: only_files_def same_env_def)
  have "fs_wf w" using fs_wf_add [OF _ o(1) assms(2) o(2)] assms(3) by (simp add: fs_env_def)
  then show "fs_env src w"
    using assms(3) o(1) by (simp add: fs_env_def no_slash_def temp_same_dev_def only_files_def same_env_def)
qed

lemma send_file_done:
  assumes run: "send_file X req a = (Inr (good uuid), b)"
    and fresh: "file_at (ag_world a) (sent_meta a (next_uuid a)) = None"
    and ok: "calls_ok (sent_data a (next_uuid a)) (ag_world a)" "fs_env (sr_filepath req) (ag_world a)"
      "w_fault (ag_world a) (Sc_unlink (sent_meta a (next_uuid a))) = None"
      "w_fault (ag_world a) (Sc_flush (sent_meta a (next_uuid a))) = None"
  shows "b = a\<lparr>ag_world := ag_world b\<rparr> \<and> same_env (ag_world a) (ag_world b) \<and> uuid = next_uuid a \<and> checkPath (sr_filepath req) \<and> checkTopic (sr_topic req) a
    \<and> (\<exists>i j m. file_at (ag_world a) (sr_filepath req) = Some i \<and> i_kind i = Reg
       \<and> file_at (ag_world b) (sent_data a uuid) = Some j \<and> i_kind j = Reg \<and> crc_of X (i_data j) = crc_of X (i_data i)
       \<and> file_at (ag_world b) (sent_meta a uuid) = Some m \<and> i_data m = x_print_meta X (meta_for X req a i))
    \<and> file_at (ag_world a) (sent_data a uuid) = None \<and> file_at (ag_world b) (sr_filepath req) = None
    \<and> (\<forall>p q. file_at (ag_world a) p = Some q \<longrightarrow> p \<noteq> sr_filepath req \<longrightarrow> file_at (ag_world b) p = Some q)"
  using send_file_cases [OF fresh ok(3), of X req]
proof (elim disjE exE conjE)
  fix i w
  let ?src = "sr_filepath req" and ?d = "sent_data a (next_uuid a)" and ?m = "sent_meta a (next_uuid a)"
  let ?fi = "(info_for X (ag_world a) ?src i)\<lparr>fi_id := next_uuid a\<rparr>"
  assume an: "announced X req a i w" and sf: "send_file X req a =
      (case move_file X (min_free_disk a) (min_free_pct a) ?src ?d ?fi w of
         (Inr _, v) \<Rightarrow> (Inr (good (next_uuid a)), a\<lparr>ag_world := v\<rparr>)
       | (Inl e, v) \<Rightarrow> if is_system_error e
           then (Inr (bad (what (x_strerror X) e)), a\<lparr>ag_world := snd (sys_unlink ?m v)\<rparr>) else (Inl e, a\<lparr>ag_world := v\<rparr>))"
  obtain v where mv: "move_file X (min_free_disk a) (min_free_pct a) ?src ?d ?fi w = (Inr (), v)"
    and ub: "uuid = next_uuid a" "b = a\<lparr>ag_world := v\<rparr>"
    using run sf by (auto split: prod.splits sum.splits if_splits)
  note env = announced_env [OF an fresh ok(2)]
  have reg: "file_at (ag_world a) ?src = Some i" "i_kind i = Reg"
    using an regular_file_at by (auto simp: announced_def)
  have "readable_data (ag_world a) ?src = i_data i" using reg ok(1) by (simp add: readable_data_def calls_ok_def)
  then have crc: "fi_crc32 ?fi = crc_of X (i_data i)" by (simp add: info_for_def)
  have ms: "?m \<noteq> ?d" "?m \<noteq> ?src" using fresh reg by (auto simp: sent_meta_def sent_data_def)
  have keep: "file_at w p = file_at (ag_world a) p" if "p \<noteq> ?m" for p
    using an that by (simp add: announced_def only_files_def)
  obtain m where m: "file_at w ?m = Some m" "i_data m = x_print_meta X (meta_for X req a i)"
    using an ok(4) by (auto simp: announced_def)
  have s: "file_at w ?d = None
    \<and> (\<exists>j. file_at v ?d = Some j \<and> i_kind j = Reg \<and> crc_of X (i_data j) = fi_crc32 ?fi)
    \<and> file_at v ?src = None \<and> (\<forall>p i. file_at w p = Some i \<longrightarrow> p \<noteq> ?src \<longrightarrow> file_at v p = Some i)"
    using ok(1) env by (intro move_file_returns [OF mv]) (auto simp: calls_ok_def fs_env_def)
  then have "file_at (ag_world a) ?d = None" using keep ms by metis
  moreover have "file_at v p = Some q" if "file_at (ag_world a) p = Some q" "p \<noteq> ?src" for p q
    using s keep [of p] that fresh by (cases "p = ?m") auto
  moreover have "file_at v ?m = Some m" using s m ms by auto
  moreover have "same_env (ag_world a) v"
    using an stableD [OF stable_move_file_env mv] by (auto simp: announced_def only_files_def intro: same_env_trans)
  ultimately show ?thesis using s reg m crc an unfolding ub by (simp add: announced_def)
qed (use run in auto)

text \<open>
  (C4) A request that is accepted is complete: the response carries the identifier drawn for it,
  the data file of that identifier is new and has the checksum of the source, the metadata file
  describes it (topic, destination, node, time, options, and the source's size and checksum under
  that identifier; size and times narrowed to the 32 bits of the generated models), the source is gone and every other file is unchanged. The topic is allowed
  and the path absolute. Opening and reading files, the \<open>access\<close> test of the destination, the last rename, the flush of the metadata and its removal
  are the calls that must not fail, and a rename reports two devices only where there are two; everything else may fail. The name of the metadata was free.
\<close>

theorem send_file_accepted:
  assumes run: "send_file X req a = (Inr (good uuid), b)"
    and fresh: "file_at (ag_world a) (sent_meta a (next_uuid a)) = None"
    and ok: "calls_ok (sent_data a (next_uuid a)) (ag_world a)" "fs_env (sr_filepath req) (ag_world a)"
      "w_fault (ag_world a) (Sc_unlink (sent_meta a (next_uuid a))) = None"
      "w_fault (ag_world a) (Sc_flush (sent_meta a (next_uuid a))) = None"
  shows "uuid = next_uuid a \<and> checkPath (sr_filepath req) \<and> checkTopic (sr_topic req) a
    \<and> (\<exists>i j m. file_at (ag_world a) (sr_filepath req) = Some i \<and> i_kind i = Reg
       \<and> file_at (ag_world b) (sent_data a uuid) = Some j \<and> i_kind j = Reg \<and> crc_of X (i_data j) = crc_of X (i_data i)
       \<and> file_at (ag_world b) (sent_meta a uuid) = Some m \<and> i_data m = x_print_meta X (meta_for X req a i))
    \<and> file_at (ag_world a) (sent_data a uuid) = None \<and> file_at (ag_world b) (sr_filepath req) = None
    \<and> (\<forall>p q. file_at (ag_world a) p = Some q \<longrightarrow> p \<noteq> sr_filepath req \<longrightarrow> file_at (ag_world b) p = Some q)"
  using send_file_done [OF assms] by blast

text \<open>What a failed move leaves, seen from before the announcement.\<close>

lemma announced_failed:
  assumes an: "announced X req a i w" and fresh: "file_at (ag_world a) (sent_meta a (next_uuid a)) = None"
    and env: "fs_env (sr_filepath req) (ag_world a)" "undo_ok (sr_filepath req) (ag_world a)"
    and mv: "move_file X m p (sr_filepath req) dest fi w = (Inl e, v)"
  shows "\<exists>j. file_at v (sent_meta a (next_uuid a)) = Some j \<and> i_kind j = Reg"
    and "q \<noteq> sent_meta a (next_uuid a) \<Longrightarrow> file_at v q = file_at (ag_world a) q
      \<or> (file_at (ag_world a) q = None \<and> (temp_of (sr_filepath req) q \<or> temp_of dest q))"
    and "same_env (ag_world a) v"
proof -
  note e = announced_env [OF an fresh env(1)]
  have un: "untouched (sr_filepath req) dest w v"
    using env(2) e by (intro move_file_throws [OF mv]) (auto simp: undo_ok_def fs_env_def)
  have o: "only_files {sent_meta a (next_uuid a)} (ag_world a) w" using an by (simp add: announced_def)
  obtain j where j: "file_at w (sent_meta a (next_uuid a)) = Some j" "i_kind j = Reg" using an by (auto simp: announced_def)
  then show "\<exists>j. file_at v (sent_meta a (next_uuid a)) = Some j \<and> i_kind j = Reg"
    using un by (metis option.distinct(1) untouched_def)
  show "q \<noteq> sent_meta a (next_uuid a) \<Longrightarrow> file_at v q = file_at (ag_world a) q
      \<or> (file_at (ag_world a) q = None \<and> (temp_of (sr_filepath req) q \<or> temp_of dest q))"
    using un o unfolding untouched_def only_files_def by (metis singletonD)
  show "same_env (ag_world a) v"
    using o stable_move_file_env [of X m p "sr_filepath req" dest fi] mv
    by (auto simp: only_files_def stable_def intro: same_env_trans) (metis same_env_trans snd_conv)
qed

text \<open>
  (C5) A request that is refused changes nothing: after a \<open>Bad_Request\<close> the source and every
  other file are as before, no metadata of the identifier is left, and only temporary names of a
  failed copy may be new. It holds for every way the calls can fail but two: the rename that
  puts the source back, and the removal of the metadata file.
\<close>

theorem send_file_refused:
  assumes run: "send_file X req a = (Inr (bad msg), b)"
    and fresh: "file_at (ag_world a) (sent_meta a (next_uuid a)) = None"
    and ok: "undo_ok (sr_filepath req) (ag_world a)" "fs_env (sr_filepath req) (ag_world a)"
      "w_fault (ag_world a) (Sc_unlink (sent_meta a (next_uuid a))) = None"
  shows "untouched (sr_filepath req) (sent_data a (next_uuid a)) (ag_world a) (ag_world b)
    \<and> file_at (ag_world b) (sent_meta a (next_uuid a)) = None"
  using send_file_cases [OF fresh ok(3), of X req]
proof (elim disjE exE conjE)
  fix m v
  assume "send_file X req a = (Inr (bad m), a\<lparr>ag_world := v\<rparr>)" "only_files {} (ag_world a) v"
  then show ?thesis using run fresh by (auto simp: only_files_def untouched_def)
next
  fix i w
  let ?src = "sr_filepath req" and ?d = "sent_data a (next_uuid a)" and ?m = "sent_meta a (next_uuid a)"
  let ?fi = "(info_for X (ag_world a) ?src i)\<lparr>fi_id := next_uuid a\<rparr>"
  assume an: "announced X req a i w" and sf: "send_file X req a =
      (case move_file X (min_free_disk a) (min_free_pct a) ?src ?d ?fi w of
         (Inr _, v) \<Rightarrow> (Inr (good (next_uuid a)), a\<lparr>ag_world := v\<rparr>)
       | (Inl e, v) \<Rightarrow> if is_system_error e
           then (Inr (bad (what (x_strerror X) e)), a\<lparr>ag_world := snd (sys_unlink ?m v)\<rparr>) else (Inl e, a\<lparr>ag_world := v\<rparr>))"
  obtain e v where mv: "move_file X (min_free_disk a) (min_free_pct a) ?src ?d ?fi w = (Inl e, v)"
    and b: "ag_world b = snd (sys_unlink ?m v)"
    using run sf by (auto split: prod.splits sum.splits if_splits)
  note f = announced_failed [OF an fresh ok(2,1) mv]
  have "w_fault v (Sc_unlink ?m) = None" using f(3) ok(3) by (simp add: same_env_def)
  then have vb: "file_at (ag_world b) q = (if q = ?m then None else file_at v q)" for q
    using f(1) by (auto simp: b sys_unlink_def guard_fault_def lookup_simps)
  then show ?thesis using f(2) fresh by (auto simp: untouched_def)
qed

text \<open>
  (C25) An exception that leaves \<open>send_file\<close> (the handler catches only \<open>system_error\<close> around
  the move) leaves the metadata of the identifier behind, announcing a transfer that did not take
  place; the source and every other file are still as before. The two calls that undo the work, the rename that puts the source back and
  the removal of the metadata file, are assumed not to fail.
\<close>

theorem send_file_escape:
  assumes run: "send_file X req a = (Inl e, b)"
    and fresh: "file_at (ag_world a) (sent_meta a (next_uuid a)) = None"
    and ok: "undo_ok (sr_filepath req) (ag_world a)" "fs_env (sr_filepath req) (ag_world a)"
      "w_fault (ag_world a) (Sc_unlink (sent_meta a (next_uuid a))) = None"
  shows "\<not> is_system_error e \<and> (\<exists>j. file_at (ag_world b) (sent_meta a (next_uuid a)) = Some j)
    \<and> (\<forall>p q. file_at (ag_world a) p = Some q \<longrightarrow> file_at (ag_world b) p = Some q)"
  using send_file_cases [OF fresh ok(3), of X req]
proof (elim disjE exE conjE)
  fix i w
  let ?src = "sr_filepath req" and ?d = "sent_data a (next_uuid a)" and ?m = "sent_meta a (next_uuid a)"
  let ?fi = "(info_for X (ag_world a) ?src i)\<lparr>fi_id := next_uuid a\<rparr>"
  assume an: "announced X req a i w" and sf: "send_file X req a =
      (case move_file X (min_free_disk a) (min_free_pct a) ?src ?d ?fi w of
         (Inr _, v) \<Rightarrow> (Inr (good (next_uuid a)), a\<lparr>ag_world := v\<rparr>)
       | (Inl e, v) \<Rightarrow> if is_system_error e
           then (Inr (bad (what (x_strerror X) e)), a\<lparr>ag_world := snd (sys_unlink ?m v)\<rparr>) else (Inl e, a\<lparr>ag_world := v\<rparr>))"
  obtain v where mv: "move_file X (min_free_disk a) (min_free_pct a) ?src ?d ?fi w = (Inl e, v)"
    and b: "ag_world b = v" "\<not> is_system_error e"
    using run sf by (auto split: prod.splits sum.splits if_splits)
  note f = announced_failed [OF an fresh ok(2,1) mv]
  have "file_at v p = Some q" if "file_at (ag_world a) p = Some q" for p q
    using f(2) [of p] that fresh by (cases "p = ?m") auto
  then show ?thesis using f(1) b by auto
qed (use run in auto)

section \<open>Witnesses\<close>

text \<open>
  An agent with its working directory on the second file system, a request to send \<^verbatim>\<open>/a/f\<close>, and
  JSON code that knows one document.
\<close>

definition demo_req :: SendFileRequest where
  "demo_req = \<lparr>sr_destination = ''ground'', sr_filepath = ''/a/f'', sr_topic = ''t-1'',
     sr_options = \<lparr>so_ttl = \<lparr>ttl_urgent = 9000, ttl_bulk = 43200, ttl_surplus = 172800\<rparr>, so_reliable = True\<rparr>\<rparr>"

definition demo_uuid :: string where
  "demo_uuid = ''00000000-0000-4000-8000-000000000000''"

definition demo_tm :: TransferMeta where
  "demo_tm = \<lparr>tm_meta_version = ''1.2'', tm_topic = ''t-1'', tm_destination = ''ground'', tm_node = ''sat'', tm_time = 100,
     tm_file_info = demo_info\<lparr>fi_id := demo_uuid\<rparr>, tm_send_options = sr_options demo_req\<rparr>"

definition demo_parse :: "bytes \<Rightarrow> exn + TransferMeta" where
  "demo_parse bs = (if bs = [123, 125] then Inr demo_tm else Inl (json_parse_error ''unexpected end of input''))"

definition demo_ext :: ext where
  "demo_ext = \<lparr>x_crc32 = (\<lambda>c bs. c + sum_list (map ucast bs)), x_crc_init = 0, x_strerror = (\<lambda>_. ''error''),
     x_print_meta = (\<lambda>tm. if tm = demo_tm then [123, 125] else []), x_parse_meta = demo_parse,
     x_api_version = ''1.2'', x_release_version = ''1.0'', x_build_version = ''b1'',
     x_uname = Inr (''sat'', ''armv7''), x_getpwuid = (\<lambda>n. if n < 256 then Inl ERANGE else Inr (Some ''oort''))\<rparr>"

definition demo_cfg :: AgentConfig where
  "demo_cfg = \<lparr>initialized = True, wantUsage = False, cfg_workdir = ''/b'', minFreeMb = -1, minFreePct = -1, cleanupInterval = 3600,
     maxAge = 86400, port = 2005, can_interface = [], can_interface_enabled = False, uavcan_node_id = 0, shim_node_id = 50,
     use_defaults = \<lparr>ud_minfree = True, ud_interval = True, ud_maxage = True, ud_port = True, ud_loglevel = True,
       ud_shim_node_id = True\<rparr>\<rparr>"

definition demo_agent :: "(syscall \<Rightarrow> errno option) \<Rightarrow> agent" where
  "demo_agent f = fst (projr (fst (new_agent demo_ext demo_cfg (two_disks f))))"

text \<open>Two ways to fail: the copy is refused, or the rename of the source.\<close>

definition copy_refused :: "syscall \<Rightarrow> errno option" where
  "copy_refused c = (case c of Sc_write p n \<Rightarrow> if p = ''/b/transfers/file_move_x'' then Some ENOSPC else None | _ \<Rightarrow> None)"

definition source_stuck :: "syscall \<Rightarrow> errno option" where
  "source_stuck c = (case c of Sc_rename p q \<Rightarrow> if p = ''/a/f'' then Some EACCES else None | _ \<Rightarrow> None)"

lemma create_dirs_env: "create_dirs ds w = (r, v) \<Longrightarrow> same_env w v"
proof -
  have "stable (only_files UNIV) (create_dirs ds)"
  proof (induction ds)
    case (Cons d ds)
    have "stable (only_files UNIV) (sys_mkdir d m)" for m
      using stable_sys_mkdir stable_only_files_mono by blast
    with Cons.IH show ?case unfolding create_dirs.simps by (intro frame_intros)
  qed (simp add: stable_def)
  then show "create_dirs ds w = (r, v) \<Longrightarrow> same_env w v" using stableD by (fastforce simp: only_files_def)
qed

lemma new_agent_env: "new_agent X cfg w = (Inr (a, c), v) \<Longrightarrow> same_env w (ag_world a)"
  by (auto simp: new_agent_def Let_def simp del: create_dirs.simps split: if_splits sum.splits prod.splits
      dest: create_dirs_env)

lemma demo_agent_new:
  assumes "f = (\<lambda>_. None) \<or> f = copy_refused \<or> f = source_stuck"
  shows "\<exists>c v. new_agent demo_ext demo_cfg (two_disks f) = (Inr (demo_agent f, c), v)"
proof -
  have "\<not> isl (fst (new_agent demo_ext demo_cfg (two_disks (\<lambda>_. None))))"
    "\<not> isl (fst (new_agent demo_ext demo_cfg (two_disks copy_refused)))"
    "\<not> isl (fst (new_agent demo_ext demo_cfg (two_disks source_stuck)))" by code_simp+
  then have "\<not> isl (fst (new_agent demo_ext demo_cfg (two_disks f)))" using assms by auto
  then show ?thesis
    by (cases "new_agent demo_ext demo_cfg (two_disks f)"; cases "fst (new_agent demo_ext demo_cfg (two_disks f))")
      (auto simp: demo_agent_def)
qed

lemma demo_fault:
  assumes "f = (\<lambda>_. None) \<or> f = copy_refused \<or> f = source_stuck"
  shows "w_fault (ag_world (demo_agent f)) = f"
  using demo_agent_new [OF assms] new_agent_env two_disks_fault [of f] by (fastforce simp: same_env_def)

lemma demo_fs_env:
  "fs_env ''/a/f'' (ag_world (demo_agent (\<lambda>_. None)))" "fs_env ''/a/f'' (ag_world (demo_agent copy_refused))"
  "fs_env ''/a/f'' (ag_world (demo_agent source_stuck))" by code_simp+

lemma demo_fresh:
  "file_at (ag_world (demo_agent (\<lambda>_. None))) (sent_meta (demo_agent (\<lambda>_. None)) (next_uuid (demo_agent (\<lambda>_. None)))) = None"
  "file_at (ag_world (demo_agent copy_refused)) (sent_meta (demo_agent copy_refused) (next_uuid (demo_agent copy_refused))) = None"
  "file_at (ag_world (demo_agent source_stuck)) (sent_meta (demo_agent source_stuck) (next_uuid (demo_agent source_stuck))) = None"
  by code_simp+

lemma demo_calls_ok: "calls_ok d (ag_world (demo_agent (\<lambda>_. None)))"
  by (simp add: calls_ok_def demo_fault)

lemma demo_undo: "undo_ok ''/a/f'' (ag_world (demo_agent copy_refused))" "undo_ok ''/a/f'' (ag_world (demo_agent source_stuck))"
  by (auto simp: undo_ok_def demo_fault copy_refused_def source_stuck_def temp_of_def dirname_def rfind_def)

lemma demo_source: "sr_filepath demo_req = ''/a/f''"
  by (simp add: demo_req_def)

theorem send_file_accepted_witness:
  "fst (send_file demo_ext demo_req (demo_agent (\<lambda>_. None))) = Inr (good demo_uuid)
   \<and> file_at (ag_world (snd (send_file demo_ext demo_req (demo_agent (\<lambda>_. None))))) ''/a/f'' = None"
proof -
  let ?a = "demo_agent (\<lambda>_. None)"
  have run: "fst (send_file demo_ext demo_req ?a) = Inr (good demo_uuid)" by code_simp
  then have "send_file demo_ext demo_req ?a = (Inr (good demo_uuid), snd (send_file demo_ext demo_req ?a))"
    by (simp add: prod_eq_iff)
  from send_file_accepted [OF this demo_fresh(1) demo_calls_ok] run show ?thesis
    by (simp add: demo_source demo_fs_env demo_fault)
qed

theorem send_file_refused_witness:
  "fst (send_file demo_ext demo_req (demo_agent source_stuck)) = Inr (bad ''Error renaming: error'')
   \<and> untouched ''/a/f'' (sent_data (demo_agent source_stuck) (next_uuid (demo_agent source_stuck)))
       (ag_world (demo_agent source_stuck)) (ag_world (snd (send_file demo_ext demo_req (demo_agent source_stuck))))"
proof -
  let ?a = "demo_agent source_stuck"
  have run: "fst (send_file demo_ext demo_req ?a) = Inr (bad ''Error renaming: error'')" by code_simp
  then have "send_file demo_ext demo_req ?a = (Inr (bad ''Error renaming: error''), snd (send_file demo_ext demo_req ?a))"
    by (simp add: prod_eq_iff)
  from send_file_refused [OF this demo_fresh(3)] run show ?thesis
    by (simp add: demo_source demo_fs_env demo_fault demo_undo source_stuck_def)
qed

theorem send_file_escape_witness:
  "fst (send_file demo_ext demo_req (demo_agent copy_refused)) = Inl (runtime_error ''move_file: CRC Check failed on written file'')
   \<and> (\<exists>j. file_at (ag_world (snd (send_file demo_ext demo_req (demo_agent copy_refused))))
        (sent_meta (demo_agent copy_refused) (next_uuid (demo_agent copy_refused))) = Some j)"
proof -
  let ?a = "demo_agent copy_refused" and ?e = "runtime_error ''move_file: CRC Check failed on written file''"
  have run: "fst (send_file demo_ext demo_req ?a) = Inl ?e" by code_simp
  then have "send_file demo_ext demo_req ?a = (Inl ?e, snd (send_file demo_ext demo_req ?a))" by (simp add: prod_eq_iff)
  from send_file_escape [OF this demo_fresh(2)] run show ?thesis
    by (simp add: demo_source demo_fs_env demo_fault demo_undo copy_refused_def)
qed


end
