(* ===== verification/Oort_Handlers.thy ===== *)
theory Oort_Handlers
  imports Oort_Agent
begin

text \<open>
  Properties of the remaining handlers of \<^verbatim>\<open>impl/Agent.cpp\<close>: the dead-letter box, reading metadata
  through the cache, \<open>meta\<close>, \<open>retrieve_file\<close>, \<open>query_available\<close> and the collector's handshake.
\<close>

section \<open>The dead-letter box\<close>

text \<open>
  A file that is at \<open>s\<close>, or has been moved from there to \<open>t\<close>.
\<close>

definition kept :: "inode \<Rightarrow> path \<Rightarrow> path \<Rightarrow> world \<Rightarrow> bool" where
  "kept i s t w \<longleftrightarrow> file_at w s = Some i \<or> (file_at w s = None \<and> file_at w t = Some i)"

lemma kept_rename:
  assumes "kept i s t w" and "i_kind i \<noteq> Dir"
  shows "kept i s t (snd (sys_rename s t w))"
proof (cases "sys_rename s t w")
  case (Pair r v)
  show ?thesis
  proof (cases r)
    case (Inl e)
    then have "quiet w v" using Pair sys_rename_Inl by blast
    then show ?thesis using assms Pair by (simp add: kept_def quiet_simps)
  next
    case (Inr x)
    then have rn: "sys_rename s t w = (Inr (), v)" using Pair by simp
    then obtain j where "file_at w s = Some j"
      by (auto simp: sys_rename_def guard_fault_def fail_def split: option.splits)
    then have "file_at w s = Some i" using assms(1) by (auto simp: kept_def)
    from sys_rename_plain(1) [OF rn this assms(2)] show ?thesis using Pair by (simp add: kept_def)
  qed
qed

lemma kept_other_rename:
  assumes "kept i s t w" and "s \<notin> tree p \<union> tree q" "t \<notin> tree p \<union> tree q"
  shows "kept i s t (snd (sys_rename p q w))"
proof -
  have "only_files (tree p \<union> tree q) w (snd (sys_rename p q w))"
    using stable_sys_rename by (simp add: stable_def)
  with assms show ?thesis by (simp add: kept_def only_files_def)
qed

lemma twin_not_in_tree [simp]: "b @ DATA_EXT \<notin> tree (b @ META_EXT)" "b @ META_EXT \<notin> tree (b @ DATA_EXT)"
  by (auto simp: tree_def META_EXT_def DATA_EXT_def)

text \<open>The directories of an agent, as its constructor lays them out.\<close>

definition agent_dirs :: "'z agent_scheme \<Rightarrow> bool" where
  "agent_dirs a \<longleftrightarrow> transfer_dir a = workdir a @ ''/transfers'' \<and> upload_dir a = workdir a @ ''/uploads''
     \<and> upgrade_dir a = workdir a @ ''/upgrades'' \<and> deadletter_dir a = workdir a @ ''/dead''"

lemma new_agent_dirs: "new_agent X cfg w = (Inr (a, c), v) \<Longrightarrow> agent_dirs a \<and> m_cleanupDirs c =
    [transfer_dir a, upload_dir a, upgrade_dir a, deadletter_dir a]"
  by (auto simp: new_agent_def agent_dirs_def Let_def setMaxAge_def setCleanupInterval_def setCleanupDirs_def
      split: if_splits sum.splits prod.splits)

lemma below_upload_not_dead:
  "wd @ ''/uploads/'' @ x \<notin> tree (wd @ ''/dead/'' @ y)" "wd @ ''/dead/'' @ y \<notin> tree (wd @ ''/uploads/'' @ x)"
  "wd @ ''/transfers/'' @ x \<notin> tree (wd @ ''/dead/'' @ y)" "wd @ ''/dead/'' @ y \<notin> tree (wd @ ''/transfers/'' @ x)"
  by (auto simp: tree_def prefix_def)

lemma tailname_ext: "CHR ''/'' \<in> set b \<Longrightarrow> CHR ''/'' \<notin> set e \<Longrightarrow> tailname (b @ e) = tailname b @ e"
proof -
  assume b: "CHR ''/'' \<in> set b" and e: "CHR ''/'' \<notin> set e"
  then obtain x y where xy: "b = x @ ''/'' @ y" "CHR ''/'' \<notin> set y" using split_last_occ [of "CHR ''/''" b] by auto
  have "tailname (x @ ''/'' @ (y @ e)) = y @ e" by (rule tailname_slash) (use xy(2) e in auto)
  moreover have "tailname (x @ ''/'' @ y) = y" by (rule tailname_slash [OF xy(2)])
  ultimately show ?thesis using xy(1) by simp
qed

lemma no_slash_ext [simp]: "CHR ''/'' \<notin> set DATA_EXT" "CHR ''/'' \<notin> set META_EXT"
  by (simp_all add: META_EXT_def DATA_EXT_def)

text \<open>The two steps of \<open>endeaden\<close> on an upload, in the order of either file of the pair.\<close>

lemma kept_endeaden_pair:
  assumes "kept i (b @ DATA_EXT) (wd @ ''/dead/'' @ tailname b @ DATA_EXT) w" and "i_kind i \<noteq> Dir"
    and b: "b = wd @ ''/uploads/'' @ x"
  shows "kept i (b @ DATA_EXT) (wd @ ''/dead/'' @ tailname b @ DATA_EXT)
      (snd (endeaden_pair (wd @ ''/dead'') (b @ DATA_EXT) (b @ META_EXT) w))"
    and "kept i (b @ DATA_EXT) (wd @ ''/dead/'' @ tailname b @ DATA_EXT)
      (snd (endeaden_pair (wd @ ''/dead'') (b @ META_EXT) (b @ DATA_EXT) w))"
proof -
  let ?s = "b @ DATA_EXT" and ?t = "wd @ ''/dead/'' @ tailname b @ DATA_EXT"
  let ?m = "b @ META_EXT" and ?n = "wd @ ''/dead/'' @ tailname b @ META_EXT"
  have tn: "(wd @ ''/dead'') @ ''/'' @ tailname ?s = ?t" "(wd @ ''/dead'') @ ''/'' @ tailname ?m = ?n"
    using tailname_ext [of b] by (simp_all add: b)
  have ds: "?s = wd @ ''/uploads/'' @ (x @ DATA_EXT)" "?m = wd @ ''/uploads/'' @ (x @ META_EXT)" by (simp_all add: b)
  have "?s \<notin> tree ?n" unfolding ds by (rule below_upload_not_dead(1))
  moreover have "?t \<notin> tree ?m" unfolding ds by (rule below_upload_not_dead(2))
  moreover have "?t \<notin> tree ?n" using twin_not_in_tree(1) [of "wd @ ''/dead/'' @ tailname b"] by simp
  ultimately have out: "?s \<notin> tree ?m \<union> tree ?n" "?t \<notin> tree ?m \<union> tree ?n"
    using twin_not_in_tree(1) [of b] by blast+
  show "kept i ?s ?t (snd (endeaden_pair (wd @ ''/dead'') ?s ?m w))"
    unfolding endeaden_pair_def tn
    using kept_other_rename [OF kept_rename [OF assms(1,2)] out] by (simp add: seqE_def ignore_def)
  show "kept i ?s ?t (snd (endeaden_pair (wd @ ''/dead'') ?m ?s w))"
    unfolding endeaden_pair_def tn
    using kept_rename [OF kept_other_rename [OF assms(1) out] assms(2)] by (simp add: seqE_def ignore_def)
qed

lemma endeaden_eq:
  assumes "prefix (upload_dir a) b \<or> prefix (transfer_dir a) b"
  shows "endeaden (b @ DATA_EXT) a = onworld (endeaden_pair (deadletter_dir a) (b @ DATA_EXT) (b @ META_EXT)) a"
    and "endeaden (b @ META_EXT) a = onworld (endeaden_pair (deadletter_dir a) (b @ META_EXT) (b @ DATA_EXT)) a"
proof -
  have "starts_with (b @ e) (transfer_dir a) \<or> starts_with (b @ e) (upload_dir a) \<or> starts_with (b @ e) (upgrade_dir a)" for e
    using assms by (auto simp: starts_with_iff)
  note in_dirs = this [of DATA_EXT] this [of META_EXT]
  have "ends_with (b @ e) e" for e by (simp add: ends_with_iff suffix_def)
  moreover have "\<not> ends_with (b @ DATA_EXT) META_EXT" by (simp add: ends_with_iff)
  ultimately show "endeaden (b @ DATA_EXT) a = onworld (endeaden_pair (deadletter_dir a) (b @ DATA_EXT) (b @ META_EXT)) a"
    "endeaden (b @ META_EXT) a = onworld (endeaden_pair (deadletter_dir a) (b @ META_EXT) (b @ DATA_EXT)) a"
    using in_dirs by (auto simp: endeaden_def seqE_gets)
qed

text \<open>The same for the whole call: the agent's configuration stays, the upload is kept.\<close>

definition upload_kept :: "inode \<Rightarrow> string \<Rightarrow> 'z agent_scheme \<Rightarrow> bool" where
  "upload_kept i x a \<longleftrightarrow> kept i (upload_dir a @ ''/'' @ x @ DATA_EXT)
     (deadletter_dir a @ ''/'' @ tailname (upload_dir a @ ''/'' @ x) @ DATA_EXT) (ag_world a)"

definition same_setup :: "'z agent_scheme \<Rightarrow> 'z agent_scheme \<Rightarrow> bool" where
  "same_setup a b \<longleftrightarrow> workdir b = workdir a \<and> transfer_dir b = transfer_dir a \<and> upload_dir b = upload_dir a
     \<and> upgrade_dir b = upgrade_dir a \<and> deadletter_dir b = deadletter_dir a \<and> same_env (ag_world a) (ag_world b)"

lemma endeaden_pair_run: "endeaden_pair d p q w = (Inr (), snd (endeaden_pair d p q w))"
  by (simp add: endeaden_pair_def seqE_def ignore_def)

lemma upload_kept_endeaden:
  assumes "agent_dirs a" and "upload_kept i x a" and "i_kind i \<noteq> Dir"
    and f: "f = upload_dir a @ ''/'' @ x @ DATA_EXT \<or> f = upload_dir a @ ''/'' @ x @ META_EXT"
  shows "\<exists>v. endeaden f a = (Inr (), a\<lparr>ag_world := v\<rparr>) \<and> upload_kept i x (a\<lparr>ag_world := v\<rparr>)"
proof -
  define b where "b = upload_dir a @ ''/'' @ x"
  have dirs: "upload_dir a = workdir a @ ''/uploads''" "deadletter_dir a = workdir a @ ''/dead''"
    using assms(1) by (simp_all add: agent_dirs_def)
  have b: "b = workdir a @ ''/uploads/'' @ x" by (simp add: b_def dirs)
  have k: "kept i (b @ DATA_EXT) (workdir a @ ''/dead/'' @ tailname b @ DATA_EXT) (ag_world a)"
    using assms(2) by (simp add: upload_kept_def b_def dirs)
  have pre: "prefix (upload_dir a) b \<or> prefix (transfer_dir a) b" by (simp add: b_def)
  have uk: "upload_kept i x (a\<lparr>ag_world := v\<rparr>) = kept i (b @ DATA_EXT) (workdir a @ ''/dead/'' @ tailname b @ DATA_EXT) v" for v
    by (simp add: upload_kept_def b_def dirs)
  have run: "onworld (endeaden_pair (deadletter_dir a) p q) a
      = (Inr (), a\<lparr>ag_world := snd (endeaden_pair (deadletter_dir a) p q (ag_world a))\<rparr>)" for p q
    by (rule onworld_eq [OF endeaden_pair_run])
  from f have "f = b @ DATA_EXT \<or> f = b @ META_EXT" by (simp add: b_def)
  then show ?thesis
  proof
    assume f: "f = b @ DATA_EXT"
    show ?thesis unfolding f endeaden_eq(1) [OF pre] uk
      using run [of "b @ DATA_EXT" "b @ META_EXT"] kept_endeaden_pair(1) [OF k assms(3) b] unfolding dirs(2) by blast
  next
    assume f: "f = b @ META_EXT"
    show ?thesis unfolding f endeaden_eq(2) [OF pre] uk
      using run [of "b @ META_EXT" "b @ DATA_EXT"] kept_endeaden_pair(2) [OF k assms(3) b] unfolding dirs(2) by blast
  qed
qed


section \<open>Metadata through the cache\<close>

text \<open>A cached call answers from the table, or does exactly what the wrapped function does.\<close>

lemma cache_get_outcome:
  assumes "cache_get t1 t2 now t4 fn k c s = (r, c', s')"
  shows "(\<exists>v. r = Inr v \<and> (s' = s \<or> (\<exists>v'. fn k s = (Inr v', s')))) \<or> (\<exists>e. r = Inl e \<and> fn k s = (Inl e, s'))"
proof -
  have at: "map_of (cache_contents (emplace k e d)) k \<noteq> None" for e and d :: "'a cache"
    by (auto simp: emplace_def split: option.splits)
  obtain r0 s0 where fn: "fn k s = (r0, s0)" by (cases "fn k s")
  show ?thesis
    using assms fn unfolding cache_get_def Let_def
    by (cases r0) (auto split: if_splits option.splits simp: cache_at_def at)
qed

lemma read_transfer_meta_Inr:
  assumes "read_transfer_meta X p a = (Inr tm, b)"
  shows "b = a \<and> (\<exists>m. file_at (ag_world a) p = Some m \<and> w_fault (ag_world a) (Sc_open p) = None
    \<and> x_parse_meta X (if w_fault (ag_world a) (Sc_read p 0) = None then i_data m else []) = Inr tm)"
  using assms
  by (auto simp: read_transfer_meta_def seqE_def onworld_def attempt_def sys_open_def guard_fault_def fail_def
      catchE_def stream_data_def split: option.splits sum.splits if_splits prod.splits)

lemma endeaden_run: "\<exists>w. endeaden f a = (Inr (), a\<lparr>ag_world := w\<rparr>) \<and> same_env (ag_world a) w"
proof -
  have pair: "\<exists>w. onworld (endeaden_pair d p q) a = (Inr (), a\<lparr>ag_world := w\<rparr>) \<and> same_env (ag_world a) w" for d p q
  proof -
    have "stable (only_files UNIV) (endeaden_pair d p q)"
      unfolding endeaden_pair_def by (intro frame_intros stable_UNIV_calls)
    then have "same_env (ag_world a) (snd (endeaden_pair d p q (ag_world a)))" by (simp add: stable_def only_files_def)
    moreover have "onworld (endeaden_pair d p q) a = (Inr (), a\<lparr>ag_world := snd (endeaden_pair d p q (ag_world a))\<rparr>)"
      by (rule onworld_eq [OF endeaden_pair_run])
    ultimately show ?thesis by blast
  qed
  have self: "\<exists>w. (Inr (), a) = (Inr (), a\<lparr>ag_world := w\<rparr>) \<and> same_env (ag_world a) w"
    by (intro exI [of _ "ag_world a"]) simp
  have m: "\<exists>s. data_file f = Inr s" if "ends_with f META_EXT" using that by (auto simp: ends_with_iff suffix_def)
  have d: "\<exists>s. meta_file f = Inr s" if "ends_with f DATA_EXT" using that by (auto simp: ends_with_iff suffix_def)
  show ?thesis
    using pair self m d unfolding endeaden_def seqE_gets by (auto split: if_splits)
qed

lemma read_transfer_meta_Inl:
  assumes "read_transfer_meta X p a = (Inl e, b)" and "json_errors X"
  shows "is_runtime_error e \<and> \<not> is_system_error e
    \<and> (\<exists>w. quiet (ag_world a) w \<and> endeaden p (a\<lparr>ag_world := w\<rparr>) = (Inr (), b))"
proof -
  obtain r w where op: "sys_open p (ag_world a) = (r, w)" by (cases "sys_open p (ag_world a)")
  have q: "quiet (ag_world a) w"
    using op by (auto simp: sys_open_def guard_fault_def fail_def quiet_def same_env_def split: option.splits)
  obtain v where en: "endeaden p (a\<lparr>ag_world := w\<rparr>) = (Inr (), v)" using endeaden_run by blast
  show ?thesis
  proof (cases r)
    case (Inl x)
    with op en assms(1) have "e = runtime_error ''error reading metadata''" "b = v"
      by (auto simp: read_transfer_meta_def seqE_def onworld_def attempt_def)
    with q en show ?thesis by auto
  next
    case (Inr x)
    obtain bs where bs: "stream_data p w = (Inr bs, w)" by (simp add: stream_data_def)
    show ?thesis
    proof (cases "x_parse_meta X bs")
      case (Inl x)
      then have "is_json_exception x" using assms(2) by (simp add: json_errors_def)
      with Inl op en assms(1) Inr bs have "e = runtime_error ''error parsing metadata''" "b = v"
        by (auto simp: read_transfer_meta_def seqE_def onworld_def attempt_def catchE_def)
      with q en show ?thesis by auto
    next
      case (Inr tm)
      with \<open>r = Inr x\<close> op assms(1) bs show ?thesis
        by (auto simp: read_transfer_meta_def seqE_def onworld_def attempt_def catchE_def)
    qed
  qed
qed

lemma read_cached_cases:
  assumes "read_transfer_meta_cached X p a = (r, b)" and "json_errors X"
  shows "(\<exists>tm w c. r = Inr tm \<and> quiet (ag_world a) w \<and> b = a\<lparr>ag_world := w, meta_cache := c\<rparr>)
    \<or> (\<exists>e w c b'. r = Inl e \<and> is_runtime_error e \<and> \<not> is_system_error e \<and> quiet (ag_world a) w
         \<and> endeaden p (a\<lparr>ag_world := w\<rparr>) = (Inr (), b') \<and> b = b'\<lparr>meta_cache := c\<rparr>)"
proof -
  obtain t1 t2 t3 t4 w where cl: "clock4 (ag_world a) = ((t1, t2, t3, t4), w)"
    by (metis prod.collapse)
  have q: "quiet (ag_world a) w" using clock4_props [OF cl] by (simp add: quiet_def)
  let ?a = "a\<lparr>ag_world := w\<rparr>"
  obtain r0 c b' where g: "cache_get t1 t2 t3 t4 (read_transfer_meta X) p (meta_cache ?a) ?a = (r0, c, b')"
    by (metis prod.collapse)
  with assms(1) cl have rb: "r = r0" "b = b'\<lparr>meta_cache := c\<rparr>"
    by (auto simp: read_transfer_meta_cached_def cached_def Let_def)
  from cache_get_outcome [OF g] show ?thesis
  proof (elim disjE exE conjE)
    fix v assume "r0 = Inr v" "b' = ?a"
    then show ?thesis using rb q by auto
  next
    fix v v' assume "r0 = Inr v" "read_transfer_meta X p ?a = (Inr v', b')"
    then have "b' = ?a" using read_transfer_meta_Inr by blast
    then show ?thesis using rb q \<open>r0 = Inr v\<close> by auto
  next
    fix e assume e: "r0 = Inl e" "read_transfer_meta X p ?a = (Inl e, b')"
    from read_transfer_meta_Inl [OF e(2) assms(2)] obtain w' where
      "is_runtime_error e" "\<not> is_system_error e" "quiet w w'" "endeaden p (a\<lparr>ag_world := w'\<rparr>) = (Inr (), b')" by auto
    then show ?thesis using rb e(1) quiet_trans [OF q] by blast
  qed
qed


section \<open>retrieve\_file\<close>

definition upload_data :: "'z agent_scheme \<Rightarrow> string \<Rightarrow> path" where
  "upload_data a x = upload_dir a @ ''/'' @ x @ DATA_EXT"

definition upload_meta :: "'z agent_scheme \<Rightarrow> string \<Rightarrow> path" where
  "upload_meta a x = upload_dir a @ ''/'' @ x @ META_EXT"

text \<open>
  A request is refused before anything is touched, or the metadata cannot be read and the pair
  goes to the dead-letter box, or the move decides.
\<close>

lemma retrieve_file_cases:
  fixes a :: "'z agent_scheme"
  assumes js: "json_errors X" and run: "retrieve_file X req a = (r, b)"
  shows "(\<exists>m w. r = Inr (bad m) \<and> b = a\<lparr>ag_world := w\<rparr> \<and> quiet (ag_world a) w)
    \<or> (\<exists>m w b1 c b2. r = Inr (bad m) \<and> quiet (ag_world a) w \<and> endeaden (upload_meta a (rr_id req)) (a\<lparr>ag_world := w\<rparr>) = (Inr (), b1)
         \<and> endeaden (upload_data a (rr_id req)) (b1\<lparr>meta_cache := c\<rparr>) = (Inr (), b2) \<and> b = b2)
    \<or> (\<exists>(tm :: TransferMeta) w c mr v. checkPath (rr_save_path req) \<and> quiet (ag_world a) w
         \<and> (\<exists>w1 b1. quiet (ag_world a) w1 \<and> read_transfer_meta_cached X (upload_meta a (rr_id req)) (a\<lparr>ag_world := w1\<rparr>) = (Inr tm, b1))
         \<and> move_file X (min_free_disk a) (min_free_pct a) (upload_data a (rr_id req)) (rr_save_path req) (tm_file_info tm) w = (mr, v)
         \<and> (case mr of
              Inr _ \<Rightarrow> r = Inr (good (tm_file_info tm))
                 \<and> b = a\<lparr>ag_world := snd (sys_unlink (upload_meta a (rr_id req)) v), meta_cache := c\<rparr>
            | Inl e \<Rightarrow> if is_system_error e then (\<exists>m. r = Inr (bad m)) \<and> b = a\<lparr>ag_world := v, meta_cache := c\<rparr>
                 else if is_runtime_error e then (\<exists>m. r = Inr (bad m))
                   \<and> endeaden (upload_data a (rr_id req)) (a\<lparr>ag_world := v, meta_cache := c\<rparr>) = (Inr (), b)
                 else r = Inl e \<and> b = a\<lparr>ag_world := v, meta_cache := c\<rparr>))"
proof (cases "checkPath (rr_save_path req)")
  case False
  then show ?thesis using run
    by (auto simp: retrieve_file_def seqE_gets Let_def quiet_def intro!: exI [of _ "ag_world a"])
next
  case path: True
  let ?d = "upload_data a (rr_id req)" and ?m = "upload_meta a (rr_id req)"
  obtain r1 w1 where ac: "sys_access ?m R_OK (ag_world a) = (r1, w1)" by (cases "sys_access ?m R_OK (ag_world a)")
  have q1: "quiet (ag_world a) w1"
    using ac by (auto simp: sys_access_def guard_fault_def fail_def quiet_def same_env_def split: option.splits)
  show ?thesis
  proof (cases r1)
    case (Inl e)
    with ac path run q1 show ?thesis
      by (auto simp: retrieve_file_def seqE_gets Let_def seqE_onworld attempt_def OSError_def upload_meta_def)
  next
    case (Inr x)
    let ?a = "a\<lparr>ag_world := w1\<rparr>"
    obtain r2 b2 where rc: "read_transfer_meta_cached X ?m ?a = (r2, b2)" by (cases "read_transfer_meta_cached X ?m ?a")
    from read_cached_cases [OF rc js] show ?thesis
    proof (elim disjE exE conjE)
      fix e w c b1
      assume e: "r2 = Inl e" "is_runtime_error e" "\<not> is_system_error e" "quiet (ag_world ?a) w"
        "endeaden ?m (?a\<lparr>ag_world := w\<rparr>) = (Inr (), b1)" "b2 = b1\<lparr>meta_cache := c\<rparr>"
      obtain w' where en: "endeaden ?d b2 = (Inr (), b2\<lparr>ag_world := w'\<rparr>)" using endeaden_run [of ?d b2] by blast
      have "\<exists>m. r = Inr (bad m) \<and> b = b2\<lparr>ag_world := w'\<rparr>"
        using run path ac Inr rc e(1-3) en
        by (simp add: retrieve_file_def seqE_gets Let_def seqE_onworld attempt_def upload_meta_def upload_data_def)
          (auto simp: seqE_def catchE_def)
      moreover have "quiet (ag_world a) w" using quiet_trans [OF q1] e(4) by simp
      ultimately show ?thesis using e(5,6) en by auto
    next
      fix tm w c
      assume t: "r2 = Inr tm" "quiet (ag_world ?a) w" "b2 = ?a\<lparr>ag_world := w, meta_cache := c\<rparr>"
      obtain mr v where mv: "move_file X (min_free_disk a) (min_free_pct a) ?d (rr_save_path req) (tm_file_info tm) w = (mr, v)"
        by (cases "move_file X (min_free_disk a) (min_free_pct a) ?d (rr_save_path req) (tm_file_info tm) w")
      let ?b = "a\<lparr>ag_world := v, meta_cache := c\<rparr>"
      obtain w' where en: "endeaden ?d ?b = (Inr (), ?b\<lparr>ag_world := w'\<rparr>)" using endeaden_run [of ?d ?b] by blast
      have sw: "a\<lparr>meta_cache := c, ag_world := u\<rparr> = a\<lparr>ag_world := u, meta_cache := c\<rparr>" for u by simp
      have "case mr of
          Inr _ \<Rightarrow> r = Inr (good (tm_file_info tm)) \<and> b = a\<lparr>ag_world := snd (sys_unlink ?m v), meta_cache := c\<rparr>
        | Inl e \<Rightarrow> if is_system_error e then (\<exists>m. r = Inr (bad m)) \<and> b = ?b
             else if is_runtime_error e then (\<exists>m. r = Inr (bad m)) \<and> endeaden ?d ?b = (Inr (), b)
             else r = Inl e \<and> b = ?b"
        using run path ac Inr rc t(1,3) mv en is_system_error_runtime
        by (auto simp: retrieve_file_def seqE_gets Let_def seqE_onworld attempt_def upload_meta_def upload_data_def
            seqE_def catchE_def onworld_def ignore_def sw split: sum.splits if_splits)
      moreover have "quiet (ag_world a) w" using quiet_trans [OF q1] t(2) by simp
      moreover have "\<exists>w1 b1. quiet (ag_world a) w1 \<and> read_transfer_meta_cached X ?m (a\<lparr>ag_world := w1\<rparr>) = (Inr tm, b1)"
        using q1 rc t(1) by blast
      ultimately show ?thesis using path mv
        by blast
    qed
  qed
qed

lemma upload_kept_cache [simp]: "upload_kept i x (a\<lparr>meta_cache := c\<rparr>) = upload_kept i x a"
  "agent_dirs (a\<lparr>meta_cache := c\<rparr>) = agent_dirs a" "agent_dirs (a\<lparr>ag_world := w\<rparr>) = agent_dirs a"
  by (simp_all add: upload_kept_def agent_dirs_def)

lemma upload_kept_at: "file_at w (upload_data a x) = Some i \<Longrightarrow> upload_kept i x (a\<lparr>ag_world := w\<rparr>)"
  by (simp add: upload_kept_def kept_def upload_data_def)

lemma fs_env_quiet: "quiet w v \<Longrightarrow> fs_env src v = fs_env src w" "quiet w v \<Longrightarrow> undo_ok src v = undo_ok src w"
  "quiet w v \<Longrightarrow> calls_ok dest v = calls_ok dest w"
  by (simp_all add: fs_env_def undo_ok_def calls_ok_def quiet_simps)

text \<open>
  The name a source is set aside under is not one the dead-letter box looks at, given that the suffix \<open>mkdtemp\<close> makes
  up has no dot in it.
\<close>

definition no_dot :: "world \<Rightarrow> bool" where
  "no_dot w \<longleftrightarrow> list_all (\<lambda>x. CHR ''.'' \<notin> set x) (w_temp w)"

lemma set_aside_not_in_tree:
  assumes t: "t = dirname p @ ''/file_move_'' @ x @ ''/file_move''" and p: "p = b @ DATA_EXT" "CHR ''/'' \<in> set b" and x: "CHR ''.'' \<notin> set x"
  shows "t \<notin> tree (b @ DATA_EXT)" and "t \<notin> tree (b @ META_EXT)"
proof -
  obtain d y where b: "b = d @ ''/'' @ y" "CHR ''/'' \<notin> set y" using split_last_occ [OF p(2)] by auto
  have "dirname p = d" unfolding p(1) b(1) using b(2) dirname_slash [of "y @ DATA_EXT" d] by simp
  then have t: "t = d @ ''/file_move_'' @ x @ ''/file_move''" using t by simp
  have no: "CHR ''.'' \<notin> set (''/file_move_'' @ x @ ''/file_move'')" using x by simp
  have "\<not> prefix (b @ e) t" if "CHR ''.'' \<in> set e" for e
  proof
    assume "prefix (b @ e) t"
    then obtain z where "''/'' @ y @ e @ z = ''/file_move_'' @ x @ ''/file_move''" by (auto simp: t b(1) prefix_def)
    then have "CHR ''.'' \<notin> set (''/'' @ y @ e @ z)" using no by simp
    then show False using that by simp
  qed
  from this [of DATA_EXT] this [of META_EXT] have "\<not> prefix (b @ DATA_EXT) t" "\<not> prefix (b @ META_EXT) t"
    by (simp_all add: DATA_EXT_def META_EXT_def)
  then show "t \<notin> tree (b @ DATA_EXT)" "t \<notin> tree (b @ META_EXT)"
    by (auto simp: tree_def prefix_def)
qed

lemma endeaden_leaves_set_aside:
  assumes dirs: "agent_dirs a" and p: "p = upload_data a y" and st: "staged_name w0 p t" and nd: "no_dot w0"
    and run: "endeaden p a = (Inr (), b)"
  shows "file_at (ag_world b) t = file_at (ag_world a) t"
proof -
  define q where "q = upload_dir a @ ''/'' @ y"
  have ud: "upload_dir a = workdir a @ ''/uploads''" "deadletter_dir a = workdir a @ ''/dead''" using dirs by (simp_all add: agent_dirs_def)
  have pq: "p = q @ DATA_EXT" by (simp add: p q_def upload_data_def)
  obtain x where x: "t = dirname p @ ''/file_move_'' @ x @ ''/file_move''" "CHR ''.'' \<notin> set x"
    using st nd by (auto simp: staged_name_def no_dot_def list_all_iff)
  have sl: "CHR ''/'' \<in> set q" by (simp add: q_def)
  note out = set_aside_not_in_tree [OF x(1) pq sl x(2)]
  have "\<exists>z. dirname p @ ''/'' = workdir a @ ''/uploads/'' @ z"
  proof -
    show ?thesis
    proof (cases "CHR ''/'' \<in> set (y @ DATA_EXT)")
      case False
      then have "dirname p = upload_dir a" using dirname_slash [of "y @ DATA_EXT" "upload_dir a"] by (simp add: p upload_data_def)
      then show ?thesis by (simp add: ud)
    next
      case True
      then obtain d e where e: "y @ DATA_EXT = d @ CHR ''/'' # e" "CHR ''/'' \<notin> set e" using split_last_occ by metis
      then have "dirname p = upload_dir a @ ''/'' @ d" using dirname_slash [of e "upload_dir a @ ''/'' @ d"] by (simp add: p upload_data_def)
      then show ?thesis by (auto simp: ud)
    qed
  qed
  then obtain z where "dirname p @ ''/'' = workdir a @ ''/uploads/'' @ z" ..
  then have "t = workdir a @ ''/uploads/'' @ (z @ ''file_move_'' @ x @ ''/file_move'')" using x(1) by (simp add: append_eq_append_conv2) 
  then have dead: "t \<notin> tree (deadletter_dir a @ ''/'' @ s)" for s using below_upload_not_dead(1) ud(2) by simp
  have "stable (only_files (- {t})) (endeaden_pair (deadletter_dir a) (q @ DATA_EXT) (q @ META_EXT))"
    unfolding endeaden_pair_def using out dead
    by (intro frame_intros stable_only_files_mono [OF stable_sys_rename]) auto
  moreover have "endeaden p a = onworld (endeaden_pair (deadletter_dir a) (q @ DATA_EXT) (q @ META_EXT)) a"
    unfolding pq by (rule endeaden_eq(1)) (simp add: q_def)
  ultimately show ?thesis using run by (auto simp: onworld_def stable_def only_files_def split: prod.splits) (metis ComplD singletonI snd_conv)
qed

text \<open>
  (C6) An upload is never lost: whenever \<open>retrieve_file\<close> does not report success, whether it
  refuses the request, meets unreadable or corrupt metadata, a checksum that does not match, an
  error of the system or an exception it does not catch, the data is still under its name in the
  upload directory or, the name there being free, under the same name in the dead-letter box; or else the rename that
  was to put it back has failed, and it is under the temporary name in the upload directory it had been moved to.
\<close>

theorem retrieve_file_keeps_upload:
  assumes js: "json_errors X" and run: "retrieve_file X req a = (r, b)" and fail: "\<And>fi. r \<noteq> Inr (good fi)"
    and up: "file_at (ag_world a) (upload_data a (rr_id req)) = Some i" "i_kind i = Reg"
    and env: "agent_dirs a" "fs_env (upload_data a (rr_id req)) (ag_world a)" "no_dot (ag_world a)"
  shows "upload_kept i (rr_id req) b \<or> (\<exists>t. staged_name (ag_world a) (upload_data a (rr_id req)) t
    \<and> w_fault (ag_world a) (Sc_rename t (upload_data a (rr_id req))) \<noteq> None \<and> file_at (ag_world b) t = Some i)"
  using retrieve_file_cases [OF js run]
proof (elim disjE exE conjE)
  fix m w
  assume "b = a\<lparr>ag_world := w\<rparr>" "quiet (ag_world a) w"
  then show ?thesis using up(1) by (simp add: upload_kept_at quiet_simps)
next
  fix m w b1 c b2
  assume q: "quiet (ag_world a) w" and e1: "endeaden (upload_meta a (rr_id req)) (a\<lparr>ag_world := w\<rparr>) = (Inr (), b1)"
    and e2: "endeaden (upload_data a (rr_id req)) (b1\<lparr>meta_cache := c\<rparr>) = (Inr (), b2)" "b = b2"
  have k0: "upload_kept i (rr_id req) (a\<lparr>ag_world := w\<rparr>)" using up(1) q by (simp add: upload_kept_at quiet_simps)
  obtain v where b1: "b1 = a\<lparr>ag_world := v\<rparr>" "upload_kept i (rr_id req) b1"
    using upload_kept_endeaden [OF _ k0, of "upload_meta a (rr_id req)"] e1 env(1) up(2)
    by (auto simp: upload_meta_def)
  then show ?thesis
    using upload_kept_endeaden [of "b1\<lparr>meta_cache := c\<rparr>" i "rr_id req" "upload_data a (rr_id req)"] e2 env(1) up(2)
    by (auto simp: upload_data_def)
next
  fix tm w c mr v
  let ?d = "upload_data a (rr_id req)" and ?b = "a\<lparr>ag_world := v, meta_cache := c\<rparr>"
  assume q: "quiet (ag_world a) w"
    and mv: "move_file X (min_free_disk a) (min_free_pct a) ?d (rr_save_path req) (tm_file_info tm) w = (mr, v)"
    and res: "case mr of
              Inr _ \<Rightarrow> r = Inr (good (tm_file_info tm))
                 \<and> b = a\<lparr>ag_world := snd (sys_unlink (upload_meta a (rr_id req)) v), meta_cache := c\<rparr>
            | Inl e \<Rightarrow> if is_system_error e then (\<exists>m. r = Inr (bad m)) \<and> b = ?b
                 else if is_runtime_error e then (\<exists>m. r = Inr (bad m)) \<and> endeaden ?d ?b = (Inr (), b)
                 else r = Inl e \<and> b = ?b"
  obtain e where e: "mr = Inl e" using res fail by (cases mr) auto
  have qw: "w_temp w = w_temp (ag_world a)" using q by (simp add: quiet_def same_env_def)
  have en: "\<exists>v'. endeaden ?d ?b = (Inr (), ?b\<lparr>ag_world := v'\<rparr>)" using endeaden_run [of ?d ?b] by blast
  have "untouched ?d (rr_save_path req) w v \<or> set_aside ?d (rr_save_path req) w v"
    using env(2) mv e by (intro move_file_outcome [of X _ _ ?d]) (auto simp: fs_env_def quiet_simps [OF q])
  then show ?thesis
  proof
    assume "untouched ?d (rr_save_path req) w v"
    then have "file_at v ?d = Some i" using up(1) unfolding untouched_def quiet_simps [OF q] by (metis option.distinct(1))
    then have k: "upload_kept i (rr_id req) ?b" using upload_kept_at [of v a "rr_id req" i] by simp
    show ?thesis
    proof (cases "\<not> is_system_error e \<and> is_runtime_error e")
      case True
      then show ?thesis using res e upload_kept_endeaden [OF _ k, of ?d] env(1) up(2) by (auto simp: upload_data_def)
    next
      case False
      then have "b = ?b" using res e by (auto split: if_splits)
      then show ?thesis using k by simp
    qed
  next
    assume "set_aside ?d (rr_save_path req) w v"
    then obtain t where t: "staged_name (ag_world a) ?d t" "w_fault (ag_world a) (Sc_rename t ?d) \<noteq> None" "file_at v t = Some i"
      using up(1) by (auto simp: set_aside_def staged_name_def quiet_simps [OF q] qw)
    have "file_at (ag_world b) t = Some i" if "endeaden ?d ?b = (Inr (), b)"
      using endeaden_leaves_set_aside [of ?b ?d "rr_id req" "ag_world a" t b] that t(1,3) env(1,3) by (simp add: upload_data_def)
    then have "file_at (ag_world b) t = Some i" using res e t(3) by (auto split: if_splits)
    then show ?thesis using t by blast
  qed
qed

section \<open>send\_file and meta\<close>

lemma cached_absent:
  assumes c: "cache_wf (meta_cache a)" "cache_enabled (meta_cache a)" "map_of (cache_contents (meta_cache a)) p = None"
    and fn: "\<And>w. quiet (ag_world a) w \<Longrightarrow> read_transfer_meta X p (a\<lparr>ag_world := w\<rparr>) = (Inr tm, a\<lparr>ag_world := w\<rparr>)"
  shows "\<exists>b. read_transfer_meta_cached X p a = (Inr tm, b)"
proof -
  obtain t1 t2 t3 t4 w where cl: "clock4 (ag_world a) = ((t1, t2, t3, t4), w)"
    by (metis prod.collapse)
  note t = clock4_props [OF cl]
  have "quiet (ag_world a) w" using t by (simp add: quiet_def)
  note run = fn [OF this]
  have "live t3 (meta_cache (a\<lparr>ag_world := w\<rparr>)) p = None" using c(3) by (simp add: live_def)
  from agent_cache.miss [of "meta_cache (a\<lparr>ag_world := w\<rparr>)" t1 t2 t3 t4 p "read_transfer_meta X" "a\<lparr>ag_world := w\<rparr>" tm,
      OF _ _ t(1-3) this run] c(1,2)
  obtain c' where "cache_get t1 t2 t3 t4 (read_transfer_meta X) p (meta_cache (a\<lparr>ag_world := w\<rparr>)) (a\<lparr>ag_world := w\<rparr>)
      = (Inr tm, c', a\<lparr>ag_world := w\<rparr>)" by auto
  with cl show ?thesis by (auto simp: read_transfer_meta_cached_def cached_def Let_def)
qed

text \<open>
  What is sent can be asked for: after an accepted \<open>send_file\<close>, the collector's request for the
  metadata of the identifier returned answers with exactly the metadata that was composed for
  the request, given that the JSON code reads back what it wrote and that the metadata of this
  new identifier is not in the cache already.
\<close>

lemma send_then_meta:
  assumes "file_at (ag_world a) (sr_filepath req) = Some i"
    and "x_parse_meta X (x_print_meta X (meta_for X req a i)) = Inr (meta_for X req a i)"
    and "send_file X req a = (Inr (good uuid), b)"
    and "file_at (ag_world a) (sent_meta a (next_uuid a)) = None"
    and "calls_ok (sent_data a (next_uuid a)) (ag_world a)" "fs_env (sr_filepath req) (ag_world a)"
      "w_fault (ag_world a) (Sc_unlink (sent_meta a (next_uuid a))) = None"
      "w_fault (ag_world a) (Sc_flush (sent_meta a (next_uuid a))) = None"
    and "cache_wf (meta_cache a)" "cache_enabled (meta_cache a)"
      "map_of (cache_contents (meta_cache a)) (sent_meta a (next_uuid a)) = None"
  shows "\<exists>c. agent_meta X uuid b = (Inr (good (meta_for X req a i)), c)"
proof -
  note d = send_file_done [OF assms(3-8)]
  then obtain m where m: "file_at (ag_world b) (sent_meta a uuid) = Some m" "i_data m = x_print_meta X (meta_for X req a i)"
    and ub: "uuid = next_uuid a" and bv: "b = a\<lparr>ag_world := ag_world b\<rparr>" using assms(1) by auto
  have fl: "w_fault (ag_world b) = w_fault (ag_world a)"
    using d by (simp add: same_env_def)
  have "read_transfer_meta X (sent_meta a uuid) (b\<lparr>ag_world := w\<rparr>) = (Inr (meta_for X req a i), b\<lparr>ag_world := w\<rparr>)"
    if "quiet (ag_world b) w" for w
    using m fl assms(2,5) that
    by (simp add: read_transfer_meta_def seqE_def onworld_def attempt_def sys_open_def guard_fault_def catchE_def
        stream_data_def quiet_simps calls_ok_def)
  moreover obtain v where v: "b = a\<lparr>ag_world := v\<rparr>" using bv by blast
  ultimately obtain b' where "read_transfer_meta_cached X (sent_meta a uuid) b = (Inr (meta_for X req a i), b')"
    using cached_absent [of b "sent_meta a uuid" X] assms(9-11) ub v by auto
  then have "agent_meta X uuid b = (Inr (good (meta_for X req a i)), b')"
    using v
    by (simp add: agent_meta_def seqE_gets catchE_def seqE_def sent_meta_def)
  then show ?thesis by blast
qed

section \<open>Witnesses\<close>

text \<open>The same agent with an upload waiting in \<^verbatim>\<open>/b/uploads\<close>, to be saved on the first file system.\<close>

definition demo_upload :: "bytes \<Rightarrow> (syscall \<Rightarrow> errno option) \<Rightarrow> agent" where
  "demo_upload meta f = (let a = demo_agent f in a\<lparr>ag_world := (ag_world a)\<lparr>w_files :=
     [(''/b/uploads/1.meta.oort'', demo_file meta), (''/b/uploads/1.data.oort'', demo_file [1, 2, 3])] @ w_files (ag_world a)\<rparr>\<rparr>)"

definition demo_rr :: RetrieveFileRequest where
  "demo_rr = \<lparr>rr_id = ''1'', rr_save_path = ''/a/g''\<rparr>"

lemma demo_json_errors: "json_errors demo_ext"
  by (simp add: json_errors_def demo_ext_def demo_parse_def)

lemma demo_upload_fault: "w_fault (ag_world (demo_upload m (\<lambda>_. None))) = (\<lambda>_. None)"
  by (simp add: demo_upload_def Let_def demo_fault)

theorem retrieve_file_keeps_upload_witness:
  "fst (retrieve_file demo_ext demo_rr (demo_upload [0] (\<lambda>_. None))) = Inr (bad ''error parsing metadata'')
   \<and> upload_kept (demo_file [1, 2, 3]) ''1'' (snd (retrieve_file demo_ext demo_rr (demo_upload [0] (\<lambda>_. None))))"
proof -
  let ?a = "demo_upload [0] (\<lambda>_. None)"
  have run: "fst (retrieve_file demo_ext demo_rr ?a) = Inr (bad ''error parsing metadata'')" by code_simp
  then have eq: "retrieve_file demo_ext demo_rr ?a = (Inr (bad ''error parsing metadata''), snd (retrieve_file demo_ext demo_rr ?a))"
    by (simp add: prod_eq_iff)
  have "file_at (ag_world ?a) (upload_data ?a (rr_id demo_rr)) = Some (demo_file [1, 2, 3])" "agent_dirs ?a"
    "fs_env (upload_data ?a (rr_id demo_rr)) (ag_world ?a)" "no_dot (ag_world ?a)" by code_simp+
  then show ?thesis
    using retrieve_file_keeps_upload [OF demo_json_errors eq, of "demo_file [1, 2, 3]"] run
    by (simp add: demo_file_def demo_rr_def demo_upload_fault)
qed


end
