(* ===== verification/Oort_Service.thy ===== *)
theory Oort_Service
  imports Oort_Handlers
begin

text \<open>
  The agent as a service: the invariant of its state, which every handler keeps whatever its
  outcome, and what every listing of available files satisfies.
\<close>

section \<open>The invariant\<close>

text \<open>Every key and value in a cache satisfy a predicate.\<close>

definition all_entries :: "(string \<Rightarrow> 'a \<Rightarrow> bool) \<Rightarrow> 'a cache \<Rightarrow> bool" where
  "all_entries P c \<longleftrightarrow> list_all (\<lambda>(k, t, v). P k v) (cache_contents c)"

lemma all_entries_clean: "all_entries P c \<Longrightarrow> all_entries P (clean_expired now c)"
  by (auto simp: all_entries_def clean_expired_def list_all_iff)

lemma all_entries_emplace: "all_entries P c \<Longrightarrow> P k v \<Longrightarrow> all_entries P (emplace k (t, v) c)"
  by (auto simp: all_entries_def emplace_def split: option.splits)

lemma all_entries_count [simp]: "all_entries P (c\<lparr>m_gets := n\<rparr>) = all_entries P c" "all_entries P (c\<lparr>m_hits := n\<rparr>) = all_entries P c"
  by (simp_all add: all_entries_def)

lemma all_entries_at: "all_entries P c \<Longrightarrow> cache_at k c = Inr v \<Longrightarrow> P k v"
  by (auto simp: all_entries_def cache_at_def list_all_iff split: option.splits dest!: map_of_SomeD)

lemma prepared_entries: "all_entries P c \<Longrightarrow> all_entries P (prepared t1 t2 c)"
  by (simp add: prepared_def Let_def all_entries_clean)

text \<open>What a cache holds and returns is what its function returns.\<close>

lemma cache_get_entries:
  assumes c: "cache_wf c" "all_entries P c" and fn: "\<And>v s'. fn k s = (Inr v, s') \<Longrightarrow> P k v"
    and g: "cache_get t1 t2 now t4 fn k c s = (r, c', s')"
  shows "cache_wf c' \<and> all_entries P c' \<and> (\<forall>v. r = Inr v \<longrightarrow> P k v)"
proof (cases "cache_enabled c")
  case False
  obtain r0 s0 where f: "fn k s = (r0, s0)" by (cases "fn k s")
  with False g have "c' = c" "r = r0" by (simp_all add: cache_get_def)
  then show ?thesis using c fn f by blast
next
  case True
  let ?p = "prepared t1 t2 c"
  have p: "cache_wf ?p" "all_entries P ?p" by (rule prepared_props(1) [OF c(1)], rule prepared_entries [OF c(2)])
  note q = wf_clean_expired [OF p(1)] all_entries_clean [OF p(2)]
  obtain r0 s0 where f: "fn k s = (r0, s0)" by (cases "fn k s")
  have "cache_wf c' \<and> all_entries P c' \<and> (\<forall>v. r = Inr v \<longrightarrow> cache_at k c' = Inr v)"
  proof (cases r0)
    case (Inl e)
    then show ?thesis
      using g f p q unfolding cache_get_prepared [OF True] Let_def by (auto split: option.splits if_splits)
  next
    case (Inr v)
    then have "P k v" using fn f by blast
    then have "cache_wf (emplace k (now, v) d) \<and> all_entries P (emplace k (now, v) d)" if "cache_wf d" "all_entries P d" for d
      using that by (simp add: wf_emplace all_entries_emplace)
    then show ?thesis
      using g f Inr p q unfolding cache_get_prepared [OF True] Let_def by (auto split: option.splits if_splits)
  qed
  then show ?thesis using all_entries_at [of P c' k] by simp
qed

definition all_vals :: "('a \<Rightarrow> bool) \<Rightarrow> 'a cache \<Rightarrow> bool" where
  "all_vals P c \<longleftrightarrow> all_entries (\<lambda>_. P) c"

lemma cache_get_vals:
  assumes "cache_wf c" "all_vals P c" and "\<And>v s'. fn k s = (Inr v, s') \<Longrightarrow> P v" and "cache_get t1 t2 now t4 fn k c s = (r, c', s')"
  shows "cache_wf c' \<and> all_vals P c' \<and> (\<forall>v. r = Inr v \<longrightarrow> P v)"
  using cache_get_entries [of c "\<lambda>_. P" fn k s t1 t2 now t4 r c' s'] assms by (auto simp: all_vals_def)

text \<open>
  The invariant: the directories are those of the constructor, no cache holds two entries for a
  key, and every listing kept of a directory names metadata files only.
\<close>

definition meta_names :: "string list \<Rightarrow> bool" where
  "meta_names ns \<longleftrightarrow> list_all (\<lambda>n. ends_with n META_EXT) ns"

definition agent_inv :: "'z agent_scheme \<Rightarrow> bool" where
  "agent_inv a \<longleftrightarrow> agent_dirs a \<and> cache_wf (dir_cache a) \<and> cache_wf (metafile_cache a) \<and> cache_wf (meta_cache a)
     \<and> all_vals meta_names (metafile_cache a)"

definition keeps_inv :: "'z agent_scheme \<Rightarrow> 'z agent_scheme \<Rightarrow> bool" where
  "keeps_inv a b \<longleftrightarrow> (agent_inv a \<longrightarrow> agent_inv b) \<and> max_query b = max_query a \<and> upload_dir b = upload_dir a"

interpretation inv_frame: frame keeps_inv
  by unfold_locales (auto simp: keeps_inv_def)

lemma stable_onworld [frame_intros]: "stable keeps_inv (onworld m)"
  by (auto simp: stable_def onworld_def keeps_inv_def agent_inv_def agent_dirs_def split: prod.splits)

lemma list_files_names: "list_files d ext w = (Inr ns, v) \<Longrightarrow> ext \<noteq> [] \<Longrightarrow> list_all (\<lambda>n. ends_with n ext) ns"
  by (auto simp: list_files_def seqE_def check_def list_all_iff split: prod.splits sum.splits)

lemma stable_endeaden [frame_intros]: "stable keeps_inv (endeaden f)"
  unfolding endeaden_def by (intro frame_intros)

lemma stable_read_transfer_meta [frame_intros]: "stable keeps_inv (read_transfer_meta X f)"
  unfolding read_transfer_meta_def by (intro frame_intros)

subsection \<open>Every handler keeps it\<close>

lemma stable_cached_meta [frame_intros]: "stable keeps_inv (read_transfer_meta_cached X f)"
  unfolding stable_def
proof
  fix a :: "'z agent_scheme"
  obtain t1 t2 t3 t4 w where cl: "clock4 (ag_world a) = ((t1, t2, t3, t4), w)" by (metis prod.collapse)
  let ?a = "a\<lparr>ag_world := w\<rparr>"
  obtain r c b where g: "cache_get t1 t2 t3 t4 (read_transfer_meta X) f (meta_cache ?a) ?a = (r, c, b)"
    by (metis prod.collapse)
  have run: "read_transfer_meta_cached X f a = (r, b\<lparr>meta_cache := c\<rparr>)"
    using cl g by (simp add: read_transfer_meta_cached_def cached_def Let_def)
  from cache_get_outcome [OF g] have "b = ?a \<or> (\<exists>r'. read_transfer_meta X f ?a = (r', b))" by blast
  then have "keeps_inv ?a b"
    using stableD [OF stable_read_transfer_meta] inv_frame.frame_refl by blast
  moreover have "keeps_inv a ?a" by (simp add: keeps_inv_def agent_inv_def agent_dirs_def)
  ultimately have kb: "keeps_inv a b" using inv_frame.frame_trans by blast
  moreover have "cache_wf c" if "agent_inv a"
    using cache_get_vals [OF _ _ _ g, of "\<lambda>_. True"] that by (auto simp: agent_inv_def all_vals_def all_entries_def list_all_iff)
  ultimately show "keeps_inv a (snd (read_transfer_meta_cached X f a))"
    unfolding run by (auto simp: keeps_inv_def agent_inv_def agent_dirs_def)
qed

lemma stable_meta_listing [frame_intros]: "stable keeps_inv (meta_listing dir :: 'y agent_scheme \<Rightarrow> _)"
  and listing_names: "meta_listing dir (a :: 'y agent_scheme) = (Inr ns, b) \<Longrightarrow> agent_inv a \<Longrightarrow> meta_names ns"
proof -
  have step: "keeps_inv a (snd (meta_listing dir a)) \<and> (\<forall>ns. fst (meta_listing dir a) = Inr ns \<longrightarrow> agent_inv a \<longrightarrow> meta_names ns)" for a :: "'y agent_scheme"
  proof -
    obtain t1 t2 t3 t4 w where cl: "clock4 (ag_world a) = ((t1, t2, t3, t4), w)" by (metis prod.collapse)
    let ?a = "a\<lparr>ag_world := w\<rparr>" and ?fn = "\<lambda>d. onworld (list_files d META_EXT)"
    obtain r c b where g: "cache_get t1 t2 t3 t4 ?fn dir (metafile_cache ?a) ?a = (r, c, b)" by (metis prod.collapse)
    have run: "meta_listing dir a = (r, b\<lparr>metafile_cache := c\<rparr>)" using cl g by (simp add: meta_listing_def cached_def Let_def)
    have "\<exists>v. b = a\<lparr>ag_world := v\<rparr>"
      using cache_get_outcome [OF g] by (auto simp: onworld_def split: prod.splits)
    moreover have "meta_names v" if "?fn dir ?a = (Inr v, s')" for v s'
      using that list_files_names [of dir META_EXT w v]
      by (auto simp: onworld_def meta_names_def META_EXT_def split: prod.splits)
    then have "cache_wf c \<and> all_vals meta_names c \<and> (\<forall>v. r = Inr v \<longrightarrow> meta_names v)" if "agent_inv a"
      using cache_get_vals [OF _ _ _ g, of meta_names] that by (auto simp: agent_inv_def)
    ultimately show ?thesis unfolding run by (auto simp: keeps_inv_def agent_inv_def agent_dirs_def)
  qed
  show "stable keeps_inv (meta_listing dir :: 'y agent_scheme \<Rightarrow> _)" using step by (simp add: stable_def)
  show "meta_listing dir a = (Inr ns, b) \<Longrightarrow> agent_inv a \<Longrightarrow> meta_names ns" using step [of a] by simp
qed

lemma stable_dir_listing [frame_intros]: "stable keeps_inv (dir_listing X dir)"
  unfolding stable_def
proof
  fix a :: "'z agent_scheme"
  obtain t1 t2 t3 t4 w where cl: "clock4 (ag_world a) = ((t1, t2, t3, t4), w)" by (metis prod.collapse)
  let ?a = "a\<lparr>ag_world := w\<rparr>" and ?fn = "\<lambda>d. onworld (file_names X d)"
  obtain r c b where g: "cache_get t1 t2 t3 t4 ?fn dir (dir_cache ?a) ?a = (r, c, b)" by (metis prod.collapse)
  have run: "dir_listing X dir a = (r, b\<lparr>dir_cache := c\<rparr>)" using cl g by (simp add: dir_listing_def cached_def Let_def)
  have "\<exists>v. b = a\<lparr>ag_world := v\<rparr>"
    using cache_get_outcome [OF g] by (auto simp: onworld_def split: prod.splits)
  moreover have "cache_wf c" if "agent_inv a"
    using cache_get_vals [OF _ _ _ g, of "\<lambda>_. True"] that by (auto simp: agent_inv_def all_vals_def all_entries_def list_all_iff)
  ultimately show "keeps_inv a (snd (dir_listing X dir a))"
    unfolding run by (auto simp: keeps_inv_def agent_inv_def agent_dirs_def)
qed

lemma stable_topics [frame_intros]: "stable keeps_inv (modify (m_allowedTopics_update f))"
  by (simp add: stable_def keeps_inv_def agent_inv_def agent_dirs_def)

lemma stable_examine [frame_intros]: "stable keeps_inv (examine X topic meta)"
  unfolding examine_def by (intro frame_intros)

lemma stable_files_loop [frame_intros]: "stable keeps_inv (files_loop X dir topic fs fl)"
proof (induction fs arbitrary: fl)
  case (Cons f fs)
  show ?case unfolding files_loop.simps by (intro frame_intros Cons.IH)
qed (simp add: stable_def inv_frame.frame_refl)

lemma stable_query [frame_intros]: "stable keeps_inv (query_available X topic)"
  unfolding query_available_def files_info_def by (intro frame_intros)

lemma stable_send [frame_intros]: "stable keeps_inv (send_file X req)"
  unfolding send_file_def prepare_send_def Let_def by (intro frame_intros)

lemma stable_retrieve [frame_intros]: "stable keeps_inv (retrieve_file X rreq)"
  unfolding retrieve_file_def Let_def by (intro frame_intros)

lemma stable_agent_meta [frame_intros]: "stable keeps_inv (agent_meta X uuid)"
  unfolding agent_meta_def by (intro frame_intros)

lemma stable_collector_info [frame_intros]: "stable keeps_inv (collector_info X topics)"
  unfolding collector_info_def by (intro frame_intros)

lemma new_agent_inv: "new_agent X cfg w = (Inr (a, c), v) \<Longrightarrow> agent_inv a \<and> max_query a = 50"
  by (auto simp: new_agent_def agent_inv_def agent_dirs_def cache_wf_def all_vals_def all_entries_def new_cache_def Let_def
      split: if_splits sum.splits prod.splits)

text \<open>A lookup in a cache reads the clock, may call the function, and writes the cache.\<close>

lemma stable_cached:
  fixes fn :: "string \<Rightarrow> ('z, 'a) act"
  assumes fr: "frame R" and wd: "\<And>a w. quiet (ag_world a) w \<Longrightarrow> R a (a\<lparr>ag_world := w\<rparr>)"
    and fn: "stable R (fn key)" and wr: "\<And>c a. R a (write_c c a)"
  shows "stable R (cached read_c write_c fn key)"
  unfolding stable_def
proof
  fix a :: "'z agent_scheme"
  obtain t1 t2 t3 t4 w where cl: "clock4 (ag_world a) = ((t1, t2, t3, t4), w)" by (metis prod.collapse)
  let ?a = "a\<lparr>ag_world := w\<rparr>"
  obtain r c b where g: "cache_get t1 t2 t3 t4 fn key (read_c ?a) ?a = (r, c, b)" by (metis prod.collapse)
  have "R a ?a" using clock4_props [OF cl] by (intro wd) (simp add: quiet_def)
  moreover have "b = ?a \<or> (\<exists>r'. fn key ?a = (r', b))" using cache_get_outcome [OF g] by blast
  then have "R ?a b" using stableD [OF fn] frame.frame_refl [OF fr] by blast
  ultimately have "R a (write_c c b)" using wr frame.frame_trans [OF fr] by blast
  then show "R a (snd (cached read_c write_c fn key a))" using cl g by (simp add: cached_def Let_def)
qed

section \<open>What a query leaves as it was\<close>

text \<open>Metadata is described under a path: reading the file gives it, or it is in the cache.\<close>

definition described :: "('x) ext_scheme \<Rightarrow> path \<Rightarrow> 'z agent_scheme \<Rightarrow> TransferMeta \<Rightarrow> bool" where
  "described X p a tm \<longleftrightarrow> (\<exists>m. file_at (ag_world a) p = Some m \<and> w_fault (ag_world a) (Sc_open p) = None
       \<and> x_parse_meta X (if w_fault (ag_world a) (Sc_read p 0) = None then i_data m else []) = Inr tm)
     \<or> (\<exists>t. (p, t, tm) \<in> set (cache_contents (meta_cache a)))"

text \<open>
  Outside the dead-letter box files can only vanish, and what the cache holds was described.
\<close>

definition outside :: "'z agent_scheme \<Rightarrow> path \<Rightarrow> bool" where
  "outside a p \<longleftrightarrow> \<not> prefix (deadletter_dir a @ ''/'') p"

definition vanish :: "path set \<Rightarrow> world \<Rightarrow> world \<Rightarrow> bool" where
  "vanish D w v \<longleftrightarrow> same_env w v \<and> (\<forall>p. p \<notin> D \<longrightarrow> file_at v p = None \<or> file_at v p = file_at w p)"

definition recedes :: "('x) ext_scheme \<Rightarrow> 'z agent_scheme \<Rightarrow> 'z agent_scheme \<Rightarrow> bool" where
  "recedes X a b \<longleftrightarrow> deadletter_dir b = deadletter_dir a \<and> vanish {p. \<not> outside a p} (ag_world a) (ag_world b)
     \<and> (cache_wf (meta_cache a) \<longrightarrow> cache_wf (meta_cache b)
        \<and> all_entries (\<lambda>p tm. outside a p \<longrightarrow> described X p a tm) (meta_cache b))"

interpretation vanish_frame: frame "vanish D" for D
  by unfold_locales (auto simp: vanish_def intro: same_env_trans, metis)

lemma recedes_described:
  assumes "recedes X a b" and "cache_wf (meta_cache a)" and "outside a p" and "described X p b tm"
  shows "described X p a tm"
proof -
  have f: "w_fault (ag_world b) = w_fault (ag_world a)"
    and v: "file_at (ag_world b) p = None \<or> file_at (ag_world b) p = file_at (ag_world a) p"
    using assms(1,3) by (auto simp: recedes_def vanish_def same_env_def)
  have "described X p a tm" if "(p, t, tm) \<in> set (cache_contents (meta_cache b))" for t
    using assms(1-3) that by (auto simp: recedes_def all_entries_def list_all_iff)
  moreover have "described X p a tm" if "file_at (ag_world b) p = Some m" "w_fault (ag_world b) (Sc_open p) = None"
      "x_parse_meta X (if w_fault (ag_world b) (Sc_read p 0) = None then i_data m else []) = Inr tm" for m
    using that v unfolding described_def f by (intro disjI1 exI [of _ m]) auto
  ultimately show ?thesis using assms(4) unfolding described_def [of X p b] by blast
qed

lemma recedes_refl: "recedes X s s"
  by (auto simp: recedes_def vanish_frame.frame_refl all_entries_def list_all_iff described_def)

lemma recedes_trans:
  assumes st: "recedes X s t" and tu: "recedes X t u"
  shows "recedes X s u"
proof -
  from st have out: "outside t = outside s" by (auto simp: recedes_def outside_def)
  have v: "vanish {p. \<not> outside s p} (ag_world s) (ag_world t)" "vanish {p. \<not> outside s p} (ag_world t) (ag_world u)"
    using st tu by (auto simp: recedes_def out)
  have "all_entries (\<lambda>p tm. outside s p \<longrightarrow> described X p s tm) (meta_cache u)" if w: "cache_wf (meta_cache s)"
    using st tu w recedes_described [OF st w] by (auto simp: recedes_def out all_entries_def list_all_iff)
  then show ?thesis using st tu vanish_frame.frame_trans [OF v] by (auto simp: recedes_def)
qed

interpretation recedes_frame: frame "recedes X" for X
  by unfold_locales (rule recedes_refl, rule recedes_trans)

lemma recedes_world: "vanish {p. \<not> outside a p} (ag_world a) w \<Longrightarrow> recedes X a (a\<lparr>ag_world := w\<rparr>)"
  by (auto simp: recedes_def all_entries_def list_all_iff described_def)

lemma recedes_onworld [frame_intros]: "stable (only_files {}) m \<Longrightarrow> stable (recedes X) (onworld m)"
  by (auto simp: stable_def onworld_def vanish_def only_files_def intro!: recedes_world split: prod.splits) (metis snd_conv)+

subsection \<open>The dead-letter box\<close>

lemma vanish_rename: "tree dst \<subseteq> D \<Longrightarrow> stable (vanish D) (sys_rename src dst)"
proof -
  assume D: "tree dst \<subseteq> D"
  have gone: "map_of (map (\<lambda>(q, j). (relocate src dst q, j)) al) p = None" if "p \<notin> D" "p \<in> tree src" for p and al :: "(path \<times> inode) list"
  proof (induction al)
    case (Cons e al)
    obtain q j where e: "e = (q, j)" by (cases e)
    have "relocate src dst q \<noteq> p"
      using that D relocate_in_tree [of q src dst] relocate_outside [of q src dst] by (cases "q \<in> tree src") auto
    then show ?case using Cons.IH e by auto
  qed simp
  have "vanish D w (snd (sys_rename src dst w))" for w
  proof -
    have "file_at (snd (sys_rename src dst w)) p = None \<or> file_at (snd (sys_rename src dst w)) p = file_at w p" if "p \<notin> D" for p
    proof (cases "p \<in> tree src")
      case False
      then show ?thesis
        using stable_snd [OF stable_sys_rename, of src dst w] that D by (auto dest: only_files_file_at)
    next
      case True
      have pd: "p \<noteq> dst" using that D in_tree_self by blast
      show ?thesis using gone [OF that True] pd
        by (auto simp: sys_rename_def guard_fault_def fail_def lookup_simps split: option.splits)
    qed
    then show ?thesis using stable_snd [OF stable_sys_rename, of src dst w] by (simp add: vanish_def only_files_def)
  qed
  then show ?thesis by (simp add: stable_def)
qed

lemma recedes_endeaden [frame_intros]: "stable (recedes X) (endeaden f)"
proof -
  have "stable (vanish {p. \<not> outside a p}) (endeaden_pair (deadletter_dir a) f t)" for a :: "'a agent_scheme" and f t
  proof -
    have "tree (deadletter_dir a @ ''/'' @ s) \<subseteq> {p. \<not> outside a p}" for s by (auto simp: tree_def outside_def prefix_def)
    then show ?thesis unfolding endeaden_pair_def by (intro frame_intros vanish_rename)
  qed
  then have pair: "recedes X a (snd (onworld (endeaden_pair (deadletter_dir a) f t) a))" for a :: "'a agent_scheme" and f t
    by (auto simp: onworld_def stable_def intro!: recedes_world split: prod.splits) (metis snd_conv)
  show ?thesis
    using pair recedes_frame.frame_refl
    by (auto simp: stable_def endeaden_def seqE_gets seqE_def split: sum.splits)
qed

lemma stable_stream_data [frame_intros]: "stable (only_files A) (stream_data p)"
  unfolding stream_data_def by (intro frame_intros)

lemma recedes_read_meta [frame_intros]: "stable (recedes X) (read_transfer_meta X f)"
  unfolding read_transfer_meta_def by (intro frame_intros)

lemma cached_meta_described:
  assumes "read_transfer_meta_cached X f a = (r, b)"
  shows "recedes X a b \<and> (\<forall>tm. r = Inr tm \<longrightarrow> cache_wf (meta_cache a) \<longrightarrow> described X f a tm)"
proof -
  obtain t1 t2 t3 t4 w where cl: "clock4 (ag_world a) = ((t1, t2, t3, t4), w)" by (metis prod.collapse)
  let ?a = "a\<lparr>ag_world := w\<rparr>"
  obtain r0 c b' where g: "cache_get t1 t2 t3 t4 (read_transfer_meta X) f (meta_cache ?a) ?a = (r0, c, b')" by (metis prod.collapse)
  have rb: "r = r0" "b = b'\<lparr>meta_cache := c\<rparr>"
    using assms cl g by (auto simp: read_transfer_meta_cached_def cached_def Let_def)
  have q: "quiet (ag_world a) w" using clock4_props [OF cl] by (simp add: quiet_def)
  then have aa: "recedes X a ?a" by (intro recedes_world) (auto simp: vanish_def quiet_def)
  have "b' = ?a \<or> (\<exists>r'. read_transfer_meta X f ?a = (r', b'))" using cache_get_outcome [OF g] by blast
  then have "recedes X ?a b'" using stableD [OF recedes_read_meta] recedes_refl by blast
  then have ab: "recedes X a b'" by (rule recedes_trans [OF aa])
  have fn: "described X f a v" if "read_transfer_meta X f ?a = (Inr v, s')" for v s'
    using read_transfer_meta_Inr [OF that] by (auto simp: described_def quiet_simps [OF q])
  have "all_entries (\<lambda>p. described X p a) (meta_cache ?a)" by (auto simp: all_entries_def list_all_iff described_def)
  then have "cache_wf c \<and> all_entries (\<lambda>p. described X p a) c \<and> (\<forall>v. r0 = Inr v \<longrightarrow> described X f a v)" if "cache_wf (meta_cache a)"
    using cache_get_entries [of "meta_cache ?a" "\<lambda>p. described X p a", OF _ _ _ g] fn that by simp
  then show ?thesis using ab rb by (auto simp: recedes_def all_entries_def list_all_iff)
qed

lemma recedes_cached_meta [frame_intros]: "stable (recedes X) (read_transfer_meta_cached X f)"
  unfolding stable_def using cached_meta_described by (metis prod.collapse)

lemma recedes_meta_listing [frame_intros]: "stable (recedes X) (meta_listing d)"
  unfolding meta_listing_def
proof (rule stable_cached [OF recedes_frame.frame_axioms])
  show "recedes X a (a\<lparr>ag_world := w\<rparr>)" if "quiet (ag_world a) w" for a :: "'a agent_scheme" and w
    using that by (intro recedes_world) (auto simp: vanish_def quiet_def)
qed (intro frame_intros, auto simp: recedes_def vanish_frame.frame_refl all_entries_def list_all_iff described_def)

lemma recedes_examine [frame_intros]: "stable (recedes X) (examine X topic meta)"
  unfolding examine_def by (intro frame_intros)

section \<open>query\_available\<close>

text \<open>
  A file is available under a topic: its metadata names the topic, and its data file is regular
  and has the recorded checksum.
\<close>

definition available :: "('x) ext_scheme \<Rightarrow> string \<Rightarrow> path \<Rightarrow> 'z agent_scheme \<Rightarrow> FileInfo \<Rightarrow> bool" where
  "available X topic meta a fi \<longleftrightarrow> (\<exists>tm data i. described X meta a tm \<and> tm_topic tm = topic \<and> tm_file_info tm = fi
     \<and> data_file meta = Inr data \<and> regular_file (ag_world a) data = Some i
     \<and> crc_of X (readable_data (ag_world a) data) = fi_crc32 fi)"

lemma recedes_available:
  assumes "recedes X a b" and "cache_wf (meta_cache a)" and "\<And>s. outside a (dir @ ''/'' @ s)"
    and "available X topic (dir @ ''/'' @ f) b fi" and "ends_with f META_EXT"
  shows "available X topic (dir @ ''/'' @ f) a fi"
proof -
  obtain s where f: "f = s @ META_EXT" using assms(5) by (auto simp: ends_with_iff suffix_def)
  let ?d = "dir @ ''/'' @ s @ DATA_EXT" and ?m = "dir @ ''/'' @ f"
  have df: "data_file ?m = Inr ?d" using data_file_meta [of "dir @ ''/'' @ s"] by (simp add: f)
  from assms(4) obtain tm i where tm: "described X ?m b tm" "tm_topic tm = topic" "tm_file_info tm = fi"
    and i: "regular_file (ag_world b) ?d = Some i" and crc: "crc_of X (readable_data (ag_world b) ?d) = fi_crc32 fi"
    unfolding available_def df by auto
  have fa: "file_at (ag_world a) ?d = file_at (ag_world b) ?d"
    using assms(1) assms(3) [of "s @ DATA_EXT"] i by (auto simp: recedes_def vanish_def regular_file_def split: option.splits)
  have fl: "w_fault (ag_world a) = w_fault (ag_world b)" using assms(1) by (simp add: recedes_def vanish_def same_env_def)
  have "regular_file (ag_world a) ?d = Some i" "crc_of X (readable_data (ag_world a) ?d) = fi_crc32 fi"
    unfolding regular_file_def readable_data_def fa fl using i crc unfolding regular_file_def readable_data_def .
  then show ?thesis using recedes_described [OF assms(1,2,3) tm(1)] tm(2,3) unfolding available_def df by blast
qed

lemma examine_cases:
  fixes a :: "'z agent_scheme"
  assumes js: "json_errors X" and name: "ends_with meta META_EXT" and wf: "cache_wf (meta_cache a)"
  shows "\<exists>r b. examine X topic meta a = (Inr r, b) \<and> (\<forall>fi. r = Some fi \<longrightarrow> available X topic meta a fi)"
proof -
  obtain s where s: "data_file meta = Inr s" using name by (auto simp: ends_with_iff suffix_def)
  have en: "\<exists>w. endeaden meta b = (Inr (), b\<lparr>ag_world := w\<rparr>)" for b :: "'z agent_scheme" using endeaden_run by blast
  obtain r1 b1 where rc: "read_transfer_meta_cached X meta a = (r1, b1)" by (cases "read_transfer_meta_cached X meta a")
  from read_cached_cases [OF rc js] show ?thesis
  proof (elim disjE exE conjE)
    fix e w c b'
    assume "r1 = Inl e" "is_runtime_error e"
    then show ?thesis using rc en [of b1] by (auto simp: examine_def catchE_def seqE_def)
  next
    fix tm w c
    assume t: "r1 = Inr tm" "quiet (ag_world a) w" "b1 = a\<lparr>ag_world := w, meta_cache := c\<rparr>"
    note q = quiet_simps [OF t(2)]
    have ann: "described X meta a tm" using cached_meta_described [OF rc] t(1) wf by blast
    show ?thesis
    proof (cases "tm_topic tm = topic")
      case False
      then show ?thesis using rc t(1) by (auto simp: examine_def catchE_def seqE_def)
    next
      case topic: True
      obtain r2 w2 where fi: "file_info X s w = (r2, w2)" by (cases "file_info X s w")
      define body where "body = (seqE (read_transfer_meta_cached X meta) (\<lambda>tm.
        if tm_topic tm \<noteq> topic then ret None
        else seqE (lift (data_file meta)) (\<lambda>data.
             seqE (onworld (file_info X data)) (\<lambda>fi.
               if fi_crc32 (tm_file_info tm) \<noteq> fi_crc32 fi
               then seqE (endeaden meta) (\<lambda>_. ret None)
               else ret (Some (tm_file_info tm))))) :: ('z, FileInfo option) act)"
      have body: "body a = (case r2 of Inl e \<Rightarrow> (Inl e, b1\<lparr>ag_world := w2\<rparr>)
         | Inr f \<Rightarrow> if fi_crc32 (tm_file_info tm) \<noteq> fi_crc32 f then seqE (endeaden meta) (\<lambda>_. ret None) (b1\<lparr>ag_world := w2\<rparr>)
             else (Inr (Some (tm_file_info tm)), b1\<lparr>ag_world := w2\<rparr>))"
        using rc t topic s fi unfolding body_def seqE_def [where m = "read_transfer_meta_cached X meta"]
        by (simp add: seqE_onworld split: sum.splits)
      have ex: "examine X topic meta a = (case body a of (Inl e, b) \<Rightarrow> if is_runtime_error e
          then seqE (endeaden meta) (\<lambda>_. ret None) b else (Inl e, b) | (Inr x, b) \<Rightarrow> (Inr x, b))"
        by (simp add: examine_def catchE_def body_def)
      obtain w3 where w3: "endeaden meta (b1\<lparr>ag_world := w2\<rparr>) = (Inr (), b1\<lparr>ag_world := w3\<rparr>)" using en [of "b1\<lparr>ag_world := w2\<rparr>"] by auto
      show ?thesis
      proof (cases r2)
        case (Inl e)
        then have "is_runtime_error e" using file_info_Inl [OF fi [unfolded Inl]] by simp
        then show ?thesis using ex body Inl w3 by (simp add: seqE_def)
      next
        case (Inr f)
        from file_info_Inr [OF fi [unfolded Inr]] obtain i where "regular_file (ag_world a) s = Some i"
          "fi_crc32 f = crc_of X (readable_data (ag_world a) s)" by (auto simp: q info_for_def)
        then have "available X topic meta a (tm_file_info tm)" if "fi_crc32 (tm_file_info tm) = fi_crc32 f"
          using that topic s ann by (auto simp: available_def)
        then show ?thesis using ex body Inr w3 by (auto simp: seqE_def)
      qed
    qed
  qed
qed

lemma files_loop_result:
  fixes a :: "'z agent_scheme"
  assumes js: "json_errors X" and "list_all (\<lambda>n. ends_with n META_EXT) fs" and "\<not> exceeds (length fl) (max_query a)"
    and "cache_wf (meta_cache a)" and "\<And>s. outside a (dir @ ''/'' @ s)"
  shows "\<exists>new b. files_loop X dir topic fs fl a = (Inr (fl @ new), b)
    \<and> \<not> exceeds (length (fl @ butlast new)) (max_query a)
    \<and> (\<forall>fi \<in> set new. \<exists>f \<in> set fs. available X topic (dir @ ''/'' @ f) a fi)"
  using assms(2-)
proof (induction fs arbitrary: fl a)
  case (Cons f fs)
  have "ends_with (dir @ ''/'' @ f) META_EXT" using Cons.prems(1) by (auto simp: ends_with_iff suffix_def)
  then obtain r b where ex: "examine X topic (dir @ ''/'' @ f) a = (Inr r, b)"
    and av: "\<And>fi. r = Some fi \<Longrightarrow> available X topic (dir @ ''/'' @ f) a fi"
    using examine_cases [OF js] Cons.prems(3) by blast
  have rec: "recedes X a b" by (rule stableD [OF recedes_examine ex])
  then have wb: "cache_wf (meta_cache b)" "outside b = outside a" using Cons.prems(3) by (auto simp: recedes_def outside_def)
  have mx: "max_query b = max_query a" using stableD [OF stable_examine ex] by (simp add: keeps_inv_def)
  define fl' where "fl' = (case r of None \<Rightarrow> fl | Some fi \<Rightarrow> fl @ [fi])"
  have run: "files_loop X dir topic (f # fs) fl a =
      (if exceeds (length fl') (max_query a) then (Inr fl', b) else files_loop X dir topic fs fl' b)"
    using ex mx by (simp add: seqE_def fl'_def)
  have new: "\<exists>one. fl' = fl @ one \<and> length one \<le> 1 \<and> (\<forall>fi \<in> set one. available X topic (dir @ ''/'' @ f) a fi)"
    using av by (auto simp: fl'_def split: option.splits)
  show ?case
  proof (cases "exceeds (length fl') (max_query a)")
    case True
    then obtain one where "fl' = fl @ one" "butlast one = []" "\<forall>fi \<in> set one. available X topic (dir @ ''/'' @ f) a fi"
      using new by (auto simp: le_Suc_eq length_Suc_conv)
    then show ?thesis using True run Cons.prems(2) by (intro exI [of _ one] exI [of _ b]) auto
  next
    case False
    then obtain new' c where fl'': "files_loop X dir topic fs fl' b = (Inr (fl' @ new'), c)"
      "\<not> exceeds (length (fl' @ butlast new')) (max_query a)" and av': "\<forall>fi \<in> set new'. \<exists>f \<in> set fs. available X topic (dir @ ''/'' @ f) b fi"
      using Cons.IH [of fl' b] Cons.prems(1,4) mx wb by auto
    moreover have "\<exists>f \<in> set fs. available X topic (dir @ ''/'' @ f) a fi" if "fi \<in> set new'" for fi
      using av' that recedes_available [OF rec Cons.prems(3,4)] Cons.prems(1) by (fastforce simp: list_all_iff)
    moreover obtain one where one: "fl' = fl @ one" "\<forall>fi \<in> set one. available X topic (dir @ ''/'' @ f) a fi"
      using new by blast
    ultimately show ?thesis using False run Cons.prems(2)
      by (intro exI [of _ "one @ new'"] exI [of _ c]) (auto simp: butlast_append exceeds_def)
  qed
qed simp

text \<open>
  A query for available files either passes on the error of opening the upload directory or
  answers \<open>Ok\<close>: with at most fifty files, with the overflow flag only when it returns that many,
  and each of them is, in the state in which the query is made, announced for the topic and backed by a data file with the
  recorded checksum. Missing, unreadable, malformed or corrupt files never make the query fail.
\<close>

lemma query_available_sound:
  fixes a :: "'z agent_scheme"
  assumes inv: "agent_inv a" "max_query a = 50" and js: "json_errors X"
  shows "case fst (meta_listing (upload_dir a) a) of
      Inl e \<Rightarrow> fst (query_available X topic a) = Inl e
    | Inr names \<Rightarrow> \<exists>af. fst (query_available X topic a) = Inr (good af) \<and> length (af_files af) \<le> 50
        \<and> (af_overflow af \<longrightarrow> length (af_files af) = 50)
        \<and> (\<forall>fi \<in> set (af_files af). \<exists>f \<in> set names. available X topic (upload_dir a @ ''/'' @ f) a fi)"
proof -
  obtain r b where ml: "meta_listing (upload_dir a) a = (r, b)" by (cases "meta_listing (upload_dir a) a")
  show ?thesis
  proof (cases r)
    case (Inl e)
    then show ?thesis using ml by (simp add: query_available_def files_info_def seqE_def)
  next
    case (Inr names)
    have mx: "max_query b = 50" using stableD [OF stable_meta_listing ml] inv(2) by (simp add: keeps_inv_def)
    have ex: "exceeds n 50 \<longleftrightarrow> 50 < n" for n by (simp add: exceeds_def)
    have names: "list_all (\<lambda>n. ends_with n META_EXT) names"
      using listing_names [OF ml [unfolded Inr] inv(1)] by (simp add: meta_names_def)
    have rec: "recedes X a b" by (rule stableD [OF recedes_meta_listing ml])
    have wf: "cache_wf (meta_cache a)" and out: "\<And>s. outside a (upload_dir a @ ''/'' @ s)"
      using inv(1) by (auto simp: agent_inv_def agent_dirs_def outside_def prefix_def)
    have "cache_wf (meta_cache b)" "outside b = outside a" using rec wf by (auto simp: recedes_def outside_def)
    with names out obtain new c
      where lp: "files_loop X (upload_dir a) topic names [] b = (Inr new, c)" "length (butlast new) \<le> 50"
      and "\<forall>fi \<in> set new. \<exists>f \<in> set names. available X topic (upload_dir a @ ''/'' @ f) b fi"
      using files_loop_result [OF js, of names "[]" b "upload_dir a" topic] mx by (auto simp: ex)
    then have av: "\<forall>fi \<in> set new. \<exists>f \<in> set names. available X topic (upload_dir a @ ''/'' @ f) a fi"
      using recedes_available [OF rec wf out] names by (fastforce simp: list_all_iff)
    have "max_query c = 50" using stableD [OF stable_files_loop lp(1)] mx by (simp add: keeps_inv_def)
    then have run: "fst (query_available X topic a) = Inr (good (if 50 < length new
        then \<lparr>af_files = butlast new, af_overflow = True\<rparr> else \<lparr>af_files = new, af_overflow = False\<rparr>))"
      using ml Inr lp(1) by (simp add: query_available_def files_info_def seqE_def ex)
    show ?thesis
    proof (cases "50 < length new")
      case True
      then show ?thesis using av lp(2) run ml Inr by (auto dest: in_set_butlastD)
    next
      case False
      then show ?thesis using av run ml Inr by auto
    qed
  qed
qed

section \<open>Uploads that can be fetched\<close>

text \<open>Metadata that can be read is read through the cache, too: a live entry, or the file.\<close>

lemma read_cached_succeeds:
  fixes a :: "'z agent_scheme"
  assumes calm: "calm (ag_world a)" and wf: "cache_wf (meta_cache a)"
    and m: "file_at (ag_world a) p = Some m" "x_parse_meta X (i_data m) = Inr tm0" and js: "json_errors X"
  shows "\<exists>tm w c. read_transfer_meta_cached X p a = (Inr tm, a\<lparr>ag_world := w, meta_cache := c\<rparr>) \<and> described X p a tm
    \<and> quiet (ag_world a) w"
proof -
  obtain t1 t2 t3 t4 w where cl: "clock4 (ag_world a) = ((t1, t2, t3, t4), w)" by (metis prod.collapse)
  let ?a = "a\<lparr>ag_world := w\<rparr>"
  obtain r0 c b' where g: "cache_get t1 t2 t3 t4 (read_transfer_meta X) p (meta_cache ?a) ?a = (r0, c, b')" by (metis prod.collapse)
  have q: "quiet (ag_world a) w" using clock4_props [OF cl] by (simp add: quiet_def)
  have fn: "read_transfer_meta X p ?a = (Inr tm0, ?a)"
    using m calm q by (simp add: read_transfer_meta_def seqE_def onworld_def attempt_def sys_open_def guard_fault_def catchE_def
        stream_data_def quiet_simps)
  then obtain tm where r: "r0 = Inr tm" using cache_get_outcome [OF g] by auto
  have run: "read_transfer_meta_cached X p a = (Inr tm, b'\<lparr>meta_cache := c\<rparr>)"
    using cl g r by (simp add: read_transfer_meta_cached_def cached_def Let_def)
  obtain w' c' where "quiet (ag_world a) w'" "b'\<lparr>meta_cache := c\<rparr> = a\<lparr>ag_world := w', meta_cache := c'\<rparr>"
    using read_cached_cases [OF run js] by auto
  then show ?thesis using run cached_meta_described [OF run] wf by auto
qed

text \<open>
  An upload is intact when its metadata can be read and its data has the checksum of every
  description the agent may have of it, the file's and a cached one. A destination is ready when
  its name is free in an existing directory and, on another file system than the upload's, when
  a staging name is free on both sides and there is room for the size the description states.
\<close>

definition upload_intact :: "('x) ext_scheme \<Rightarrow> 'z agent_scheme \<Rightarrow> string \<Rightarrow> inode \<Rightarrow> bool" where
  "upload_intact X a x i \<longleftrightarrow> file_at (ag_world a) (upload_data a x) = Some i \<and> i_kind i = Reg
     \<and> (\<exists>m tm. file_at (ag_world a) (upload_meta a x) = Some m \<and> i_kind m = Reg \<and> x_parse_meta X (i_data m) = Inr tm)
     \<and> (\<forall>tm. described X (upload_meta a x) a tm \<longrightarrow> crc_of X (i_data i) = fi_crc32 (tm_file_info tm))"

definition place_ready :: "('x) ext_scheme \<Rightarrow> 'z agent_scheme \<Rightarrow> string \<Rightarrow> path \<Rightarrow> bool" where
  "place_ready X a x dest \<longleftrightarrow> (let w = ag_world a; src = upload_data a x in
     checkPath dest \<and> file_at w dest = None \<and> is_dir w (parent_dir dest)
     \<and> (w_dev w (parent_dir src) \<noteq> w_dev w (parent_dir dest) \<longrightarrow>
          fresh_suffix w (dirname src @ ''/file_move_'') \<noteq> None \<and> fresh_suffix w (dirname dest @ ''/file_move_'') \<noteq> None
          \<and> (\<forall>tm. described X (upload_meta a x) a tm \<longrightarrow>
               checkDiskFree_vfs (min_free_disk a) (min_free_pct a) (fi_size (tm_file_info tm)) (w_vfs w (dirname dest)))
          \<and> 0 < to_int32 (min (uint (f_bsize (w_vfs w (dirname src)))) (uint (f_bsize (w_vfs w (dirname dest)))))))"

lemma retrieve_file_completes:
  fixes a :: "'z agent_scheme"
  assumes js: "json_errors X" and wf: "cache_wf (meta_cache a)" and calm: "calm (ag_world a)"
    and env: "fs_env (upload_data a (rr_id req)) (ag_world a)"
    and up: "upload_intact X a (rr_id req) i" and dest: "place_ready X a (rr_id req) (rr_save_path req)"
  shows "\<exists>tm b j. retrieve_file X req a = (Inr (good (tm_file_info tm)), b) \<and> described X (upload_meta a (rr_id req)) a tm
    \<and> i_data j = i_data i
    \<and> (\<forall>p. file_at (ag_world b) p = (if p = rr_save_path req then Some j
         else if p = upload_data a (rr_id req) \<or> p = upload_meta a (rr_id req) then None else file_at (ag_world a) p))"
proof -
  let ?d = "upload_data a (rr_id req)" and ?m = "upload_meta a (rr_id req)" and ?t = "rr_save_path req"
  obtain m tm0 where m: "file_at (ag_world a) ?m = Some m" "i_kind m = Reg" "x_parse_meta X (i_data m) = Inr tm0"
    using up by (auto simp: upload_intact_def)
  obtain tm w c where rd: "read_transfer_meta_cached X ?m a = (Inr tm, a\<lparr>ag_world := w, meta_cache := c\<rparr>)"
    and ds: "described X ?m a tm" and q: "quiet (ag_world a) w"
    using read_cached_succeeds [OF calm wf m(1,3) js] by blast
  have "length ?d \<noteq> length ''/''" by (simp add: upload_data_def DATA_EXT_def)
  then have top: "?d \<noteq> ''/''" by metis
  have ne: "?m \<noteq> ?d" "?m \<noteq> ?t" "?d \<noteq> ?t"
    using m(1) up dest by (auto simp: upload_data_def upload_meta_def upload_intact_def place_ready_def Let_def)
  have cw: "calm w" "w_vfs w = w_vfs (ag_world a)" "w_temp w = w_temp (ag_world a)" "is_dir w = is_dir (ag_world a)"
    using calm q by (auto simp: calm_def quiet_def same_env_def is_dir_def fun_eq_iff)
  have fr: "fresh_suffix w s = fresh_suffix (ag_world a) s" for s
    using q cw(3) by (simp add: fresh_suffix_def quiet_def)
  have "is_dir (ag_world a) (parent_dir ?d)"
    using env up top fs_wf_parent by (auto simp: fs_env_def upload_intact_def)
  then obtain v j where mv: "move_file X (min_free_disk a) (min_free_pct a) ?d ?t (tm_file_info tm) w = (Inr (), v)"
    and j: "i_data j = i_data i" and fv: "\<And>p. file_at v p = (if p = ?t then Some j else if p = ?d then None else file_at w p)"
    using move_file_completes [of w ?d i ?t X "tm_file_info tm" "min_free_disk a" "min_free_pct a"] cw up dest ds env
    by (auto simp: upload_intact_def place_ready_def Let_def fs_env_def fr quiet_simps [OF q])
  have ac: "sys_access ?m R_OK (ag_world a) = (Inr (), ag_world a)"
    using m(1) calm by (simp add: sys_access_def guard_fault_def)
  have un: "sys_unlink ?m v = (Inr (), v\<lparr>w_files := AList.delete ?m (w_files v)\<rparr>)"
    using fv [of ?m] ne m(1,2) cw(1) stableD [OF stable_move_file_env mv] calm_env
    by (simp add: sys_unlink_def guard_fault_def quiet_simps [OF q])
  have "retrieve_file X req a = (Inr (good (tm_file_info tm)), a\<lparr>ag_world := v\<lparr>w_files := AList.delete ?m (w_files v)\<rparr>, meta_cache := c\<rparr>)"
    using dest ac rd mv un
    by (simp add: retrieve_file_def seqE_gets Let_def seqE_onworld attempt_def upload_meta_def upload_data_def place_ready_def
        seqE_def catchE_def onworld_def ignore_def)
  then show ?thesis using ds j fv ne
    by (intro exI [of _ tm] exI conjI) (assumption | auto simp: lookup_simps quiet_simps [OF q])+
qed

section \<open>Retrievals that succeed\<close>

lemma described_quiet: "quiet (ag_world a) w \<Longrightarrow> described X p (a\<lparr>ag_world := w\<rparr>) tm = described X p a tm"
  by (simp add: described_def quiet_simps)

lemma move_file_source:
  "move_file X m n src dest fi w = (Inr (), v) \<Longrightarrow> \<exists>i. regular_file w src = Some i \<and> crc_of X (readable_data w src) = fi_crc32 fi"
  using move_file_cases [of X m n src dest fi w] by auto

text \<open>
  (C7) A retrieval that reports success has delivered the file that was uploaded: what is returned is the
  description of the upload, as its metadata file or the cache has it; the data uploaded has the checksum of that description, and so
  has the regular file at the path given, which did not exist before; the data has left the
  upload directory, so has the metadata, and every other file is unchanged. Assumed are the calls whose failure the code
  does not look at: the \<open>access\<close> test, the rename that puts a copy in place, opening and reading,
  and the removal of the metadata.
\<close>

theorem retrieve_file_delivers:
  assumes js: "json_errors X" and wf: "cache_wf (meta_cache a)" and run: "retrieve_file X req a = (Inr (good fi), b)"
    and ok: "calls_ok (rr_save_path req) (ag_world a)" "fs_env (upload_data a (rr_id req)) (ag_world a)"
    and un: "removable (ag_world a) (upload_meta a (rr_id req))"
  shows "checkPath (rr_save_path req) \<and> file_at (ag_world a) (rr_save_path req) = None
    \<and> (\<exists>tm. described X (upload_meta a (rr_id req)) a tm \<and> fi = tm_file_info tm)
    \<and> (\<exists>i. file_at (ag_world a) (upload_data a (rr_id req)) = Some i \<and> i_kind i = Reg \<and> crc_of X (i_data i) = fi_crc32 fi)
    \<and> (\<exists>j. file_at (ag_world b) (rr_save_path req) = Some j \<and> i_kind j = Reg \<and> crc_of X (i_data j) = fi_crc32 fi)
    \<and> file_at (ag_world b) (upload_data a (rr_id req)) = None \<and> file_at (ag_world b) (upload_meta a (rr_id req)) = None
    \<and> (\<forall>p q. file_at (ag_world a) p = Some q \<longrightarrow> p \<noteq> upload_data a (rr_id req) \<longrightarrow> p \<noteq> upload_meta a (rr_id req) \<longrightarrow>
         file_at (ag_world b) p = Some q)"
  using retrieve_file_cases [OF js run]
proof (elim disjE exE conjE)
  fix tm w c mr v w1 b1
  let ?d = "upload_data a (rr_id req)" and ?m = "upload_meta a (rr_id req)" and ?t = "rr_save_path req"
  assume path: "checkPath ?t" and q: "quiet (ag_world a) w" and q1: "quiet (ag_world a) w1"
    and rd: "read_transfer_meta_cached X ?m (a\<lparr>ag_world := w1\<rparr>) = (Inr tm, b1)"
    and mv: "move_file X (min_free_disk a) (min_free_pct a) ?d ?t (tm_file_info tm) w = (mr, v)"
    and res: "case mr of
              Inr _ \<Rightarrow> Inr (good fi) = Inr (good (tm_file_info tm)) \<and> b = a\<lparr>ag_world := snd (sys_unlink ?m v), meta_cache := c\<rparr>
            | Inl e \<Rightarrow> if is_system_error e then (\<exists>m. Inr (good fi) = Inr (bad m)) \<and> b = a\<lparr>ag_world := v, meta_cache := c\<rparr>
                 else if is_runtime_error e then (\<exists>m. Inr (good fi) = Inr (bad m))
                   \<and> endeaden ?d (a\<lparr>ag_world := v, meta_cache := c\<rparr>) = (Inr (), b)
                 else Inr (good fi) = Inl e \<and> b = a\<lparr>ag_world := v, meta_cache := c\<rparr>"
  note qs = quiet_simps [OF q]
  have mr: "mr = Inr ()" using res by (cases mr) (auto split: if_splits)
  have fi: "fi = tm_file_info tm" and b: "ag_world b = snd (sys_unlink ?m v)" using res mr by simp_all
  have s: "file_at w ?t = None
    \<and> (\<exists>j. file_at v ?t = Some j \<and> i_kind j = Reg \<and> crc_of X (i_data j) = fi_crc32 fi)
    \<and> file_at v ?d = None \<and> (\<forall>p i. file_at w p = Some i \<longrightarrow> p \<noteq> ?d \<longrightarrow> file_at v p = Some i)"
    unfolding fi using ok mv mr by (intro move_file_returns [of X _ _ ?d]) (auto simp: calls_ok_def fs_env_def qs)
  obtain m where m: "file_at (ag_world a) ?m = Some m" "i_kind m \<noteq> Dir" "w_fault (ag_world a) (Sc_unlink ?m) = None"
    using un by (auto simp: removable_def split: option.splits)
  have ne: "?m \<noteq> ?d" "?m \<noteq> ?t" using s m(1) by (auto simp: upload_meta_def upload_data_def qs)
  have "file_at v ?m = Some m" using s m(1) ne by (simp add: qs)
  moreover have "same_env w v" using stable_move_file_env mv by (metis stableD)
  ultimately have "sys_unlink ?m v = (Inr (), v\<lparr>w_files := AList.delete ?m (w_files v)\<rparr>)"
    using m(2,3) by (simp add: sys_unlink_def guard_fault_def same_env_def qs)
  then have fb: "file_at (ag_world b) p = (if p = ?m then None else file_at v p)" for p
    by (simp add: b lookup_simps)
  moreover have "described X ?m a tm" using cached_meta_described [OF rd] wf described_quiet [OF q1, of X ?m tm] by simp
  moreover obtain i where "regular_file w ?d = Some i" "crc_of X (readable_data w ?d) = fi_crc32 fi"
    using move_file_source mv mr fi by blast
  then have "file_at (ag_world a) ?d = Some i" "i_kind i = Reg" "crc_of X (i_data i) = fi_crc32 fi"
    using regular_file_at [of w ?d i] ok(1) by (auto simp: readable_data_def calls_ok_def qs)
  ultimately show ?thesis using s path ne fi by (auto simp: qs)
qed auto

theorem retrieve_file_delivers_witness:
  "fst (retrieve_file demo_ext demo_rr (demo_upload [123, 125] (\<lambda>_. None))) = Inr (good (tm_file_info demo_tm))
   \<and> (\<exists>j. file_at (ag_world (snd (retrieve_file demo_ext demo_rr (demo_upload [123, 125] (\<lambda>_. None))))) ''/a/g'' = Some j)"
proof -
  let ?a = "demo_upload [123, 125] (\<lambda>_. None)"
  have run: "fst (retrieve_file demo_ext demo_rr ?a) = Inr (good (tm_file_info demo_tm))" by code_simp
  then have eq: "retrieve_file demo_ext demo_rr ?a = (Inr (good (tm_file_info demo_tm)), snd (retrieve_file demo_ext demo_rr ?a))"
    by (simp add: prod_eq_iff)
  have wf: "cache_wf (meta_cache ?a)" by code_simp
  have "fs_env (upload_data ?a (rr_id demo_rr)) (ag_world ?a)" "removable (ag_world ?a) (upload_meta ?a (rr_id demo_rr))"
    by code_simp+
  moreover have "calls_ok p (ag_world ?a)" for p by (simp add: calls_ok_def demo_upload_fault)
  ultimately show ?thesis
    using retrieve_file_delivers [OF demo_json_errors wf eq] run by (auto simp: demo_rr_def)
qed

end
