(* ===== verification/Oort_Adaptor.thy ===== *)
theory Oort_Adaptor
  imports Oort_Model Oort_Sync
begin

text \<open>
  \<^verbatim>\<open>impl/Adaptor.cpp\<close>, \<^verbatim>\<open>impl/AgentUAVCANClient.cpp\<close> and \<open>Agent::adcs_command\<close>: commands to the attitude control,
  translated to messages of the CAN bus and back. The structures of the bus are those of
  \<^verbatim>\<open>ussp/payload\<close>, those of the API those of \<^verbatim>\<open>spec/adcs-schema.yml\<close>.

  The numbers of the bus (\<open>float32\<close>, type \<open>'f\<close>) and of the API (type \<open>'n\<close>) are parameters, with the
  conversions the compiler inserts between them (\<open>conv\<close>): the adaptors do no arithmetic.
\<close>

section \<open>Structures\<close>

record ('f, 'n) conv =
  to_number :: "'f \<Rightarrow> 'n"
  to_float32 :: "'n \<Rightarrow> 'f"

record 'f QuatT =
  q1 :: 'f
  q2 :: 'f
  q3 :: 'f
  q4 :: 'f

record 'f XyzFloatT =
  xyz_x :: 'f
  xyz_y :: 'f
  xyz_z :: 'f

record 'f TargetT =
  lat :: 'f
  lon :: 'f

record 'n Adcs_quat_t =
  getQ1 :: 'n
  getQ2 :: 'n
  getQ3 :: 'n
  getQ4 :: 'n

record 'n Adcs_xyz_float_t =
  getX :: 'n
  getY :: 'n
  getZ :: 'n

record 'n AdcsTarget =
  getLat :: 'n
  getLon :: 'n

text \<open>Of an array of at most one element only its contents matter; \<open>AcsMode\<close> is its number.\<close>

record 'f CommandRequest =
  adcs_command :: "8 word"
  aperture :: string
  target :: "'f TargetT list"
  angle :: "'f list"
  quat :: "'f QuatT list"
  vector :: "'f XyzFloatT list"

record 'f CommandResponse =
  u_status :: "8 word"
  u_reason :: string
  u_mode :: "8 word"
  u_target :: "'f TargetT list"
  u_quat :: "'f QuatT list"
  u_vector :: "'f XyzFloatT list"

record 'n AdcsCommandRequest =
  o_command :: string
  o_aperture :: "string option"
  o_target :: "'n AdcsTarget option"
  o_angle :: "'n option"
  o_quat :: "'n Adcs_quat_t option"
  o_vector :: "'n Adcs_xyz_float_t option"

record 'n AdcsCommandResponse =
  r_status :: string
  r_reason :: string
  r_mode :: string
  r_target :: "'n AdcsTarget option"
  r_quat :: "'n Adcs_quat_t option"
  r_vector :: "'n Adcs_xyz_float_t option"

definition empty_response :: "'n AdcsCommandResponse" where
  "empty_response = \<lparr>r_status = [], r_reason = [], r_mode = [], r_target = None, r_quat = None, r_vector = None\<rparr>"

section \<open>Adapt\<close>

definition Adapt_quat :: "('f, 'n) conv \<Rightarrow> 'f QuatT \<Rightarrow> 'n Adcs_quat_t" where
  "Adapt_quat C src = \<lparr>getQ1 = to_number C (q1 src), getQ2 = to_number C (q2 src),
     getQ3 = to_number C (q3 src), getQ4 = to_number C (q4 src)\<rparr>"

definition Adapt_xyz :: "('f, 'n) conv \<Rightarrow> 'f XyzFloatT \<Rightarrow> 'n Adcs_xyz_float_t" where
  "Adapt_xyz C src = \<lparr>getX = to_number C (xyz_x src), getY = to_number C (xyz_y src), getZ = to_number C (xyz_z src)\<rparr>"

definition Adapt_target :: "('f, 'n) conv \<Rightarrow> 'f TargetT \<Rightarrow> 'n AdcsTarget" where
  "Adapt_target C src = \<lparr>getLat = to_number C (lat src), getLon = to_number C (lon src)\<rparr>"

definition Adapt_quat_back :: "('f, 'n) conv \<Rightarrow> 'n Adcs_quat_t \<Rightarrow> 'f QuatT" where
  "Adapt_quat_back C src = \<lparr>q1 = to_float32 C (getQ1 src), q2 = to_float32 C (getQ2 src),
     q3 = to_float32 C (getQ3 src), q4 = to_float32 C (getQ4 src)\<rparr>"

definition Adapt_xyz_back :: "('f, 'n) conv \<Rightarrow> 'n Adcs_xyz_float_t \<Rightarrow> 'f XyzFloatT" where
  "Adapt_xyz_back C src = \<lparr>xyz_x = to_float32 C (getX src), xyz_y = to_float32 C (getY src), xyz_z = to_float32 C (getZ src)\<rparr>"

definition Adapt_target_back :: "('f, 'n) conv \<Rightarrow> 'n AdcsTarget \<Rightarrow> 'f TargetT" where
  "Adapt_target_back C src = \<lparr>lat = to_float32 C (getLat src), lon = to_float32 C (getLon src)\<rparr>"

text \<open>The modes of \<^verbatim>\<open>AcsMode.uavcan\<close> and their names in \<^verbatim>\<open>Adaptor.h\<close>.\<close>

definition DecodeAcsMode :: "8 word \<Rightarrow> string" where
  "DecodeAcsMode mode =
     (if mode = 0 then ''NO-OP''
      else if mode = 1 then ''BDOT''
      else if mode = 2 then ''DETUMBLE''
      else if mode = 3 then ''SUNPOINT''
      else if mode = 4 then ''NADIRPOINTYAW''
      else if mode = 5 then ''SUNSPIN''
      else if mode = 6 then ''NADIRPOINTSUN''
      else if mode = 7 then ''SUNPOINTNADIR''
      else if mode = 8 then ''LATLONTRACK''
      else if mode = 9 then ''INERTIALPOINT''
      else ''UNKNOWN'')"

definition EncodeAcsMode :: "string \<Rightarrow> 8 word" where
  "EncodeAcsMode src =
     (if src = ''NO-OP'' then 0
      else if src = ''BDOT'' then 1
      else if src = ''DETUMBLE'' then 2
      else if src = ''SUNPOINT'' then 3
      else if src = ''NADIRPOINTYAW'' then 4
      else if src = ''SUNSPIN'' then 5
      else if src = ''NADIRPOINTSUN'' then 6
      else if src = ''SUNPOINTNADIR'' then 7
      else if src = ''LATLONTRACK'' then 8
      else if src = ''INERTIALPOINT'' then 9
      else 255)"

text \<open>A C string ends at its first NUL.\<close>

definition c_str :: "string \<Rightarrow> string" where
  "c_str s = takeWhile (\<lambda>c. c \<noteq> CHR 0x00) s"

definition aperture_capacity :: nat where
  "aperture_capacity = 25"

definition Adapt_request :: "('f, 'n) conv \<Rightarrow> 'n AdcsCommandRequest \<Rightarrow> exn + 'f CommandRequest" where
  "Adapt_request C o_req =
     (let mode = o_command o_req in
      case (if mode = ''IDLE'' then Inr 0 else if mode = ''NADIR'' then Inr 1 else if mode = ''TRACK'' then Inr 2
            else Inl (runtime_error (''Cannot translate command '' @ mode))) of
        Inl e \<Rightarrow> Inl e
      | Inr cmd \<Rightarrow>
          (case (case o_aperture o_req of
                   None \<Rightarrow> Inr []
                 | Some ap \<Rightarrow> if aperture_capacity < length ap then Inl (runtime_error ''Invalid aperture specification'')
                              else Inr (c_str ap)) of
             Inl e \<Rightarrow> Inl e
           | Inr ap \<Rightarrow>
               Inr \<lparr>adcs_command = cmd, aperture = ap,
                 target = (case o_target o_req of None \<Rightarrow> [] | Some t \<Rightarrow> [Adapt_target_back C t]),
                 angle = (case o_angle o_req of None \<Rightarrow> [] | Some a \<Rightarrow> [to_float32 C a]),
                 quat = (case o_quat o_req of None \<Rightarrow> [] | Some q \<Rightarrow> [Adapt_quat_back C q]),
                 vector = (case o_vector o_req of None \<Rightarrow> [] | Some v \<Rightarrow> [Adapt_xyz_back C v])\<rparr>))"

definition Adapt_response :: "('f, 'n) conv \<Rightarrow> 'f CommandResponse \<Rightarrow> 'n AdcsCommandResponse" where
  "Adapt_response C u_resp = \<lparr>
     r_status = (if u_status u_resp = 0 then ''OK'' else if u_status u_resp = 1 then ''FAIL'' else ''UNKNOWN''),
     r_reason = c_str (u_reason u_resp),
     r_mode = DecodeAcsMode (u_mode u_resp),
     r_target = (case u_target u_resp of [] \<Rightarrow> None | t # _ \<Rightarrow> Some (Adapt_target C t)),
     r_quat = (case u_quat u_resp of [] \<Rightarrow> None | q # _ \<Rightarrow> Some (Adapt_quat C q)),
     r_vector = (case u_vector u_resp of [] \<Rightarrow> None | v # _ \<Rightarrow> Some (Adapt_xyz C v))\<rparr>"

section \<open>The client\<close>

text \<open>
  \<open>call\<close> is the blocking call of the CAN library on the node of the shim: its status, whether
  it was successful, and the response. The requests it was given are recorded.
\<close>

type_synonym 'f can_call = "8 word \<Rightarrow> 'f CommandRequest \<Rightarrow> int \<times> bool \<times> 'f CommandResponse"

text \<open>A node is identified by a \<open>uavcan::NodeID\<close>, which takes eight bits of the configured number.\<close>

definition NodeID :: "32 word \<Rightarrow> 8 word" where
  "NodeID n = ucast n"

definition AdcsCommand :: "('f, 'n) conv \<Rightarrow> 'f can_call \<Rightarrow> 32 word \<Rightarrow> 'n AdcsCommandRequest \<Rightarrow>
    'n AdcsCommandResponse \<Rightarrow> 'f CommandRequest list \<Rightarrow> 'n AdcsCommandResponse \<times> 'f CommandRequest list" where
  "AdcsCommand C call shim req rsp sent = (case Adapt_request C req of
      Inl e \<Rightarrow> (rsp\<lparr>r_status := ''FAIL'', r_reason := what (\<lambda>_. []) e\<rparr>, sent)
    | Inr can_req \<Rightarrow> (case call (NodeID shim) can_req of (can_stat, successful, can_rsp) \<Rightarrow>
        (if can_stat \<le> 0 \<or> \<not> successful
         then rsp\<lparr>r_status := ''FAIL'', r_reason := ''Error contacting service: '' @ to_string can_stat\<rparr>
         else Adapt_response C can_rsp, sent @ [can_req])))"

section \<open>Agent::adcs\_command\<close>

text \<open>
  The latch is static and shared by the threads that serve requests. The handler is cut where
  other threads can run in between: taking the latch, and what is done with it in hand, up to
  the destructor of the guard.
\<close>

definition adcs_enter :: "nat \<Rightarrow> bool \<times> nat" where
  "adcs_enter latch = (let (got, owned, v) = guard_trywait (False, latch) in (got, v))"

definition adcs_busy :: "'n AdcsCommandResponse ResponseCode" where
  "adcs_busy = bad ''Request in progress''"

definition adcs_finish :: "('f, 'n) conv \<Rightarrow> 'f can_call \<Rightarrow> 32 word \<Rightarrow> 'n AdcsCommandRequest \<Rightarrow> 'f CommandRequest list \<Rightarrow> nat \<Rightarrow>
    'n AdcsCommandResponse ResponseCode \<times> 'f CommandRequest list \<times> nat" where
  "adcs_finish C call shim req sent latch = (case AdcsCommand C call shim req empty_response sent of (rsp, sent') \<Rightarrow>
     (if r_status rsp = ''OK'' then \<lparr>code = Ok, result = Some rsp, err = []\<rparr>
      else \<lparr>code = Bad_Request, result = Some rsp, err = r_reason rsp\<rparr>, sent', guard_destroy (True, latch)))"

text \<open>The whole handler; without a client nothing is tried.\<close>

definition adcs_command_post :: "('f, 'n) conv \<Rightarrow> ('f can_call \<times> 32 word) option \<Rightarrow> 'n AdcsCommandRequest \<Rightarrow> 'f CommandRequest list \<Rightarrow> nat \<Rightarrow>
    'n AdcsCommandResponse ResponseCode \<times> 'f CommandRequest list \<times> nat" where
  "adcs_command_post C client req sent latch = (case client of
      None \<Rightarrow> (bad ''Adcs interface is unavailable'', sent, guard_destroy (False, latch))
    | Some (call, shim) \<Rightarrow> (case adcs_enter latch of
        (True, v) \<Rightarrow> adcs_finish C call shim req sent v
      | (False, v) \<Rightarrow> (adcs_busy, sent, guard_destroy (False, v))))"

section \<open>Translations\<close>

lemma word_less_10: "(m :: 8 word) < 10 \<Longrightarrow> m \<in> {0, 1, 2, 3, 4, 5, 6, 7, 8, 9}"
proof -
  assume "m < 10"
  then have "unat m < 10" by (simp add: word_less_nat_alt)
  then have "unat m \<in> {0, 1, 2, 3, 4, 5, 6, 7, 8, 9}" by auto
  then have "word_of_nat (unat m) \<in> (word_of_nat ` {0, 1, 2, 3, 4, 5, 6, 7, 8, 9} :: 8 word set)" by (rule imageI)
  then show ?thesis by simp
qed

text \<open>
  The names of the modes lose nothing: every mode of the attitude control is read back from its
  name, and every other number has the one name that is read back as 255.
\<close>

lemma acs_mode_roundtrip: "EncodeAcsMode (DecodeAcsMode m) = (if m < 10 then m else 255)"
proof (cases "m < 10")
  case True
  have "list_all (\<lambda>m. EncodeAcsMode (DecodeAcsMode m) = m) [0, 1, 2, 3, 4, 5, 6, 7, 8, 9]" by code_simp
  with True word_less_10 [OF True] show ?thesis by auto
next
  case False
  have "list_all (\<lambda>m. m < (10 :: 8 word)) [0, 1, 2, 3, 4, 5, 6, 7, 8, 9]" by code_simp
  then have "DecodeAcsMode m = ''UNKNOWN''" using False by (auto simp: DecodeAcsMode_def)
  moreover have "EncodeAcsMode ''UNKNOWN'' = 255" by code_simp
  ultimately show ?thesis using False by simp
qed

text \<open>Widening to the numbers of the API is exact.\<close>

definition exact :: "('f, 'n) conv \<Rightarrow> bool" where
  "exact C \<longleftrightarrow> (\<forall>f. to_float32 C (to_number C f) = f)"

text \<open>
  A structure of the bus that is translated to the API and back is the same, provided that
  widening a \<open>float32\<close> and narrowing it again is.
\<close>

lemma adapt_roundtrip:
  assumes "exact C"
  shows "Adapt_quat_back C (Adapt_quat C qu) = qu \<and> Adapt_xyz_back C (Adapt_xyz C v) = v
    \<and> Adapt_target_back C (Adapt_target C t) = t"
  using assms
  by (simp add: exact_def Adapt_quat_back_def Adapt_quat_def Adapt_xyz_back_def Adapt_xyz_def Adapt_target_back_def Adapt_target_def)

text \<open>Numbers of 32 bits widened to 64.\<close>

definition demo_conv :: "(32 word, 64 word) conv" where
  "demo_conv = \<lparr>to_number = ucast, to_float32 = ucast\<rparr>"

lemma demo_exact: "exact demo_conv"
proof -
  have "ucast (ucast f :: 64 word) = f" for f :: "32 word" by (rule bit_word_eqI) (auto simp: bit_simps)
  then show ?thesis by (simp add: exact_def demo_conv_def)
qed

section \<open>Commands\<close>

lemma latch_simps [simp]: "adcs_enter (Suc 0) = (True, 0)" "guard_destroy (True, 0) = Suc 0" "projr BinSemaphore = Suc 0"
  by (simp_all add: adcs_enter_def guard_trywait_def guard_destroy_def sem_trywait_def sem_post_def BinSemaphore_def
      new_Semaphore_def SEM_VALUE_MAX_def)

text \<open>
  (C26) A command is answered by \<open>Ok\<close> exactly when it can be translated, the call succeeds and the
  other side reports success. One message is sent for a command that can be translated and none
  otherwise, and the latch is free again afterwards.
\<close>

theorem adcs_command_result:
  "(code (fst (adcs_command_post C (Some (call, shim)) req sent 1)) = Ok \<longleftrightarrow>
      (\<exists>can_req can_stat can_rsp. Adapt_request C req = Inr can_req \<and> call (NodeID shim) can_req = (can_stat, True, can_rsp)
         \<and> 0 < can_stat \<and> u_status can_rsp = 0))
   \<and> snd (adcs_command_post C (Some (call, shim)) req sent 1) =
      (sent @ (case Adapt_request C req of Inl _ \<Rightarrow> [] | Inr can_req \<Rightarrow> [can_req]), 1)"
proof -
  have "\<lbrakk>Adapt_request C req = Inr q; call (NodeID shim) q = (st, su, rs)\<rbrakk> \<Longrightarrow>
     r_status (Adapt_response C rs) = ''OK'' \<longleftrightarrow> u_status rs = 0" for q st su rs
    by (auto simp: Adapt_response_def)
  then show ?thesis
    by (auto simp: adcs_command_post_def adcs_finish_def AdcsCommand_def split: sum.splits prod.splits if_splits)
qed

section \<open>Threads\<close>

record adcs_sys =
  s_latch :: nat
  s_inside :: "nat set"

text \<open>A thread takes the latch, is refused, or finishes; the results do not matter here.\<close>

inductive adcs_step :: "('f, 'n) conv \<Rightarrow> 'f can_call \<Rightarrow> 32 word \<Rightarrow> adcs_sys \<Rightarrow> adcs_sys \<Rightarrow> bool" for C call shim where
  enters: "t \<notin> s_inside s \<Longrightarrow> adcs_enter (s_latch s) = (True, v) \<Longrightarrow>
    adcs_step C call shim s (s\<lparr>s_latch := v, s_inside := insert t (s_inside s)\<rparr>)"
| refused: "t \<notin> s_inside s \<Longrightarrow> adcs_enter (s_latch s) = (False, v) \<Longrightarrow>
    adcs_step C call shim s (s\<lparr>s_latch := guard_destroy (False, v)\<rparr>)"
| finishes: "t \<in> s_inside s \<Longrightarrow> adcs_finish C call shim req sent (s_latch s) = (resp, sent', v) \<Longrightarrow>
    adcs_step C call shim s (s\<lparr>s_latch := v, s_inside := s_inside s - {t}\<rparr>)"

definition adcs_init :: adcs_sys where
  "adcs_init = \<lparr>s_latch = projr BinSemaphore, s_inside = {}\<rparr>"

definition adcs_inv :: "adcs_sys \<Rightarrow> bool" where
  "adcs_inv s \<longleftrightarrow> s_latch s \<le> 1 \<and> held (\<lambda>v. 0 < v) (s_latch s) (s_inside s)"

lemma adcs_inv_init: "adcs_inv adcs_init"
  by (simp add: adcs_inv_def adcs_init_def held_def)

lemma adcs_inv_step:
  assumes "adcs_inv s" and "adcs_step C call shim s s'"
  shows "adcs_inv s'"
  using assms(2)
proof cases
  case (enters t v)
  then show ?thesis using latch.held_enter [of "s_latch s" "s_inside s" v t] assms(1)
    by (simp add: adcs_inv_def adcs_enter_def)
next
  case (refused t v)
  then show ?thesis using latch.held_refused [of "s_latch s" "s_inside s" v] assms(1)
    by (simp add: adcs_inv_def adcs_enter_def guard_destroy_def)
next
  case (finishes t req sent resp sent' v)
  then have "v = guard_destroy (True, s_latch s)" by (simp add: adcs_finish_def split: prod.splits)
  then show ?thesis using latch.held_leave [of "s_latch s" "s_inside s" t] finishes assms(1)
    by (auto simp: adcs_inv_def)
qed

lemma adcs_reachable_inv: "(adcs_step C call shim)\<^sup>*\<^sup>* adcs_init s \<Longrightarrow> adcs_inv s"
  by (induction rule: rtranclp_induct) (auto intro: adcs_inv_init adcs_inv_step)

text \<open>
  (C17) Commands do not overlap: in every order of the threads' steps, at most one of them is using
  the client, a thread is refused only while another one is, and when none is the latch
  is free, so that the next command is taken.
\<close>

theorem adcs_command_exclusive:
  assumes "(adcs_step C call shim)\<^sup>*\<^sup>* adcs_init s"
  shows "(\<forall>t u. t \<in> s_inside s \<longrightarrow> u \<in> s_inside s \<longrightarrow> t = u)
    \<and> (fst (adcs_enter (s_latch s)) \<longleftrightarrow> s_inside s = {})"
proof -
  have "adcs_inv s" by (rule adcs_reachable_inv [OF assms])
  then show ?thesis
    by (auto simp: adcs_inv_def held_def adcs_enter_def guard_trywait_def sem_trywait_def Let_def split: if_splits)
qed

definition no_answer :: "32 word can_call" where
  "no_answer shim can_req = (-1, False, \<lparr>u_status = 0, u_reason = [], u_mode = 0, u_target = [], u_quat = [], u_vector = []\<rparr>)"

theorem adcs_command_exclusive_witness:
  "\<exists>s. (adcs_step demo_conv no_answer 50)\<^sup>*\<^sup>* adcs_init s \<and> s_inside s = {7} \<and> \<not> fst (adcs_enter (s_latch s))"
proof -
  have "adcs_enter (s_latch adcs_init) = (True, 0)" "s_inside adcs_init = {}" by (simp_all add: adcs_init_def)
  then have "adcs_step demo_conv no_answer 50 adcs_init (adcs_init\<lparr>s_latch := 0, s_inside := {7}\<rparr>)"
    using adcs_step.enters [of 7 adcs_init 0 demo_conv no_answer 50] by simp
  then have r: "(adcs_step demo_conv no_answer 50)\<^sup>*\<^sup>* adcs_init (adcs_init\<lparr>s_latch := 0, s_inside := {7}\<rparr>)" by blast
  from adcs_command_exclusive [OF r] r show ?thesis by (intro exI [of _ "adcs_init\<lparr>s_latch := 0, s_inside := {7}\<rparr>"]) simp
qed

end
