(* ===== verification/Oort_Log.thy ===== *)
theory Oort_Log
  imports Oort_Prelude
begin

text \<open>
  \<^verbatim>\<open>impl/Log.cpp\<close>, \<^verbatim>\<open>impl/Log.h\<close> and \<^verbatim>\<open>impl/OnionLog.cpp\<close>: the logger. Its state is that of the namespace
  \<open>Log\<close> and the thread-local variables of every thread; what it has written is kept as a list of
  lines, each with the place it went to. The semaphore around the writing makes a call of
  \<open>log\<close> one step of that list.

  Handlers of the other theories leave their log calls out: nothing here reads their state, and
  they read nothing of the logger's.
\<close>

section \<open>State\<close>

datatype levels = Debug | Info | Warn | Error

fun level_no :: "levels \<Rightarrow> nat" where
  "level_no Debug = 0"
| "level_no Info = 1"
| "level_no Warn = 2"
| "level_no Error = 3"

fun levelNames :: "levels \<Rightarrow> string" where
  "levelNames Debug = ''debug''"
| "levelNames Info = ''info''"
| "levelNames Warn = ''warn''"
| "levelNames Error = ''error''"

text \<open>\<open>LOG_DEBUG\<close>, \<open>LOG_INFO\<close>, \<open>LOG_WARNING\<close> and \<open>LOG_ERR\<close> of \<^verbatim>\<open>syslog.h\<close>.\<close>

fun syslogLevels :: "levels \<Rightarrow> int" where
  "syslogLevels Debug = 7"
| "syslogLevels Info = 6"
| "syslogLevels Warn = 4"
| "syslogLevels Error = 3"

record thread_vars =
  thread_name :: string
  thread_desc :: string
  thread_num :: int

text \<open>Where a line went: a stream, by name, or the system log with the identifier and a priority.\<close>

datatype sink = Stream string | Syslog string int

record logger =
  l_level :: levels
  l_out :: string
  using_syslog :: bool
  l_ident :: string
  thread_count :: int
  thread_locals :: "nat \<Rightarrow> thread_vars"
  l_lines :: "(sink \<times> string) list"

definition logger_init :: logger where
  "logger_init = \<lparr>l_level = Info, l_out = ''cerr'', using_syslog = False, l_ident = [], thread_count = 0,
     thread_locals = (\<lambda>_. \<lparr>thread_name = ''main'', thread_desc = [], thread_num = -1\<rparr>), l_lines = []\<rparr>"

section \<open>Time stamps\<close>

text \<open>
  \<open>gmtime\<close> of a time that is not negative: the years and then the months of the Gregorian calendar
  are taken off the days since the epoch.
\<close>

definition leap_year :: "int \<Rightarrow> bool" where
  "leap_year y \<longleftrightarrow> y mod 4 = 0 \<and> (y mod 100 \<noteq> 0 \<or> y mod 400 = 0)"

definition year_days :: "int \<Rightarrow> int" where
  "year_days y = (if leap_year y then 366 else 365)"

definition month_days :: "int \<Rightarrow> int list" where
  "month_days y = [31, if leap_year y then 29 else 28, 31, 30, 31, 30, 31, 31, 30, 31, 30, 31]"

function year_loop :: "int \<Rightarrow> int \<Rightarrow> int \<times> int" where
  "year_loop y d = (if d < year_days y then (y, d) else year_loop (y + 1) (d - year_days y))"
  by pat_completeness auto
termination by (relation "measure (\<lambda>(y, d). nat d)") (auto simp: year_days_def split: if_splits)

declare year_loop.simps [simp del]

fun month_loop :: "int list \<Rightarrow> int \<Rightarrow> int \<Rightarrow> int \<times> int" where
  "month_loop [] m d = (m, d)"
| "month_loop (n # ns) m d = (if d < n then (m, d) else month_loop ns (m + 1) (d - n))"

record tm =
  tm_year :: int
  tm_mon :: int
  tm_mday :: int
  tm_hour :: int
  tm_min :: int
  tm_sec :: int

definition gmtime :: "int \<Rightarrow> tm" where
  "gmtime t = (case year_loop 1970 (t div 86400) of (y, d) \<Rightarrow>
     case month_loop (month_days y) 1 d of (m, k) \<Rightarrow>
     \<lparr>tm_year = y, tm_mon = m, tm_mday = k + 1, tm_hour = t mod 86400 div 3600,
      tm_min = t mod 3600 div 60, tm_sec = t mod 60\<rparr>)"

text \<open>\<open>strftime\<close>: two digits for every field but the year.\<close>

definition two :: "int \<Rightarrow> string" where
  "two n = [dec_digit (n div 10), dec_digit n]"

definition fmttime :: "int \<Rightarrow> string" where
  "fmttime t = (let b = gmtime t in
     ''['' @ to_string (tm_year b) @ ''-'' @ two (tm_mon b) @ ''-'' @ two (tm_mday b) @ '' ''
       @ two (tm_hour b) @ '':'' @ two (tm_min b) @ '':'' @ two (tm_sec b) @ ''Z] '')"

section \<open>Threads\<close>

text \<open>\<open>setThreadDesc\<close> and the operations that use it, for the thread that runs.\<close>

definition setThreadDesc :: "thread_vars \<Rightarrow> thread_vars" where
  "setThreadDesc v = v\<lparr>thread_desc := thread_name v @ '':'' @ to_string (thread_num v)\<rparr>"

definition setThreadName :: "nat \<Rightarrow> string \<Rightarrow> logger \<Rightarrow> logger" where
  "setThreadName t name g = g\<lparr>thread_locals := (thread_locals g)
     (t := setThreadDesc ((thread_locals g t)\<lparr>thread_name := name\<rparr>))\<rparr>"

text \<open>\<open>fetch_add\<close> of an \<open>atomic_int\<close> wraps.\<close>

definition wrap32 :: "int \<Rightarrow> int" where
  "wrap32 n = (n + 2 ^ 31) mod 2 ^ 32 - 2 ^ 31"

definition getThreadDesc :: "nat \<Rightarrow> logger \<Rightarrow> string \<times> logger" where
  "getThreadDesc t g = (if thread_num (thread_locals g t) = -1
     then let v = setThreadDesc ((thread_locals g t)\<lparr>thread_num := thread_count g\<rparr>)
          in (thread_desc v, g\<lparr>thread_locals := (thread_locals g)(t := v), thread_count := wrap32 (thread_count g + 1)\<rparr>)
     else (thread_desc (thread_locals g t), g))"

section \<open>Writing a line\<close>

text \<open>\<open>find('?', mstart)\<close>.\<close>

definition find_from :: "char \<Rightarrow> string \<Rightarrow> nat \<Rightarrow> nat option" where
  "find_from c s i = (let n = length (takeWhile (\<lambda>x. x \<noteq> c) (drop i s)) in
     if i + n < length s then Some (i + n) else None)"

text \<open>The loop over the question marks of the message: \<open>s_out\<close> grows by a piece and a parameter.\<close>

function fill_loop :: "string \<Rightarrow> string list \<Rightarrow> nat \<Rightarrow> nat \<Rightarrow> string \<Rightarrow> string" where
  "fill_loop msg params mstart ix s_out = (case find_from CHR ''?'' msg mstart of
      Some m \<Rightarrow> if ix < length params
        then fill_loop msg params (m + 1) (ix + 1) (s_out @ take (m - mstart) (drop mstart msg) @ params ! ix)
        else s_out @ drop mstart msg
    | None \<Rightarrow> s_out @ drop mstart msg)"
  by pat_completeness auto
termination by (relation "measure (\<lambda>(msg, params, mstart, ix, s). length params - ix)") auto

declare fill_loop.simps [simp del]

definition log_msg :: "int \<Rightarrow> nat \<Rightarrow> levels \<Rightarrow> string \<Rightarrow> string list \<Rightarrow> logger \<Rightarrow> logger" where
  "log_msg now t level msg params g = (if level_no (l_level g) \<le> level_no level then
     (let stamp = (if using_syslog g then [] else fmttime now);
          (desc, g') = getThreadDesc t g;
          s_out = fill_loop msg params 0 0 (stamp @ levelNames level @ '' '' @ ''['' @ desc @ ''] '')
      in g'\<lparr>l_lines := l_lines g' @ [(if using_syslog g' then Syslog (l_ident g') (syslogLevels level)
                                      else Stream (l_out g'), s_out)]\<rparr>)
     else g)"

text \<open>The four functions of the interface fill the parameters that are not given with \<^verbatim>\<open><>\<close>.\<close>

definition log_args :: "string list \<Rightarrow> string list" where
  "log_args given = take 6 (given @ replicate 6 ''<>'')"

definition setLevel :: "levels \<Rightarrow> logger \<Rightarrow> logger" where
  "setLevel l g = g\<lparr>l_level := l\<rparr>"

definition setOut :: "string \<Rightarrow> logger \<Rightarrow> logger" where
  "setOut out g = g\<lparr>using_syslog := False, l_out := out\<rparr>"

definition setSyslog :: "string \<Rightarrow> logger \<Rightarrow> logger" where
  "setSyslog ident g = g\<lparr>using_syslog := True, l_ident := ident\<rparr>"

section \<open>The logger of the HTTP library\<close>

datatype onion_log_level = O_DEBUG0 | O_DEBUG | O_INFO | O_WARNING | O_ERROR | O_OTHER

text \<open>\<open>text\<close> is what \<open>vsnprintf\<close> makes of the format and its arguments; it may fail.\<close>

definition agent_onion_log :: "int \<Rightarrow> nat \<Rightarrow> onion_log_level \<Rightarrow> string option \<Rightarrow> logger \<Rightarrow> logger" where
  "agent_onion_log now t level formatted g = (case formatted of
      None \<Rightarrow> g
    | Some buf \<Rightarrow> (case level of
          O_DEBUG0 \<Rightarrow> log_msg now t Debug ''?'' (log_args [buf]) g
        | O_DEBUG \<Rightarrow> log_msg now t Debug ''?'' (log_args [buf]) g
        | O_INFO \<Rightarrow> log_msg now t Info ''?'' (log_args [buf]) g
        | O_WARNING \<Rightarrow> log_msg now t Warn ''?'' (log_args [buf]) g
        | O_ERROR \<Rightarrow> log_msg now t Error ''?'' (log_args [buf]) g
        | O_OTHER \<Rightarrow> g))"

section \<open>What a message looks like\<close>

text \<open>The message with its question marks replaced from left to right, as long as there are parameters.\<close>

fun fill :: "string \<Rightarrow> string list \<Rightarrow> string" where
  "fill [] ps = []"
| "fill (c # cs) ps = (if c = CHR ''?'' \<and> ps \<noteq> [] then hd ps @ fill cs (tl ps) else c # fill cs ps)"

lemma fill_no_params [simp]: "fill s [] = s"
  by (induction s) auto

lemma fill_no_mark: "CHR ''?'' \<notin> set s \<Longrightarrow> fill s ps = s"
  by (induction s) auto

lemma fill_append: "CHR ''?'' \<notin> set a \<Longrightarrow> fill (a @ b) ps = a @ fill b ps"
  by (induction a) auto

lemma find_from_None: "find_from c s i = None \<Longrightarrow> c \<notin> set (drop i s)"
proof
  assume "find_from c s i = None" and "c \<in> set (drop i s)"
  moreover from this(2) have "length (takeWhile (\<lambda>x. x \<noteq> c) (drop i s)) < length (drop i s)"
    by (rule takeWhile_neq_shorter)
  ultimately show False by (auto simp: find_from_def Let_def split: if_splits)
qed

lemma find_from_Some:
  assumes "find_from c s i = Some m"
  shows "i \<le> m" "m < length s" "drop i s = take (m - i) (drop i s) @ c # drop (m + 1) s" "c \<notin> set (take (m - i) (drop i s))"
proof -
  let ?n = "length (takeWhile (\<lambda>x. x \<noteq> c) (drop i s))"
  have m: "m = i + ?n" "i + ?n < length s" using assms by (auto simp: find_from_def Let_def split: if_splits)
  then show "i \<le> m" "m < length s" by simp_all
  have tw: "take ?n (drop i s) = takeWhile (\<lambda>x. x \<noteq> c) (drop i s)" by (simp add: takeWhile_eq_take [symmetric])
  then show "c \<notin> set (take (m - i) (drop i s))" using m(1) by (auto dest: set_takeWhileD)
  have "drop i s ! ?n = c" using m nth_length_takeWhile [of "\<lambda>x. x \<noteq> c" "drop i s"] by simp
  then have "drop i s = take ?n (drop i s) @ c # drop (Suc ?n) (drop i s)"
    using m id_take_nth_drop [of ?n "drop i s"] by simp
  then show "drop i s = take (m - i) (drop i s) @ c # drop (m + 1) s" using m(1) by (simp add: add.commute)
qed

lemma fill_loop_fill:
  "mstart \<le> length msg \<Longrightarrow> fill_loop msg params mstart ix s_out = s_out @ fill (drop mstart msg) (drop ix params)"
proof (induction msg params mstart ix s_out rule: fill_loop.induct)
  case (1 msg params mstart ix s_out)
  show ?case
  proof (cases "find_from CHR ''?'' msg mstart")
    case None
    then show ?thesis using find_from_None [OF None] by (simp add: fill_loop.simps fill_no_mark)
  next
    case (Some m)
    note f = find_from_Some [OF Some]
    show ?thesis
    proof (cases "ix < length params")
      case False
      then show ?thesis using Some by (simp add: fill_loop.simps)
    next
      case True
      let ?a = "take (m - mstart) (drop mstart msg)"
      have "fill (drop mstart msg) (drop ix params) = fill (?a @ CHR ''?'' # drop (m + 1) msg) (drop ix params)"
        using f(3) by simp
      also have "\<dots> = ?a @ params ! ix @ fill (drop (m + 1) msg) (drop (ix + 1) params)"
        using f(4) True by (simp add: fill_append hd_drop_conv_nth drop_Suc tl_drop)
      finally show ?thesis
        using "1.IH" [OF Some True] f(2) Some True by (subst fill_loop.simps) simp
    qed
  qed
qed

text \<open>
  (C30) A line of the log is the message with its question marks replaced from left to right, a
  parameter's own question marks left alone, behind the time (unless the system log adds
  it), the level and the description of the thread. A call below the level of the logger writes nothing.
\<close>

theorem log_msg_line:
  "l_lines (log_msg now t level msg params g) = l_lines g @
    (if level_no (l_level g) \<le> level_no level
     then [(if using_syslog g then Syslog (l_ident g) (syslogLevels level) else Stream (l_out g),
            (if using_syslog g then [] else fmttime now) @ levelNames level @ '' ['' @ fst (getThreadDesc t g) @ ''] ''
              @ fill msg params)]
     else [])"
proof -
  obtain d g' where d: "getThreadDesc t g = (d, g')" by (cases "getThreadDesc t g")
  then have "using_syslog g' = using_syslog g" "l_ident g' = l_ident g" "l_out g' = l_out g" "l_lines g' = l_lines g"
    by (auto simp: getThreadDesc_def Let_def split: if_splits)
  with d show ?thesis by (simp add: log_msg_def fill_loop_fill)
qed

section \<open>Thread numbers\<close>

text \<open>What threads do with the logger.\<close>

datatype log_event =
    Name nat string
  | Line int nat levels string "string list"
  | Level levels
  | Out string
  | To_syslog string

fun log_step :: "log_event \<Rightarrow> logger \<Rightarrow> logger" where
  "log_step (Name t name) g = setThreadName t name g"
| "log_step (Line now t level msg params) g = log_msg now t level msg params g"
| "log_step (Level l) g = setLevel l g"
| "log_step (Out out) g = setOut out g"
| "log_step (To_syslog ident) g = setSyslog ident g"

text \<open>
  The thread numbers below the count are given out, each to one thread, and a thread that has one
  is described by its name and its number.
\<close>

definition numbered :: "logger \<Rightarrow> nat set" where
  "numbered g = {t. thread_num (thread_locals g t) \<noteq> -1}"

definition log_inv :: "logger \<Rightarrow> bool" where
  "log_inv g \<longleftrightarrow> 0 \<le> thread_count g \<and> inj_on (\<lambda>t. thread_num (thread_locals g t)) (numbered g)
     \<and> (\<forall>t \<in> numbered g. 0 \<le> thread_num (thread_locals g t) \<and> thread_num (thread_locals g t) < thread_count g
          \<and> thread_desc (thread_locals g t) = thread_name (thread_locals g t) @ '':'' @ to_string (thread_num (thread_locals g t)))"

lemma log_inv_init: "log_inv logger_init"
  by (simp add: log_inv_def numbered_def logger_init_def)

lemma wrap32_small: "- (2 ^ 31) \<le> n \<Longrightarrow> n < 2 ^ 31 \<Longrightarrow> wrap32 n = n"
  unfolding wrap32_def by (subst mod_pos_pos_trivial) auto

lemma getThreadDesc_inv:
  assumes "log_inv g" and "thread_count g < 2 ^ 31 - 1" and "getThreadDesc t g = (d, g')"
  shows "log_inv g' \<and> thread_count g' \<le> thread_count g + 1"
proof (cases "thread_num (thread_locals g t) = -1")
  case False
  then show ?thesis using assms by (auto simp: getThreadDesc_def)
next
  case True
  have c: "0 \<le> thread_count g" using assms(1) by (simp add: log_inv_def)
  have g': "thread_locals g' = (thread_locals g)(t := setThreadDesc ((thread_locals g t)\<lparr>thread_num := thread_count g\<rparr>))"
    "thread_count g' = thread_count g + 1"
    using True assms(2,3) wrap32_small [of "thread_count g + 1"] c by (auto simp: getThreadDesc_def Let_def)
  have n: "numbered g' = insert t (numbered g)" "t \<notin> numbered g"
    using True c by (auto simp: numbered_def g' setThreadDesc_def)
  have old: "thread_locals g' u = thread_locals g u \<and> 0 \<le> thread_num (thread_locals g u)
      \<and> thread_num (thread_locals g u) < thread_count g
      \<and> thread_desc (thread_locals g u) = thread_name (thread_locals g u) @ '':'' @ to_string (thread_num (thread_locals g u))"
    if "u \<in> numbered g" for u
    using that n(2) assms(1) g'(1) by (cases "u = t") (simp_all add: log_inv_def)
  have new: "thread_num (thread_locals g' t) = thread_count g"
    "thread_desc (thread_locals g' t) = thread_name (thread_locals g' t) @ '':'' @ to_string (thread_count g)"
    by (simp_all add: g' setThreadDesc_def)
  have "inj_on (\<lambda>t. thread_num (thread_locals g' t)) (numbered g)
      \<longleftrightarrow> inj_on (\<lambda>t. thread_num (thread_locals g t)) (numbered g)"
    using old by (intro inj_on_cong) simp
  then have "inj_on (\<lambda>t. thread_num (thread_locals g' t)) (numbered g')"
    using assms(1) old n(2) by (auto simp: n(1) new(1) log_inv_def) (metis less_irrefl)
  then show ?thesis using old new c by (auto simp: log_inv_def n(1) g'(2)) fastforce+
qed

lemma log_inv_lines [simp]: "log_inv (g\<lparr>l_lines := ls\<rparr>) = log_inv g"
  by (simp add: log_inv_def numbered_def)

lemma log_step_inv:
  assumes "log_inv g" and "thread_count g < 2 ^ 31 - 1"
  shows "log_inv (log_step ev g) \<and> thread_count (log_step ev g) \<le> thread_count g + 1"
proof (cases ev)
  case (Name t name)
  then show ?thesis using assms(1)
    by (auto simp: log_inv_def numbered_def setThreadName_def setThreadDesc_def inj_on_def)
next
  case (Line now t level msg params)
  then show ?thesis using assms getThreadDesc_inv [OF assms]
    by (auto simp: log_msg_def Let_def split: prod.splits)
qed (use assms(1) in \<open>auto simp: log_inv_def numbered_def setLevel_def setOut_def setSyslog_def\<close>)

lemma log_run_inv:
  assumes "log_inv g" and "thread_count g + int (length evs) < 2 ^ 31 - 1"
  shows "log_inv (fold log_step evs g)"
  using assms
proof (induction evs arbitrary: g)
  case (Cons ev evs)
  then show ?case using log_step_inv [of g ev] by simp
qed simp

text \<open>
  (C31) Threads that have written a line have different numbers and are described by their name and
  their number, whatever the threads do with the logger and in whatever order: the counter
  is incremented in one step with the number that is taken.
\<close>

theorem log_threads_distinct:
  assumes "length evs < 2 ^ 31 - 1" and "g = fold log_step evs logger_init"
    and "thread_num (thread_locals g t) \<noteq> -1" and "thread_num (thread_locals g u) \<noteq> -1" and "t \<noteq> u"
  shows "thread_num (thread_locals g t) \<noteq> thread_num (thread_locals g u)
    \<and> thread_desc (thread_locals g t) = thread_name (thread_locals g t) @ '':'' @ to_string (thread_num (thread_locals g t))"
proof -
  have "int (length evs) < 2 ^ 31 - 1" using assms(1) by simp
  then have "log_inv g" using log_run_inv [OF log_inv_init, of evs] assms(2) by (simp add: logger_init_def)
  then show ?thesis using assms(3-5) by (auto simp: log_inv_def numbered_def inj_on_def)
qed

text \<open>The main thread and the cleaner's, each with a line.\<close>

definition demo_events :: "log_event list" where
  "demo_events = [Line 0 0 Info ''starting up'' [], Name 1 ''cleanup'', Line 1 1 Warn ''Cleaning ?'' [''/b/dead'']]"

theorem log_threads_distinct_witness:
  "thread_desc (thread_locals (fold log_step demo_events logger_init) 1) = ''cleanup:1''
   \<and> thread_num (thread_locals (fold log_step demo_events logger_init) 0)
     \<noteq> thread_num (thread_locals (fold log_step demo_events logger_init) 1)"
proof -
  let ?g = "fold log_step demo_events logger_init"
  have "thread_num (thread_locals ?g 0) = 0" "thread_num (thread_locals ?g 1) = 1"
    "thread_desc (thread_locals ?g 1) = ''cleanup:1''" by code_simp+
  with log_threads_distinct [of demo_events ?g 0 1] show ?thesis by (simp add: demo_events_def)
qed

section \<open>Time stamps\<close>

lemma year_loop_props:
  assumes "year_loop y d = (y', k)" and "0 \<le> d"
  shows "y \<le> y' \<and> 0 \<le> k \<and> k < year_days y' \<and> d = (\<Sum>j \<in> {y..<y'}. year_days j) + k"
  using assms
proof (induction y d rule: year_loop.induct)
  case (1 y d)
  show ?case
  proof (cases "d < year_days y")
    case True
    then show ?thesis using "1.prems" by (simp add: year_loop.simps)
  next
    case False
    then have "year_loop (y + 1) (d - year_days y) = (y', k)" using "1.prems"(1) by (subst (asm) year_loop.simps) simp
    from "1.IH" [OF False this] False
    have ih: "y + 1 \<le> y'" "0 \<le> k" "k < year_days y'" "d - year_days y = (\<Sum>j \<in> {y + 1..<y'}. year_days j) + k" by simp_all
    have "{y..<y'} = insert y {y + 1..<y'}" using ih(1) by auto
    then show ?thesis using ih by auto
  qed
qed

lemma month_loop_props:
  assumes "month_loop ns m d = (m', k)" and "0 \<le> d" and "d < sum_list ns"
  shows "m \<le> m' \<and> m' < m + int (length ns) \<and> 0 \<le> k \<and> k < ns ! nat (m' - m) \<and> d = sum_list (take (nat (m' - m)) ns) + k"
  using assms
proof (induction ns arbitrary: m d)
  case (Cons n ns)
  show ?case
  proof (cases "d < n")
    case False
    then have "month_loop ns (m + 1) (d - n) = (m', k)" "0 \<le> d - n" "d - n < sum_list ns" using Cons.prems by auto
    from Cons.IH [OF this] have ih: "m + 1 \<le> m'" "m' < m + 1 + int (length ns)" "0 \<le> k" "k < ns ! nat (m' - (m + 1))"
      "d - n = sum_list (take (nat (m' - (m + 1))) ns) + k" by simp_all
    then have "nat (m' - m) = Suc (nat (m' - (m + 1)))" by simp
    then show ?thesis using ih by simp
  qed (use Cons.prems in auto)
qed simp

lemma month_days_sum: "sum_list (month_days y) = year_days y"
  by (simp add: month_days_def year_days_def)

text \<open>The ranges of the fields, and the time they stand for.\<close>

definition tm_days :: "tm \<Rightarrow> int" where
  "tm_days b = (\<Sum>j \<in> {1970..<tm_year b}. year_days j) + sum_list (take (nat (tm_mon b - 1)) (month_days (tm_year b))) + tm_mday b - 1"

lemma gmtime_props:
  assumes "0 \<le> t"
  shows "1970 \<le> tm_year (gmtime t)" "1 \<le> tm_mon (gmtime t)" "tm_mon (gmtime t) \<le> 12"
    "1 \<le> tm_mday (gmtime t)" "tm_mday (gmtime t) \<le> 31"
    "0 \<le> tm_hour (gmtime t)" "tm_hour (gmtime t) < 24" "0 \<le> tm_min (gmtime t)" "tm_min (gmtime t) < 60"
    "0 \<le> tm_sec (gmtime t)" "tm_sec (gmtime t) < 60"
    "t = 86400 * tm_days (gmtime t) + 3600 * tm_hour (gmtime t) + 60 * tm_min (gmtime t) + tm_sec (gmtime t)"
proof -
  obtain y d where y: "year_loop 1970 (t div 86400) = (y, d)" by (cases "year_loop 1970 (t div 86400)")
  obtain m k where m: "month_loop (month_days y) 1 d = (m, k)" by (cases "month_loop (month_days y) 1 d")
  have yp: "1970 \<le> y" "0 \<le> d" "d < year_days y" "t div 86400 = (\<Sum>j \<in> {1970..<y}. year_days j) + d"
    using year_loop_props [OF y] assms by (simp_all add: pos_imp_zdiv_nonneg_iff)
  have mp: "1 \<le> m" "m < 1 + 12" "0 \<le> k" "k < month_days y ! nat (m - 1)"
    "d = sum_list (take (nat (m - 1)) (month_days y)) + k"
    using month_loop_props [OF m] yp by (simp_all add: month_days_sum) (simp_all add: month_days_def)
  have b: "gmtime t = \<lparr>tm_year = y, tm_mon = m, tm_mday = k + 1, tm_hour = t mod 86400 div 3600,
      tm_min = t mod 3600 div 60, tm_sec = t mod 60\<rparr>" by (simp add: gmtime_def y m)
  have "month_days y ! i \<le> 31" if "i < 12" for i
  proof -
    have "length (month_days y) = 12" "\<forall>n \<in> set (month_days y). n \<le> 31" by (simp_all add: month_days_def)
    then show ?thesis using that nth_mem by metis
  qed
  then have "month_days y ! nat (m - 1) \<le> 31" using mp(1,2) by simp
  with mp(4) have "k < 31" by simp
  then show "1970 \<le> tm_year (gmtime t)" "1 \<le> tm_mon (gmtime t)" "tm_mon (gmtime t) \<le> 12"
    "1 \<le> tm_mday (gmtime t)" "tm_mday (gmtime t) \<le> 31"
    using yp(1) mp(1-3) by (simp_all add: b)
  show "0 \<le> tm_hour (gmtime t)" "0 \<le> tm_min (gmtime t)" "0 \<le> tm_sec (gmtime t)" "tm_sec (gmtime t) < 60"
    by (simp_all add: b pos_imp_zdiv_nonneg_iff)
  show "tm_hour (gmtime t) < 24" "tm_min (gmtime t) < 60" by (simp_all add: b)
  have days: "tm_days (gmtime t) = t div 86400" using yp(4) mp(5) by (simp add: tm_days_def b)
  have f: "tm_hour (gmtime t) = t mod 86400 div 3600" "tm_min (gmtime t) = t mod 3600 div 60" "tm_sec (gmtime t) = t mod 60"
    by (simp_all add: b)
  have "86400 * (t div 86400) + t mod 86400 = t" by (rule mult_div_mod_eq)
  moreover have "3600 * (t mod 86400 div 3600) + t mod 3600 = t mod 86400"
    using mult_div_mod_eq [of 3600 "t mod 86400"] by (simp add: mod_mod_cancel)
  moreover have "60 * (t mod 3600 div 60) + t mod 60 = t mod 3600"
    using mult_div_mod_eq [of 60 "t mod 3600"] by (simp add: mod_mod_cancel)
  ultimately show "t = 86400 * tm_days (gmtime t) + 3600 * tm_hour (gmtime t) + 60 * tm_min (gmtime t) + tm_sec (gmtime t)"
    unfolding days f by linarith
qed

lemma gmtime_inj: "0 \<le> t \<Longrightarrow> 0 \<le> u \<Longrightarrow> gmtime t = gmtime u \<Longrightarrow> t = u"
  using gmtime_props(12) by metis

lemma two_inj: "0 \<le> m \<Longrightarrow> m < 100 \<Longrightarrow> 0 \<le> n \<Longrightarrow> n < 100 \<Longrightarrow> two m = two n \<Longrightarrow> m = n"
proof -
  assume r: "0 \<le> m" "m < 100" "0 \<le> n" "n < 100" and "two m = two n"
  then have "dec_value (two m) = dec_value (two n)" by simp
  then have "10 * (m div 10 mod 10) + m mod 10 = 10 * (n div 10 mod 10) + n mod 10" by (simp add: two_def dec_value_def)
  moreover have "m div 10 mod 10 = m div 10" "n div 10 mod 10 = n div 10" using r by auto
  ultimately have "10 * (m div 10) + m mod 10 = 10 * (n div 10) + n mod 10" by simp
  then show "m = n" by (simp only: mult_div_mod_eq)
qed

lemma to_string_no_dash: "0 \<le> n \<Longrightarrow> CHR ''-'' \<notin> set (to_string n)"
proof -
  assume "0 \<le> n"
  moreover have "\<not> isdigit CHR ''-''" by code_simp
  ultimately show ?thesis using dec_digits_digits [of n] by (auto simp: to_string_def list_all_iff)
qed

lemma length_two: "length (two n) = 2"
  by (simp add: two_def)

lemma dash_split: "c \<notin> set a \<Longrightarrow> c \<notin> set b \<Longrightarrow> a @ c # x = b @ c # y \<Longrightarrow> a = b \<and> x = y"
  by (metis list.inject takeWhile_neq_append dropWhile_neq_append)

text \<open>
  The time stamp of a line identifies the second it was written: two different times, however
  far apart, have different texts, across leap years and the ends of months and years.
\<close>

lemma fmttime_inj:
  assumes "0 \<le> t" "0 \<le> u" "fmttime t = fmttime u"
  shows "t = u"
proof -
  let ?b = "gmtime t" and ?c = "gmtime u"
  note p = gmtime_props [OF assms(1)] gmtime_props [OF assms(2)]
  have "to_string (tm_year ?b) @ CHR ''-'' # two (tm_mon ?b) @ ''-'' @ two (tm_mday ?b) @ '' '' @ two (tm_hour ?b) @ '':'' @ two (tm_min ?b) @ '':'' @ two (tm_sec ?b) @ ''Z] ''
     = to_string (tm_year ?c) @ CHR ''-'' # two (tm_mon ?c) @ ''-'' @ two (tm_mday ?c) @ '' '' @ two (tm_hour ?c) @ '':'' @ two (tm_min ?c) @ '':'' @ two (tm_sec ?c) @ ''Z] ''"
    using assms(3) by (simp add: fmttime_def Let_def)
  from dash_split [OF to_string_no_dash to_string_no_dash this] p
  have "to_string (tm_year ?b) = to_string (tm_year ?c)" "two (tm_mon ?b) = two (tm_mon ?c)" "two (tm_mday ?b) = two (tm_mday ?c)"
    "two (tm_hour ?b) = two (tm_hour ?c)" "two (tm_min ?b) = two (tm_min ?c)" "two (tm_sec ?b) = two (tm_sec ?c)"
    by (simp_all add: length_two)
  then have "?b = ?c"
    using p to_string_inj [of "tm_year ?b" "tm_year ?c"] two_inj [of "tm_mon ?b" "tm_mon ?c"] two_inj [of "tm_mday ?b" "tm_mday ?c"]
      two_inj [of "tm_hour ?b" "tm_hour ?c"] two_inj [of "tm_min ?b" "tm_min ?c"] two_inj [of "tm_sec ?b" "tm_sec ?c"]
    by simp
  then show ?thesis using assms gmtime_inj by blast
qed

end
