(* ===== verification/Oort_Adcs.thy ===== *)
theory Oort_Adcs
  imports Complex_Main Oort_Adaptor Oort_Log
begin

text \<open>
  \<^verbatim>\<open>impl/Adcs.cpp\<close>: the last reports of attitude control and navigation, converted for the API, with
  the quantities derived from them. The numbers of this theory are real numbers: rounding, infinities
  and NaN are not modelled, so what is shown is the mathematics of the conversion. Time is in
  seconds; the clock is passed to the operations that read it.
\<close>

section \<open>Arithmetic\<close>

definition R_EARTH :: real where
  "R_EARTH = 6371000"

definition rad2deg :: "real \<Rightarrow> real" where
  "rad2deg a = 180 / pi * a"

definition copysign :: "real \<Rightarrow> real \<Rightarrow> real" where
  "copysign m a = (if a < 0 then - \<bar>m\<bar> else \<bar>m\<bar>)"

definition acos_safe :: "real \<Rightarrow> real" where
  "acos_safe a = (if 1 < \<bar>a\<bar> then arccos (copysign 1 a) else arccos a)"

definition asin_safe :: "real \<Rightarrow> real" where
  "asin_safe a = (if 1 < \<bar>a\<bar> then arcsin (copysign 1 a) else arcsin a)"

text \<open>\<open>atan2\<close> is the argument of a complex number; a conversion to \<open>int\<close> and \<open>fmod\<close> cut towards zero.\<close>

definition atan2 :: "real \<Rightarrow> real \<Rightarrow> real" where
  "atan2 b a = Arg (Complex a b)"

definition trunc :: "real \<Rightarrow> int" where
  "trunc a = (if a < 0 then \<lceil>a\<rceil> else \<lfloor>a\<rfloor>)"

definition fmod :: "real \<Rightarrow> real \<Rightarrow> real" where
  "fmod a b = a - b * of_int (trunc (a / b))"

definition get_gha :: "real \<Rightarrow> real" where
  "get_gha unix_timestamp =
     (let jd = unix_timestamp / 86400 + 2440587.5;
          C1 = 1.72027916940703639 / 100;
          C1P2P = C1 + 2 * pi;
          THGR70 = 1.7321343856509374;
          FK5R = 5.07551419432269442 / 10 ^ 15;
          days50 = jd - 2400000.5 - 33281.0;
          ts70 = days50 - 7305.0;
          ids70 = trunc (ts70 + 1 / 10 ^ 8);
          ds70 = of_int ids70;
          trfac = ts70 - ds70;
          theta = fmod (THGR70 + C1 * ds70 + C1P2P * trfac + ts70 * ts70 * FK5R) (2 * pi)
      in if theta < 0 then theta + 2 * pi else theta)"

section \<open>Reports\<close>

text \<open>The numbers of the bus and of the API are the same numbers here.\<close>

definition same_numbers :: "(real, real) conv" where
  "same_numbers = \<lparr>to_number = (\<lambda>a. a), to_float32 = (\<lambda>a. a)\<rparr>"

type_synonym quat_t = "real Adcs_quat_t"
type_synonym xyz_t = "real Adcs_xyz_float_t"

record PayloadAdcsFeed =
  f_acs_mode_active :: "8 word"
  f_control_error_q :: "real QuatT"
  f_q_bo_est :: "real QuatT"
  f_latlontrack_lat :: real
  f_lease_active :: bool
  f_eclipse_flag :: bool
  f_q_bi_est :: "real QuatT"
  f_latlontrack_lon :: real
  f_r_eci :: "real XyzFloatT"
  f_latlontrack_body_vector :: "real XyzFloatT"
  f_omega_bo_est :: "real XyzFloatT"
  f_acs_mode_cmd :: "8 word"
  f_v_eci :: "real XyzFloatT"
  f_qcf :: "real QuatT"
  f_lease_time_remaining :: "32 word"
  f_unix_timestamp :: real
  f_omega_bi_est :: "real XyzFloatT"
  f_control_error_omega :: "real XyzFloatT"

record Adcs_euler_t =
  roll :: real
  pitch :: real
  yaw :: real

record AdcsHk =
  hk_acs_mode_active :: string
  hk_control_error_q :: quat_t
  hk_q_bo_est :: quat_t
  hk_latlontrack_lat :: real
  hk_q_bi_est :: quat_t
  hk_latlontrack_lon :: real
  hk_r_eci :: xyz_t
  hk_latlontrack_body_vector :: xyz_t
  hk_omega_bo_est :: xyz_t
  hk_acs_mode_cmd :: string
  hk_v_eci :: xyz_t
  hk_qcf :: quat_t
  hk_lease_time_remaining :: int
  hk_unix_timestamp :: real
  hk_omega_bi_est :: xyz_t
  hk_control_error_omega :: xyz_t
  hk_eclipse_flag :: int
  hk_lease_active :: int
  hk_r_ecef :: xyz_t
  hk_control_error_angle_deg :: real
  hk_euler_angles :: Adcs_euler_t
  hk_lat_deg :: real
  hk_lon_deg :: real
  hk_altitude :: real

definition xyz_norm :: "xyz_t \<Rightarrow> real" where
  "xyz_norm v = sqrt (getX v ^ 2 + getY v ^ 2 + getZ v ^ 2)"

definition xyz_norm_can :: "real XyzFloatT \<Rightarrow> real" where
  "xyz_norm_can v = sqrt (xyz_x v ^ 2 + xyz_y v ^ 2 + xyz_z v ^ 2)"

definition DeriveControlErrorAngleDeg :: "PayloadAdcsFeed \<Rightarrow> real" where
  "DeriveControlErrorAngleDeg ucan_adcs = 2 * rad2deg (acos_safe (q4 (f_control_error_q ucan_adcs)))"

definition DeriveEulerAngles :: "PayloadAdcsFeed \<Rightarrow> Adcs_euler_t" where
  "DeriveEulerAngles ucan_adcs =
     (let q = f_q_bo_est ucan_adcs;
          dcm_00 = q4 q ^ 2 + q1 q ^ 2 - q2 q ^ 2 - q3 q ^ 2;
          dcm_01 = 2 * (q1 q * q2 q + q3 q * q4 q);
          dcm_02 = 2 * (q1 q * q3 q - q2 q * q4 q);
          dcm_12 = 2 * (q2 q * q3 q + q1 q * q4 q);
          dcm_22 = q4 q ^ 2 - q1 q ^ 2 - q2 q ^ 2 + q3 q ^ 2
      in \<lparr>roll = rad2deg (atan2 dcm_12 dcm_22), pitch = rad2deg (asin_safe (- dcm_02)),
          yaw = rad2deg (atan2 dcm_01 dcm_00)\<rparr>)"

definition DeriveLatDeg :: "AdcsHk \<Rightarrow> real" where
  "DeriveLatDeg oapi_hk = (let r_ecef = hk_r_ecef oapi_hk; r_sat = xyz_norm r_ecef in
     if R_EARTH < r_sat then rad2deg (asin_safe (getZ r_ecef / r_sat)) else 0)"

definition DeriveLonDeg :: "AdcsHk \<Rightarrow> real" where
  "DeriveLonDeg oapi_hk = (let r_ecef = hk_r_ecef oapi_hk; r_sat = xyz_norm r_ecef in
     if R_EARTH < r_sat then rad2deg (atan2 (getY r_ecef / r_sat) (getX r_ecef / r_sat)) else 0)"

definition DeriveAltitude :: "AdcsHk \<Rightarrow> real" where
  "DeriveAltitude oapi_hk = (let r_sat = xyz_norm (hk_r_ecef oapi_hk) in
     if R_EARTH < r_sat then r_sat - R_EARTH else 0)"

definition DeriveREcef :: "PayloadAdcsFeed \<Rightarrow> xyz_t" where
  "DeriveREcef ucan_adcs = (let gha = get_gha (f_unix_timestamp ucan_adcs); r = f_r_eci ucan_adcs in
     \<lparr>getX = cos gha * xyz_x r + sin gha * xyz_y r, getY = - sin gha * xyz_x r + cos gha * xyz_y r, getZ = xyz_z r\<rparr>)"

text \<open>The derived fields are set one after the other, each from the record so far.\<close>

definition convert :: "AdcsHk \<Rightarrow> PayloadAdcsFeed \<Rightarrow> AdcsHk" where
  "convert oapi_hk ucan_adcs =
     (let N = same_numbers;
          hk1 = oapi_hk\<lparr>
            hk_acs_mode_active := DecodeAcsMode (f_acs_mode_active ucan_adcs),
            hk_control_error_q := Adapt_quat N (f_control_error_q ucan_adcs),
            hk_q_bo_est := Adapt_quat N (f_q_bo_est ucan_adcs),
            hk_latlontrack_lat := f_latlontrack_lat ucan_adcs,
            hk_q_bi_est := Adapt_quat N (f_q_bi_est ucan_adcs),
            hk_latlontrack_lon := f_latlontrack_lon ucan_adcs,
            hk_r_eci := Adapt_xyz N (f_r_eci ucan_adcs),
            hk_latlontrack_body_vector := Adapt_xyz N (f_latlontrack_body_vector ucan_adcs),
            hk_omega_bo_est := Adapt_xyz N (f_omega_bo_est ucan_adcs),
            hk_acs_mode_cmd := DecodeAcsMode (f_acs_mode_cmd ucan_adcs),
            hk_v_eci := Adapt_xyz N (f_v_eci ucan_adcs),
            hk_qcf := Adapt_quat N (f_qcf ucan_adcs),
            hk_lease_time_remaining := wrap32 (uint (f_lease_time_remaining ucan_adcs)),
            hk_unix_timestamp := f_unix_timestamp ucan_adcs,
            hk_omega_bi_est := Adapt_xyz N (f_omega_bi_est ucan_adcs),
            hk_control_error_omega := Adapt_xyz N (f_control_error_omega ucan_adcs),
            hk_eclipse_flag := of_bool (f_eclipse_flag ucan_adcs),
            hk_lease_active := of_bool (f_lease_active ucan_adcs)\<rparr>;
          hk2 = hk1\<lparr>hk_r_ecef := DeriveREcef ucan_adcs\<rparr>;
          hk3 = hk2\<lparr>hk_control_error_angle_deg := DeriveControlErrorAngleDeg ucan_adcs\<rparr>;
          hk4 = hk3\<lparr>hk_euler_angles := DeriveEulerAngles ucan_adcs\<rparr>;
          hk5 = hk4\<lparr>hk_lat_deg := DeriveLatDeg hk4\<rparr>;
          hk6 = hk5\<lparr>hk_lon_deg := DeriveLonDeg hk5\<rparr>
      in hk6\<lparr>hk_altitude := DeriveAltitude hk6\<rparr>)"

section \<open>AdcsManager\<close>

record ReceiverNavigationState =
  n_utc_time :: "32 word"
  n_ecef_pos_x :: real
  n_ecef_pos_y :: real
  n_ecef_pos_z :: real
  n_ecef_vel_x :: real
  n_ecef_vel_y :: real
  n_ecef_vel_z :: real

record TfrsResponse =
  t_utc_time :: int
  t_ecef_pos_x :: real
  t_ecef_pos_y :: real
  t_ecef_pos_z :: real
  t_ecef_vel_x :: real
  t_ecef_vel_y :: real
  t_ecef_vel_z :: real
  t_age :: real

record AdcsResponse =
  ar_mode :: string
  ar_hk :: AdcsHk
  ar_age :: real

record AdcsManager =
  m_adcs :: AdcsResponse
  m_adcs_mtime :: real
  m_tfrs :: TfrsResponse
  m_tfrs_mtime :: real

definition setTfrs :: "real \<Rightarrow> ReceiverNavigationState \<Rightarrow> AdcsManager \<Rightarrow> AdcsManager" where
  "setTfrs now tfrs m = m\<lparr>m_tfrs := \<lparr>t_utc_time = wrap32 (uint (n_utc_time tfrs)),
       t_ecef_pos_x = n_ecef_pos_x tfrs, t_ecef_pos_y = n_ecef_pos_y tfrs, t_ecef_pos_z = n_ecef_pos_z tfrs,
       t_ecef_vel_x = n_ecef_vel_x tfrs, t_ecef_vel_y = n_ecef_vel_y tfrs, t_ecef_vel_z = n_ecef_vel_z tfrs, t_age = 0\<rparr>,
     m_tfrs_mtime := now\<rparr>"

definition getTfrs :: "real \<Rightarrow> AdcsManager \<Rightarrow> TfrsResponse \<times> AdcsManager" where
  "getTfrs now m = (let r = (m_tfrs m)\<lparr>t_age := now - m_tfrs_mtime m\<rparr> in (r, m\<lparr>m_tfrs := r\<rparr>))"

definition setAdcs :: "real \<Rightarrow> PayloadAdcsFeed \<Rightarrow> AdcsManager \<Rightarrow> AdcsManager" where
  "setAdcs now adcs m = (let hk = convert (ar_hk (m_adcs m)) adcs in
     m\<lparr>m_adcs := (m_adcs m)\<lparr>ar_mode := hk_acs_mode_active hk, ar_hk := hk, ar_age := 0\<rparr>, m_adcs_mtime := now\<rparr>)"

definition getAdcs :: "real \<Rightarrow> AdcsManager \<Rightarrow> AdcsResponse \<times> AdcsManager" where
  "getAdcs now m = (let r = (m_adcs m)\<lparr>ar_age := now - m_adcs_mtime m\<rparr> in (r, m\<lparr>m_adcs := r\<rparr>))"

section \<open>The handlers of the agent\<close>

definition adcs_get :: "real \<Rightarrow> AdcsManager option \<Rightarrow> AdcsResponse ResponseCode \<times> AdcsManager option" where
  "adcs_get now adcs = (case adcs of
      None \<Rightarrow> (bad ''Adcs interface is unavailable'', None)
    | Some m \<Rightarrow> (case getAdcs now m of (r, m') \<Rightarrow> (good r, Some m')))"

definition tfrs_get :: "real \<Rightarrow> AdcsManager option \<Rightarrow> TfrsResponse ResponseCode \<times> AdcsManager option" where
  "tfrs_get now adcs = (case adcs of
      None \<Rightarrow> (bad ''Tfrs interface is unavailable'', None)
    | Some m \<Rightarrow> (case getTfrs now m of (r, m') \<Rightarrow> (good r, Some m')))"

section \<open>The hour angle and the derived fields\<close>

lemma trunc_bounds: "\<bar>a - of_int (trunc a)\<bar> < 1"
  unfolding trunc_def by (auto simp: abs_if) linarith+

lemma fmod_bounds: "0 < b \<Longrightarrow> - b < fmod a b \<and> fmod a b < b"
proof -
  assume b: "0 < b"
  have "fmod a b = b * (a / b - of_int (trunc (a / b)))" using b by (simp add: fmod_def algebra_simps)
  moreover have "- 1 < a / b - of_int (trunc (a / b))" "a / b - of_int (trunc (a / b)) < 1"
    using trunc_bounds [of "a / b"] by (simp_all add: abs_less_iff)
  ultimately show ?thesis using b mult_strict_left_mono [of "-1" _ b] mult_strict_left_mono [of _ 1 b] by simp
qed

lemma get_gha_bounds: "0 \<le> get_gha t" "get_gha t < 2 * pi"
proof -
  have b: "- (2 * pi) < fmod v (2 * pi)" "fmod v (2 * pi) < 2 * pi" for v using fmod_bounds [of "2 * pi" v] by simp_all
  have "\<exists>v. get_gha t = (if fmod v (2 * pi) < 0 then fmod v (2 * pi) + 2 * pi else fmod v (2 * pi))"
    unfolding get_gha_def Let_def by blast
  then obtain v where v: "get_gha t = (if fmod v (2 * pi) < 0 then fmod v (2 * pi) + 2 * pi else fmod v (2 * pi))" by blast
  show "0 \<le> get_gha t" "get_gha t < 2 * pi" unfolding v using b [of v] by auto
qed

lemma convert_derived:
  "hk_r_ecef (convert h f) = DeriveREcef f" "hk_euler_angles (convert h f) = DeriveEulerAngles f"
  "hk_control_error_angle_deg (convert h f) = DeriveControlErrorAngleDeg f"
  "hk_lat_deg (convert h f) = (let r = DeriveREcef f in if R_EARTH < xyz_norm r then rad2deg (asin_safe (getZ r / xyz_norm r)) else 0)"
  "hk_lon_deg (convert h f) = (let r = DeriveREcef f in if R_EARTH < xyz_norm r then rad2deg (atan2 (getY r / xyz_norm r) (getX r / xyz_norm r)) else 0)"
  "hk_altitude (convert h f) = (let r = xyz_norm (DeriveREcef f) in if R_EARTH < r then r - R_EARTH else 0)"
  by (simp_all add: convert_def Let_def DeriveLatDeg_def DeriveLonDeg_def DeriveAltitude_def)

section \<open>Positions\<close>

text \<open>The turn about the axis of the earth keeps the distance.\<close>

lemma REcef_norm: "xyz_norm (DeriveREcef f) = xyz_norm_can (f_r_eci f)"
proof -
  let ?g = "get_gha (f_unix_timestamp f)" and ?x = "xyz_x (f_r_eci f)" and ?y = "xyz_y (f_r_eci f)"
  have "(c * a + s * b) ^ 2 + (- s * a + c * b) ^ 2 = (s ^ 2 + c ^ 2) * (a ^ 2 + b ^ 2)" for a b c s :: real
    by algebra
  from this [of "cos ?g" ?x "sin ?g" ?y]
  have "(cos ?g * ?x + sin ?g * ?y) ^ 2 + (- sin ?g * ?x + cos ?g * ?y) ^ 2 = ?x ^ 2 + ?y ^ 2" by simp
  then show ?thesis by (simp add: xyz_norm_def xyz_norm_can_def DeriveREcef_def Let_def)
qed

text \<open>A point given by latitude, longitude and distance.\<close>

definition spherical :: "real \<Rightarrow> real \<Rightarrow> real \<Rightarrow> xyz_t" where
  "spherical la lo r = \<lparr>getX = r * cos (la * pi / 180) * cos (lo * pi / 180),
     getY = r * cos (la * pi / 180) * sin (lo * pi / 180), getZ = r * sin (la * pi / 180)\<rparr>"

lemma rad2deg_inv: "rad2deg a * pi / 180 = a"
  by (simp add: rad2deg_def)

lemma polar: "cmod (Complex a b) * cos (atan2 b a) = a" "cmod (Complex a b) * sin (atan2 b a) = b"
proof -
  have "rcis (cmod (Complex a b)) (Arg (Complex a b)) = Complex a b" by (rule rcis_cmod_Arg)
  then show "cmod (Complex a b) * cos (atan2 b a) = a" "cmod (Complex a b) * sin (atan2 b a) = b"
    by (auto simp: atan2_def complex_eq_iff)
qed

lemma spherical_coordinates:
  assumes "0 < r" and "r = xyz_norm v"
  shows "spherical (rad2deg (asin_safe (getZ v / r))) (rad2deg (atan2 (getY v / r) (getX v / r))) r = v"
proof -
  let ?a = "getX v / r" and ?b = "getY v / r" and ?c = "getZ v / r"
  have "r ^ 2 = getX v ^ 2 + getY v ^ 2 + getZ v ^ 2" using assms(2) by (simp add: xyz_norm_def)
  then have one: "?a ^ 2 + ?b ^ 2 + ?c ^ 2 = 1"
    using assms(1) by (simp add: power_divide add_divide_distrib [symmetric]) (metis less_numeral_extra(3) zero_less_power)
  have "?c ^ 2 \<le> 1" using one by (smt (verit) zero_le_power2)
  then have c: "\<bar>?c\<bar> \<le> 1" using abs_square_le_1 by blast
  then have s: "asin_safe ?c = arcsin ?c" by (simp add: asin_safe_def)
  from c have c': "- 1 \<le> ?c" "?c \<le> 1" by linarith+
  have sn: "sin (arcsin ?c) = ?c" by (rule sin_arcsin [OF c'])
  have "cos (arcsin ?c) = sqrt (1 - ?c ^ 2)" by (rule cos_arcsin [OF c'])
  then have cs: "cos (arcsin ?c) = cmod (Complex ?a ?b)" using one by (simp add: cmod_def algebra_simps)
  have "r * cmod (Complex ?a ?b) * cos (atan2 ?b ?a) = getX v" "r * cmod (Complex ?a ?b) * sin (atan2 ?b ?a) = getY v"
    using polar [of ?a ?b] assms(1) by (simp_all add: mult.assoc)
  then show ?thesis using sn assms(1) by (simp add: spherical_def rad2deg_inv s cs)
qed

text \<open>
  (C21) Above the surface, the latitude, longitude and altitude of a report are a position: the point
  they name is the point of the report in the frame of the earth, and its distance from the
  centre is that of the inertial position the report was made from.
\<close>

theorem convert_position:
  assumes "R_EARTH < xyz_norm_can (f_r_eci f)"
  shows "spherical (hk_lat_deg (convert h f)) (hk_lon_deg (convert h f)) (R_EARTH + hk_altitude (convert h f)) = hk_r_ecef (convert h f)
    \<and> R_EARTH + hk_altitude (convert h f) = xyz_norm_can (f_r_eci f)"
proof -
  have r: "R_EARTH < xyz_norm (DeriveREcef f)" using assms by (simp add: REcef_norm)
  then have "0 < xyz_norm (DeriveREcef f)" by (simp add: R_EARTH_def)
  from spherical_coordinates [OF this refl] r show ?thesis
    unfolding convert_derived Let_def by (simp add: REcef_norm)
qed

section \<open>Attitude\<close>

text \<open>
  The reference for the Euler angles: quaternions with the scalar last, their product, and the frame turned by a
  quaternion, \<open>conj q * v * q\<close>. A turn of the frame about one axis is by an angle in degrees.
\<close>

definition qprod :: "real QuatT \<Rightarrow> real QuatT \<Rightarrow> real QuatT" where
  "qprod p q = \<lparr>q1 = q4 p * q1 q + q1 p * q4 q + q2 p * q3 q - q3 p * q2 q,
     q2 = q4 p * q2 q - q1 p * q3 q + q2 p * q4 q + q3 p * q1 q,
     q3 = q4 p * q3 q + q1 p * q2 q - q2 p * q1 q + q3 p * q4 q,
     q4 = q4 p * q4 q - q1 p * q1 q - q2 p * q2 q - q3 p * q3 q\<rparr>"

definition qconj :: "real QuatT \<Rightarrow> real QuatT" where
  "qconj q = q\<lparr>q1 := - q1 q, q2 := - q2 q, q3 := - q3 q\<rparr>"

definition vector_quat :: "xyz_t \<Rightarrow> real QuatT" where
  "vector_quat v = \<lparr>q1 = getX v, q2 = getY v, q3 = getZ v, q4 = 0\<rparr>"

definition attitude :: "real QuatT \<Rightarrow> xyz_t \<Rightarrow> real QuatT" where
  "attitude q v = qprod (qconj q) (qprod (vector_quat v) q)"

definition turn_x :: "real \<Rightarrow> xyz_t \<Rightarrow> xyz_t" where
  "turn_x a v = (let c = cos (a * pi / 180); s = sin (a * pi / 180) in
     \<lparr>getX = getX v, getY = c * getY v + s * getZ v, getZ = c * getZ v - s * getY v\<rparr>)"

definition turn_y :: "real \<Rightarrow> xyz_t \<Rightarrow> xyz_t" where
  "turn_y a v = (let c = cos (a * pi / 180); s = sin (a * pi / 180) in
     \<lparr>getX = c * getX v - s * getZ v, getY = getY v, getZ = c * getZ v + s * getX v\<rparr>)"

definition turn_z :: "real \<Rightarrow> xyz_t \<Rightarrow> xyz_t" where
  "turn_z a v = (let c = cos (a * pi / 180); s = sin (a * pi / 180) in
     \<lparr>getX = c * getX v + s * getY v, getY = c * getY v - s * getX v, getZ = getZ v\<rparr>)"

definition unit_quat :: "real QuatT \<Rightarrow> bool" where
  "unit_quat q \<longleftrightarrow> q1 q ^ 2 + q2 q ^ 2 + q3 q ^ 2 + q4 q ^ 2 = 1"

text \<open>The entries that the source leaves out follow from the others.\<close>

lemma euler_matrix:
  fixes a b c d :: real
  defines "m00 \<equiv> d ^ 2 + a ^ 2 - b ^ 2 - c ^ 2" and "m01 \<equiv> 2 * (a * b + c * d)" and "m02 \<equiv> 2 * (a * c - b * d)"
    and "m12 \<equiv> 2 * (b * c + a * d)" and "m22 \<equiv> d ^ 2 - a ^ 2 - b ^ 2 + c ^ 2"
  assumes one: "a ^ 2 + b ^ 2 + c ^ 2 + d ^ 2 = 1"
  shows "m00 ^ 2 + m01 ^ 2 = 1 - m02 ^ 2" "m12 ^ 2 + m22 ^ 2 = 1 - m02 ^ 2"
    "(1 - m02 ^ 2) * (2 * (a * b - c * d)) = - m12 * m02 * m00 - m22 * m01"
    "(1 - m02 ^ 2) * (d ^ 2 - a ^ 2 + b ^ 2 - c ^ 2) = - m12 * m02 * m01 + m22 * m00"
    "(1 - m02 ^ 2) * (2 * (a * c + b * d)) = - m22 * m02 * m00 + m12 * m01"
    "(1 - m02 ^ 2) * (2 * (b * c - a * d)) = - m22 * m02 * m01 - m12 * m00"
  using one unfolding m00_def m01_def m02_def m12_def m22_def by algebra+

definition vector_norm :: "real QuatT \<Rightarrow> real" where
  "vector_norm q = sqrt (q1 q ^ 2 + q2 q ^ 2 + q3 q ^ 2)"

lemma attitude_matrix:
  "attitude q v =
     (let a = q1 q; b = q2 q; c = q3 q; d = q4 q in
      vector_quat \<lparr>getX = (d ^ 2 + a ^ 2 - b ^ 2 - c ^ 2) * getX v + 2 * (a * b + c * d) * getY v + 2 * (a * c - b * d) * getZ v,
        getY = 2 * (a * b - c * d) * getX v + (d ^ 2 - a ^ 2 + b ^ 2 - c ^ 2) * getY v + 2 * (b * c + a * d) * getZ v,
        getZ = 2 * (a * c + b * d) * getX v + 2 * (b * c - a * d) * getY v + (d ^ 2 - a ^ 2 - b ^ 2 + c ^ 2) * getZ v\<rparr>)"
  unfolding attitude_def qprod_def qconj_def vector_quat_def Let_def by (simp, intro conjI) algebra+

lemma turns_matrix:
  assumes "cp ^ 2 = 1 - m02 ^ 2" and "cp \<noteq> 0"
    and "sp = - m02" "cp * cy = m00" "cp * sy = m01" "cp * cr = m22" "cp * sr = m12"
    and "(1 - m02 ^ 2) * m10 = - m12 * m02 * m00 - m22 * m01"
    "(1 - m02 ^ 2) * m11 = - m12 * m02 * m01 + m22 * m00"
    "(1 - m02 ^ 2) * m20 = - m22 * m02 * m00 + m12 * m01"
    "(1 - m02 ^ 2) * m21 = - m22 * m02 * m01 - m12 * m00"
  shows "m10 = sr * sp * cy - cr * sy" "m11 = sr * sp * sy + cr * cy"
    "m20 = cr * sp * cy + sr * sy" "m21 = cr * sp * sy - sr * (cy :: real)"
proof -
  have nz: "cp ^ 2 \<noteq> 0" using assms(2) by simp
  have "cp ^ 2 * m10 = cp ^ 2 * (sr * sp * cy - cr * sy)" "cp ^ 2 * m11 = cp ^ 2 * (sr * sp * sy + cr * cy)"
    "cp ^ 2 * m20 = cp ^ 2 * (cr * sp * cy + sr * sy)" "cp ^ 2 * m21 = cp ^ 2 * (cr * sp * sy - sr * cy)"
    using assms(1,3-) by algebra+
  with nz show "m10 = sr * sp * cy - cr * sy" "m11 = sr * sp * sy + cr * cy"
    "m20 = cr * sp * cy + sr * sy" "m21 = cr * sp * sy - sr * cy" by (simp_all only: mult_cancel_left simp_thms)
qed

lemma euler_angles_turn:
  assumes "unit_quat (f_q_bo_est f)" and "\<bar>pitch (DeriveEulerAngles f)\<bar> < 90"
  shows "vector_quat (turn_x (roll (DeriveEulerAngles f)) (turn_y (pitch (DeriveEulerAngles f)) (turn_z (yaw (DeriveEulerAngles f)) v)))
    = attitude (f_q_bo_est f) v"
proof -
  define a b c d where abcd: "a = q1 (f_q_bo_est f)" "b = q2 (f_q_bo_est f)" "c = q3 (f_q_bo_est f)" "d = q4 (f_q_bo_est f)"
  define m00 m01 m02 m12 m22 where m: "m00 = d ^ 2 + a ^ 2 - b ^ 2 - c ^ 2" "m01 = 2 * (a * b + c * d)" "m02 = 2 * (a * c - b * d)"
    "m12 = 2 * (b * c + a * d)" "m22 = d ^ 2 - a ^ 2 - b ^ 2 + c ^ 2"
  have e: "DeriveEulerAngles f = \<lparr>roll = rad2deg (atan2 m12 m22), pitch = rad2deg (asin_safe (- m02)), yaw = rad2deg (atan2 m01 m00)\<rparr>"
    by (simp add: DeriveEulerAngles_def Let_def m abcd)
  have "a ^ 2 + b ^ 2 + c ^ 2 + d ^ 2 = 1" using assms(1) by (simp add: unit_quat_def abcd)
  note mat = euler_matrix [OF this, folded m]
  have le: "m02 ^ 2 \<le> 1" using mat(1) by (smt (verit) zero_le_power2)
  then have "\<bar>- m02\<bar> \<le> 1" by (simp add: abs_square_le_1)
  then have as: "asin_safe (- m02) = arcsin (- m02)" and r: "- 1 \<le> - m02" "- m02 \<le> 1" by (auto simp: asin_safe_def)
  let ?p = "arcsin (- m02)"
  have "\<bar>rad2deg ?p\<bar> < 90" using assms(2) by (simp add: e as)
  then have "\<bar>?p\<bar> < pi / 2" by (simp add: rad2deg_def abs_mult field_simps)
  then have pos: "cos ?p > 0" by (intro cos_gt_zero_pi) linarith+
  have sp: "sin ?p = - m02" by (rule sin_arcsin [OF r])
  have cp: "cos ?p = sqrt (1 - m02 ^ 2)" using cos_arcsin [OF r] by simp
  then have cp2: "cos ?p ^ 2 = 1 - m02 ^ 2" using le by simp
  have "cmod (Complex m00 m01) = cos ?p" "cmod (Complex m22 m12) = cos ?p" using mat(1,2) by (simp_all add: cmod_def cp add.commute)
  with polar [of m00 m01] polar [of m22 m12] have
    pol: "cos ?p * cos (atan2 m01 m00) = m00" "cos ?p * sin (atan2 m01 m00) = m01" "cos ?p * cos (atan2 m12 m22) = m22" "cos ?p * sin (atan2 m12 m22) = m12"
    by simp_all
  note rest = turns_matrix [OF cp2 _ sp pol mat(3-6)]
  have att: "attitude (f_q_bo_est f) v = vector_quat \<lparr>getX = m00 * getX v + m01 * getY v + m02 * getZ v,
        getY = 2 * (a * b - c * d) * getX v + (d ^ 2 - a ^ 2 + b ^ 2 - c ^ 2) * getY v + m12 * getZ v,
        getZ = 2 * (a * c + b * d) * getX v + 2 * (b * c - a * d) * getY v + m22 * getZ v\<rparr>"
    unfolding attitude_matrix Let_def m abcd ..
  from pos have nz: "cos ?p \<noteq> 0" by simp
  show ?thesis
    unfolding att e as turn_x_def turn_y_def turn_z_def Let_def rad2deg_inv rest [OF nz] Adcs_euler_t.simps
    using sp pol by (simp add: algebra_simps)
qed

lemma control_error_angle:
  assumes "unit_quat (f_control_error_q f)"
  shows "cos (DeriveControlErrorAngleDeg f * pi / 360) = q4 (f_control_error_q f)"
    "sin (DeriveControlErrorAngleDeg f * pi / 360) = vector_norm (f_control_error_q f)"
proof -
  let ?q = "f_control_error_q f"
  have one: "q1 ?q ^ 2 + q2 ?q ^ 2 + q3 ?q ^ 2 = 1 - q4 ?q ^ 2" using assms by (simp add: unit_quat_def)
  then have "q4 ?q ^ 2 \<le> 1" by (smt (verit) zero_le_power2)
  then have le: "\<bar>q4 ?q\<bar> \<le> 1" by (simp add: abs_square_le_1)
  then have "DeriveControlErrorAngleDeg f * pi / 360 = arccos (q4 ?q)"
    by (simp add: DeriveControlErrorAngleDeg_def acos_safe_def rad2deg_def)
  then show "cos (DeriveControlErrorAngleDeg f * pi / 360) = q4 ?q"
    "sin (DeriveControlErrorAngleDeg f * pi / 360) = vector_norm ?q"
    using le one by (simp_all add: cos_arccos_abs sin_arccos_abs vector_norm_def)
qed

text \<open>
  (C34) Away from the poles of the pitch, the Euler angles of a report are the attitude of its estimated
  quaternion: for a unit quaternion and a pitch strictly between -90 and 90 degrees, turning the frame by yaw about the third axis, then by pitch about
  the second, then by roll about the first, takes every vector where the quaternion takes it. The control error angle is
  the angle of the control error quaternion: half of it has the scalar part as cosine and the length of the vector part as sine.
\<close>

theorem convert_attitude:
  assumes "unit_quat (f_q_bo_est f)" and "unit_quat (f_control_error_q f)"
    and "\<bar>pitch (hk_euler_angles (convert h f))\<bar> < 90"
  shows "(\<forall>v. vector_quat (turn_x (roll (hk_euler_angles (convert h f)))
        (turn_y (pitch (hk_euler_angles (convert h f))) (turn_z (yaw (hk_euler_angles (convert h f))) v)))
        = attitude (f_q_bo_est f) v)
    \<and> cos (hk_control_error_angle_deg (convert h f) * pi / 360) = q4 (f_control_error_q f)
    \<and> sin (hk_control_error_angle_deg (convert h f) * pi / 360) = vector_norm (f_control_error_q f)"
  using euler_angles_turn [OF assms(1)] assms(3) control_error_angle [OF assms(2)]
  unfolding convert_derived by simp

section \<open>The last report\<close>

text \<open>
  The handlers answer with the last report that arrived and its age: after any number of
  other queries, \<open>adcs_get\<close> returns the report set last, converted, and the time since it was set, and a
  report of one kind leaves the other alone.
\<close>

lemma adcs_get_last:
  "adcs_get now (Some (snd (getTfrs t3 (snd (getAdcs t2 (setAdcs t1 f m)))))) =
     (good \<lparr>ar_mode = DecodeAcsMode (f_acs_mode_active f), ar_hk = convert (ar_hk (m_adcs m)) f, ar_age = now - t1\<rparr>,
      Some (snd (getAdcs now (snd (getTfrs t3 (snd (getAdcs t2 (setAdcs t1 f m))))))))
   \<and> m_tfrs (setAdcs t1 f m) = m_tfrs m \<and> m_adcs (setTfrs t1 g m) = m_adcs m"
  by (simp add: adcs_get_def getAdcs_def getTfrs_def setAdcs_def setTfrs_def Let_def convert_def)

section \<open>Witness\<close>

definition demo_feed :: PayloadAdcsFeed where
  "demo_feed = (let q = \<lparr>q1 = 0, q2 = 0, q3 = 0, q4 = 1\<rparr>; v = \<lparr>xyz_x = 0, xyz_y = 0, xyz_z = 7000000\<rparr> in
     \<lparr>f_acs_mode_active = 3, f_control_error_q = q, f_q_bo_est = q, f_latlontrack_lat = 0, f_lease_active = False,
      f_eclipse_flag = True, f_q_bi_est = q, f_latlontrack_lon = 0, f_r_eci = v, f_latlontrack_body_vector = v,
      f_omega_bo_est = v, f_acs_mode_cmd = 3, f_v_eci = v, f_qcf = q, f_lease_time_remaining = 0, f_unix_timestamp = 0,
      f_omega_bi_est = v, f_control_error_omega = v\<rparr>)"

theorem convert_position_witness: "\<forall>h. hk_altitude (convert h demo_feed) = 629000"
proof
  fix h
  have "xyz_norm_can (f_r_eci demo_feed) = 7000000" by (simp add: xyz_norm_can_def demo_feed_def Let_def)
  with convert_position [of demo_feed h] show "hk_altitude (convert h demo_feed) = 629000" by (simp add: R_EARTH_def)
qed

text \<open>A report of a body turned about the third axis by twice the angle of cosine 3/5.\<close>

definition demo_turned :: PayloadAdcsFeed where
  "demo_turned = (let q = \<lparr>q1 = 0, q2 = 0, q3 = 4 / 5, q4 = 3 / 5\<rparr> in
     demo_feed\<lparr>f_control_error_q := q, f_q_bo_est := q\<rparr>)"

theorem convert_attitude_witness:
  "\<forall>h. sin (hk_control_error_angle_deg (convert h demo_turned) * pi / 360) = 4 / 5
     \<and> vector_quat (turn_x (roll (hk_euler_angles (convert h demo_turned)))
        (turn_y (pitch (hk_euler_angles (convert h demo_turned))) (turn_z (yaw (hk_euler_angles (convert h demo_turned)))
          \<lparr>getX = 1, getY = 0, getZ = 0\<rparr>))) = \<lparr>q1 = - 7 / 25, q2 = - 24 / 25, q3 = 0, q4 = 0\<rparr>" (is "\<forall>h. ?P h")
proof
  fix h
  let ?f = "demo_turned"
  have u: "unit_quat (f_q_bo_est ?f)" "unit_quat (f_control_error_q ?f)"
    by (simp_all add: unit_quat_def demo_turned_def Let_def power2_eq_square)
  have "pitch (hk_euler_angles (convert h ?f)) = 0"
    by (simp add: convert_derived DeriveEulerAngles_def demo_turned_def Let_def asin_safe_def rad2deg_def)
  then have "\<bar>pitch (hk_euler_angles (convert h ?f))\<bar> < 90" by simp
  note c = convert_attitude [OF u this]
  have "vector_norm (f_control_error_q ?f) = 4 / 5"
    by (simp add: vector_norm_def demo_turned_def Let_def)
  moreover have "attitude (f_q_bo_est ?f) \<lparr>getX = 1, getY = 0, getZ = 0\<rparr> = \<lparr>q1 = - 7 / 25, q2 = - 24 / 25, q3 = 0, q4 = 0\<rparr>"
    by (simp add: attitude_matrix vector_quat_def demo_turned_def Let_def power2_eq_square)
  ultimately show "?P h" using c by simp
qed

end
