(* ===== verification/Oort_Router.thy ===== *)
theory Oort_Router
  imports Oort_Service Oort_Adcs
begin

text \<open>
  \<^verbatim>\<open>router/\<close>, \<^verbatim>\<open>impl/SdkApiImpl.cpp\<close>, \<^verbatim>\<open>impl/CollectorApiImpl.cpp\<close> and the delivery of responses
  (\<^verbatim>\<open>impl/Utils.h\<close>): from an HTTP request to a handler of the agent and back to a status and a
  document. The matching of a path against a pattern belongs to the HTTP library and the reading
  of request bodies to the JSON library and generated code: both are parameters (\<open>http_ext\<close>).
\<close>

section \<open>Requests and responses\<close>

datatype http_method = OR_GET | OR_POST | OR_OTHER

text \<open>\<open>rq_data\<close> is what \<open>onion_request_get_data\<close> returns; \<open>None\<close> is the null pointer.\<close>

record http_request =
  rq_method :: http_method
  rq_path :: string
  rq_data :: "string option"

text \<open>
  The body of a response: a text, or the object that \<open>to_jsonstr\<close> is given. In an object \<open>None\<close>
  stands for the default-constructed one. \<open>J_Error\<close> is an \<open>ErrorResponse\<close> with status and message.
\<close>

datatype 'n http_body =
    Text string
  | J_Error int string
  | J_Available "AvailableFilesResponse option"
  | J_FileInfo "FileInfo option"
  | J_Sent "string option"
  | J_Adcs "AdcsResponse option"
  | J_Command "'n AdcsCommandResponse option"
  | J_Tfrs "TfrsResponse option"
  | J_Ping "string option"
  | J_Info "InfoResponse option"
  | J_Meta "TransferMeta option"

record 'n http_response =
  hr_code :: int
  hr_body :: "'n http_body"

text \<open>The agent with its two members that lead to the CAN bus, and what has been sent there.\<close>

record 'f app = agent +
  ag_adcs :: "AdcsManager option"
  ag_uavclient :: "('f can_call \<times> 32 word) option"
  ag_sent :: "'f CommandRequest list"
  ag_latch :: nat

type_synonym ('f, 'a) http_act = "('f app, 'a) ste"

text \<open>
  \<open>x_url_match pattern path\<close>: the rest of the path behind the match and the first group. The
  \<open>x_read\<close> functions are \<open>json::parse\<close> followed by \<open>from_json\<close>, the \<open>x_new\<close> objects are the
  default-constructed ones. \<open>x_system_clock\<close> is \<open>system_clock::now\<close>.
\<close>

record ('f, 'n) http_ext = ext +
  x_url_match :: "string \<Rightarrow> string \<Rightarrow> (string \<times> string) option"
  x_read_send :: "string \<Rightarrow> exn + SendFileRequest"
  x_new_send :: SendFileRequest
  x_read_retrieve :: "string \<Rightarrow> exn + RetrieveFileRequest"
  x_new_retrieve :: RetrieveFileRequest
  x_read_adcs :: "string \<Rightarrow> exn + 'n AdcsCommandRequest"
  x_new_adcs :: "'n AdcsCommandRequest"
  x_read_info :: "string \<Rightarrow> exn + string list option"
  x_new_info :: "string list option"
  x_conv :: "('f, 'n) conv"
  x_system_clock :: "world \<Rightarrow> real"

section \<open>Delivery\<close>

fun code_number :: "Code \<Rightarrow> int" where
  "code_number Ok = 200"
| "code_number Bad_Request = 400"

definition deliverResponse :: "('a option \<Rightarrow> 'n http_body) \<Rightarrow> 'a ResponseCode \<Rightarrow> 'n http_response" where
  "deliverResponse to_jsonstr response = (case code response of
      Ok \<Rightarrow> \<lparr>hr_code = 200, hr_body = to_jsonstr (result response)\<rparr>
    | _ \<Rightarrow> \<lparr>hr_code = code_number (code response), hr_body = J_Error (code_number (code response)) (err response)\<rparr>)"

section \<open>The implementations of the two interfaces\<close>

definition sdk_query_available_files :: "('f, 'n) http_ext \<Rightarrow> string \<Rightarrow> ('f, 'n http_response) http_act" where
  "sdk_query_available_files X topic =
     seqE (query_available X topic) (\<lambda>resp. ret (deliverResponse J_Available resp))"

definition sdk_retrieve_file :: "('f, 'n) http_ext \<Rightarrow> RetrieveFileRequest \<Rightarrow> ('f, 'n http_response) http_act" where
  "sdk_retrieve_file X req = seqE (retrieve_file X req) (\<lambda>resp. ret (deliverResponse J_FileInfo resp))"

definition sdk_send_file :: "('f, 'n) http_ext \<Rightarrow> SendFileRequest \<Rightarrow> ('f, 'n http_response) http_act" where
  "sdk_send_file X req = seqE (send_file X req) (\<lambda>resp. ret (deliverResponse J_Sent resp))"

definition sdk_adcs_get :: "('f, 'n) http_ext \<Rightarrow> ('f, 'n http_response) http_act" where
  "sdk_adcs_get X a = (case adcs_get (x_system_clock X (ag_world a)) (ag_adcs a) of
     (resp, m) \<Rightarrow> (Inr (deliverResponse J_Adcs resp), a\<lparr>ag_adcs := m\<rparr>))"

definition sdk_adcs_post :: "('f, 'n) http_ext \<Rightarrow> 'n AdcsCommandRequest \<Rightarrow> ('f, 'n http_response) http_act" where
  "sdk_adcs_post X req a = (case adcs_command_post (x_conv X) (ag_uavclient a) req (ag_sent a) (ag_latch a) of
     (resp, sent, latch) \<Rightarrow> (Inr (deliverResponse J_Command resp), a\<lparr>ag_sent := sent, ag_latch := latch\<rparr>))"

definition sdk_tfrs_get :: "('f, 'n) http_ext \<Rightarrow> ('f, 'n http_response) http_act" where
  "sdk_tfrs_get X a = (case tfrs_get (x_system_clock X (ag_world a)) (ag_adcs a) of
     (resp, m) \<Rightarrow> (Inr (deliverResponse J_Tfrs resp), a\<lparr>ag_adcs := m\<rparr>))"

definition collector_ping :: "('f, 'n http_response) http_act" where
  "collector_ping = ret (deliverResponse J_Ping ping)"

definition collector_get_info :: "('f, 'n) http_ext \<Rightarrow> string list option \<Rightarrow> ('f, 'n http_response) http_act" where
  "collector_get_info X req = seqE (collector_info X req) (\<lambda>resp. ret (deliverResponse J_Info resp))"

definition collector_meta :: "('f, 'n) http_ext \<Rightarrow> string \<Rightarrow> ('f, 'n http_response) http_act" where
  "collector_meta X uuid = seqE (agent_meta X uuid) (\<lambda>resp. ret (deliverResponse J_Meta resp))"

section \<open>The macros of the routers\<close>

definition BadMethod :: "'n http_response" where
  "BadMethod = \<lparr>hr_code = 405, hr_body = Text ''Method not allowed''\<rparr>"

definition CheckMethod :: "http_request \<Rightarrow> http_method \<Rightarrow> ('f, 'n http_response) http_act \<Rightarrow> ('f, 'n http_response) http_act" where
  "CheckMethod req m k = (if rq_method req \<noteq> m then ret BadMethod else k)"

text \<open>Without data the variable keeps its default.\<close>

definition GetPostData :: "'a \<Rightarrow> (string \<Rightarrow> exn + 'a) \<Rightarrow> http_request \<Rightarrow> exn + 'a" where
  "GetPostData var from_json req = (case rq_data req of None \<Rightarrow> Inr var | Some data \<Rightarrow> from_json data)"

definition bad_body :: "(errno \<Rightarrow> string) \<Rightarrow> exn \<Rightarrow> 'n http_response" where
  "bad_body strerror ex = \<lparr>hr_code = 400, hr_body = Text (''Bad request: '' @ what strerror ex @ [CHR 0x0A])\<rparr>"

definition ParseRequest :: "('f, 'n) http_ext \<Rightarrow> 'a \<Rightarrow> (string \<Rightarrow> exn + 'a) \<Rightarrow> http_request \<Rightarrow>
    ('a \<Rightarrow> ('f, 'n http_response) http_act) \<Rightarrow> ('f, 'n http_response) http_act" where
  "ParseRequest X var from_json req k = (case GetPostData var from_json req of
      Inl ex \<Rightarrow> if is_json_exception ex then ret (bad_body (x_strerror X) ex) else throw ex
    | Inr r \<Rightarrow> k r)"

section \<open>Routes\<close>

text \<open>
  A router is a list of patterns and handlers. The first pattern that matches decides; its handler
  is given the request with the rest of the path, and the first group. \<open>None\<close>: no pattern matched.
\<close>

type_synonym ('f, 'n) route = "string \<times> (http_request \<Rightarrow> string \<Rightarrow> ('f, 'n http_response option) http_act)"

fun url :: "('f, 'n) http_ext \<Rightarrow> ('f, 'n) route list \<Rightarrow> http_request \<Rightarrow> ('f, 'n http_response option) http_act" where
  "url X [] req = ret None"
| "url X ((pattern, h) # routes) req = (case x_url_match X pattern (rq_path req) of
      Some (rest, g1) \<Rightarrow> h (req\<lparr>rq_path := rest\<rparr>) g1
    | None \<Rightarrow> url X routes req)"

definition processed :: "('f, 'n http_response) http_act \<Rightarrow> ('f, 'n http_response option) http_act" where
  "processed m = seqE m (\<lambda>r. ret (Some r))"

definition static_text :: "string \<Rightarrow> int \<Rightarrow> http_request \<Rightarrow> string \<Rightarrow> ('f, 'n http_response option) http_act" where
  "static_text t c req g1 = ret (Some \<lparr>hr_code = c, hr_body = Text t\<rparr>)"

definition SdkApiRouter :: "('f, 'n) http_ext \<Rightarrow> ('f, 'n) route list" where
  "SdkApiRouter X =
    [(''^v1/query_available_files/([-_[:alnum:]]+)$'', \<lambda>req g1. processed (CheckMethod req OR_GET (sdk_query_available_files X g1))),
     (''^v1/send_file$'', \<lambda>req g1. processed (CheckMethod req OR_POST
        (ParseRequest X (x_new_send X) (x_read_send X) req (sdk_send_file X)))),
     (''^v1/retrieve_file$'', \<lambda>req g1. processed (CheckMethod req OR_POST
        (ParseRequest X (x_new_retrieve X) (x_read_retrieve X) req (sdk_retrieve_file X)))),
     (''^v1/adcs$'', \<lambda>req g1. processed
        (if rq_method req = OR_GET then sdk_adcs_get X
         else if rq_method req = OR_POST then ParseRequest X (x_new_adcs X) (x_read_adcs X) req (sdk_adcs_post X)
         else ret BadMethod)),
     (''^v1/tfrs$'', \<lambda>req g1. processed (CheckMethod req OR_GET (sdk_tfrs_get X))),
     (''^.*'', static_text ''Method not implemented'' 501)]"

definition CollectorApiRouter :: "('f, 'n) http_ext \<Rightarrow> ('f, 'n) route list" where
  "CollectorApiRouter X =
    [(''v1/ping'', \<lambda>req g1. processed (CheckMethod req OR_GET collector_ping)),
     (''v1/info'', \<lambda>req g1. processed (CheckMethod req OR_POST
        (seqE (lift (GetPostData (x_new_info X) (x_read_info X) req)) (collector_get_info X)))),
     (''^v1/meta/([-[:xdigit:]]+)$'', \<lambda>req g1. processed (CheckMethod req OR_GET (collector_meta X g1))),
     (''^.*'', static_text ''Method not implemented'' 501)]"

text \<open>The router of \<^verbatim>\<open>main-api-server.cpp\<close>.\<close>

definition main_router :: "('f, 'n) http_ext \<Rightarrow> ('f, 'n) route list" where
  "main_router X =
    [(''^collector/'', \<lambda>req g1. url X (CollectorApiRouter X) req),
     (''^sdk/'', \<lambda>req g1. url X (SdkApiRouter X) req),
     (''^.*'', static_text ''Method not implemented'' 501)]"

definition serve :: "('f, 'n) http_ext \<Rightarrow> http_request \<Rightarrow> ('f, 'n http_response option) http_act" where
  "serve X = url X (main_router X)"

section \<open>Frames\<close>

lemma stable_processed [frame_intros]: "stable R m \<Longrightarrow> stable R (processed m)"
  by (simp add: stable_def processed_def seqE_def split: prod.splits sum.splits) (metis snd_conv)

lemma stable_seqE_ret: "stable R m \<Longrightarrow> stable R (seqE m (\<lambda>r. ret (f r)))"
  by (simp add: stable_def seqE_def split: prod.splits sum.splits) (metis snd_conv)

text \<open>A frame relation that holds of every handler of a router holds of the router.\<close>

lemma stable_url:
  assumes "\<And>pattern h req g1. (pattern, h) \<in> set routes \<Longrightarrow> P req \<Longrightarrow> stable R (h req g1)"
    and "\<And>s. R s s" and "\<And>req p. P req \<Longrightarrow> P (req\<lparr>rq_path := p\<rparr>)" and "P req"
  shows "stable R (url X routes req)"
  using assms(1)
proof (induction routes)
  case Nil
  then show ?case using assms(2) by (simp add: stable_def)
next
  case (Cons r routes)
  obtain pattern h where r: "r = (pattern, h)" by (cases r)
  have "stable R (url X routes req)" using Cons by auto
  moreover have "stable R (h (req\<lparr>rq_path := p\<rparr>) g1)" for p g1
    using Cons.prems [of pattern h] r assms(3,4) by simp
  ultimately show ?case by (auto simp: r split: option.splits)
qed

lemma stable_ret_refl: "(\<And>s. R s s) \<Longrightarrow> stable R (ret y)"
  by (simp add: stable_def)

lemma stable_ParseRequest: "(\<And>s. R s s) \<Longrightarrow> (\<And>r. stable R (k r)) \<Longrightarrow> stable R (ParseRequest X v f req k)"
  by (auto simp: ParseRequest_def stable_def split: sum.splits)

lemma stable_seqE_lift: "(\<And>s. R s s) \<Longrightarrow> (\<And>r. stable R (k r)) \<Longrightarrow> stable R (seqE (lift q) k)"
  by (cases q) (auto simp: stable_def seqE_def)

text \<open>To carry a relation through the service it is enough to carry it through the handlers of the method.\<close>

lemma stable_serve:
  assumes "\<And>s. R s s"
    and "\<And>topic. m \<noteq> OR_POST \<Longrightarrow> stable R (sdk_query_available_files X topic)" and "\<And>r. m = OR_POST \<Longrightarrow> stable R (sdk_send_file X r)"
    and "\<And>r. m = OR_POST \<Longrightarrow> stable R (sdk_retrieve_file X r)" and "m \<noteq> OR_POST \<Longrightarrow> stable R (sdk_adcs_get X)"
    and "\<And>r. m = OR_POST \<Longrightarrow> stable R (sdk_adcs_post X r)" and "m \<noteq> OR_POST \<Longrightarrow> stable R (sdk_tfrs_get X)"
    and "\<And>r. m = OR_POST \<Longrightarrow> stable R (collector_get_info X r)" and "\<And>uuid. m \<noteq> OR_POST \<Longrightarrow> stable R (collector_meta X uuid)"
    and "rq_method req = m"
  shows "stable R (serve X req)"
proof -
  note ret = stable_ret_refl [OF assms(1)] and prs = stable_ParseRequest [OF assms(1)] and lft = stable_seqE_lift [OF assms(1)]
  have sdk: "stable R (h req g1)" if "(pattern, h) \<in> set (SdkApiRouter X)" "rq_method req = m" for pattern h req g1
    using that assms(2-7) unfolding SdkApiRouter_def 
    by (auto simp: CheckMethod_def static_text_def intro!: stable_processed prs ret)
  have col: "stable R (h req g1)" if "(pattern, h) \<in> set (CollectorApiRouter X)" "rq_method req = m" for pattern h req g1
    using that assms(8,9) unfolding CollectorApiRouter_def collector_ping_def
    by (auto simp: CheckMethod_def static_text_def intro!: stable_processed lft ret)
  show ?thesis unfolding serve_def
    by (rule stable_url [where P = "\<lambda>r. rq_method r = m"])
      (use sdk col assms(1,10) in \<open>auto simp: main_router_def static_text_def intro!: stable_url [where P = "\<lambda>r. rq_method r = m"] ret\<close>)
qed

section \<open>What a request that is not POST may change\<close>

text \<open>
  Files only below the working directory, neither the topics allowed nor what was sent to the bus.
\<close>

definition contained :: "'f app \<Rightarrow> 'f app \<Rightarrow> bool" where
  "contained a b \<longleftrightarrow> workdir b = workdir a \<and> m_allowedTopics b = m_allowedTopics a \<and> ag_sent b = ag_sent a
     \<and> (agent_dirs a \<longrightarrow> agent_dirs b \<and> (\<forall>p. \<not> prefix (workdir a @ ''/'') p \<longrightarrow> file_at (ag_world b) p = file_at (ag_world a) p))"

interpretation contained_frame: frame contained
  by unfold_locales (auto simp: contained_def)

lemma contained_world: "agent_dirs a \<Longrightarrow> (\<And>p. \<not> prefix (workdir a @ ''/'') p \<Longrightarrow> file_at w p = file_at (ag_world a) p)
    \<Longrightarrow> contained a (a\<lparr>ag_world := w\<rparr>)"
  by (auto simp: contained_def agent_dirs_def)

lemma contained_onworld [frame_intros]: "stable (only_files {}) m \<Longrightarrow> stable contained (onworld m)"
  by (auto simp: stable_def onworld_def contained_def agent_dirs_def only_files_def split: prod.splits) (metis snd_conv)

lemma contained_cached:
  assumes "stable contained (fn key)" and "\<And>c a. contained a (write_c c a)"
  shows "stable contained (cached read_c write_c fn key)"
  using assms by (intro stable_cached contained_frame.frame_axioms) (auto simp: contained_def agent_dirs_def quiet_def)

lemma prefix_chop:
  assumes "prefix (wd @ ''/'') (s @ e)" and "CHR ''/'' \<notin> set e"
  shows "prefix (wd @ ''/'') s"
proof (rule ccontr)
  assume n: "\<not> prefix (wd @ ''/'') s"
  obtain us where us: "s @ e = (wd @ ''/'') @ us" using assms(1) by (auto simp: prefix_def)
  from us [unfolded append_eq_append_conv2] show False using n assms(2) by (auto simp: prefix_def append_eq_Cons_conv append_eq_append_conv2)
qed

lemma tree_prefix: "prefix d p \<Longrightarrow> q \<in> tree p \<Longrightarrow> prefix d q"
  by (auto simp: tree_def prefix_def)

lemma contained_pair:
  assumes "agent_dirs a" and "prefix (workdir a @ ''/'') f" "prefix (workdir a @ ''/'') t"
  shows "contained a (snd (onworld (endeaden_pair (deadletter_dir a) f t) a))"
proof -
  let ?A = "{p. prefix (workdir a @ ''/'') p}"
  have d: "prefix (workdir a @ ''/'') (deadletter_dir a @ ''/'' @ s)" for s using assms(1) by (simp add: agent_dirs_def)
  have "tree f \<union> tree (deadletter_dir a @ ''/'' @ s) \<subseteq> ?A" "tree t \<union> tree (deadletter_dir a @ ''/'' @ s) \<subseteq> ?A" for s
    using tree_prefix assms(2,3) d by blast+
  then have "stable (only_files ?A) (endeaden_pair (deadletter_dir a) f t)"
    unfolding endeaden_pair_def by (intro frame_intros stable_only_files_mono [OF stable_sys_rename])
  from stable_snd [OF this, of "ag_world a"] show ?thesis
    by (auto simp: onworld_def split: prod.splits intro!: contained_world [OF assms(1)] dest: only_files_file_at)
qed

lemma contained_endeaden [frame_intros]: "stable contained (endeaden f)"
  unfolding stable_def
proof
  fix a :: "'a app"
  have sl: "CHR ''/'' \<notin> set META_EXT" "CHR ''/'' \<notin> set DATA_EXT" by code_simp+
  have st: "prefix (workdir a @ ''/'') f" if "agent_dirs a" "starts_with f (transfer_dir a) \<or> starts_with f (upload_dir a) \<or> starts_with f (upgrade_dir a)"
    using that by (auto simp: agent_dirs_def starts_with_iff prefix_def)
  show "contained a (snd (endeaden f a))"
  proof (cases "agent_dirs a")
    case False
    obtain w where "endeaden f a = (Inr (), a\<lparr>ag_world := w\<rparr>)" using endeaden_run by blast
    then show ?thesis using False by (simp add: contained_def)
  next
    case True
    have pair: "contained a (snd (onworld (endeaden_pair (deadletter_dir a) (s @ e) (s @ e')) a))"
      if "prefix (workdir a @ ''/'') (s @ e)" "CHR ''/'' \<notin> set e" for s e e'
      using contained_pair [OF True that(1), of "s @ e'"] prefix_chop [OF that] by (simp add: prefix_append)
    consider (meta) s where "f = s @ META_EXT" | (data) s where "f = s @ DATA_EXT" | (other) "\<not> ends_with f META_EXT" "\<not> ends_with f DATA_EXT"
      by (auto simp: ends_with_iff suffix_def)
    then show ?thesis
    proof cases
      case meta
      then show ?thesis using st [OF True] pair [OF _ sl(1), of s DATA_EXT] contained_frame.frame_refl [of a]
        by (simp add: endeaden_def seqE_gets ends_with_iff)
    next
      case data
      then show ?thesis using st [OF True] pair [OF _ sl(2), of s META_EXT] contained_frame.frame_refl [of a]
        by (simp add: endeaden_def seqE_gets ends_with_iff)
    next
      case other
      then show ?thesis using contained_frame.frame_refl [of a] by (simp add: endeaden_def seqE_gets)
    qed
  qed
qed

lemma contained_read_meta [frame_intros]: "stable contained (read_transfer_meta X f)"
  unfolding read_transfer_meta_def by (intro frame_intros)

lemma contained_cached_meta [frame_intros]: "stable contained (read_transfer_meta_cached X f)"
  unfolding read_transfer_meta_cached_def
  by (rule contained_cached [OF contained_read_meta]) (auto simp: contained_def agent_dirs_def)

lemma contained_meta_listing [frame_intros]: "stable contained (meta_listing d)"
  unfolding meta_listing_def
  by (rule contained_cached) (intro frame_intros, auto simp: contained_def agent_dirs_def)

lemma contained_examine [frame_intros]: "stable contained (examine X topic meta)"
  unfolding examine_def by (intro frame_intros)

lemma contained_files_loop [frame_intros]: "stable contained (files_loop X d topic fs fl)"
proof (induction fs arbitrary: fl)
  case (Cons f fs)
  show ?case unfolding files_loop.simps by (intro frame_intros Cons.IH)
qed (simp add: stable_def contained_frame.frame_refl)

lemma contained_gets:
  "stable contained (sdk_query_available_files X topic)" "stable contained (collector_meta X uuid)"
  unfolding sdk_query_available_files_def collector_meta_def query_available_def files_info_def agent_meta_def
  by (intro frame_intros)+

lemma contained_reports: "stable contained (sdk_adcs_get X)" "stable contained (sdk_tfrs_get X)"
  by (auto simp: stable_def sdk_adcs_get_def sdk_tfrs_get_def contained_def agent_dirs_def split: prod.splits)

text \<open>
  (C12) A request that is not a POST only looks: whatever its path, and however it ends, no file
  outside the working directory of the agent appears, disappears or changes, no message is sent to
  the attitude control and the allowed topics stay as they are. (Inside the working directory it may
  move files that it finds corrupt to the dead-letter box.)
\<close>

theorem get_contained:
  assumes "agent_dirs a" and "rq_method req \<noteq> OR_POST" and "serve X req a = (r, b)"
  shows "(\<forall>p. \<not> prefix (workdir a @ ''/'') p \<longrightarrow> file_at (ag_world b) p = file_at (ag_world a) p)
    \<and> ag_sent b = ag_sent a \<and> m_allowedTopics b = m_allowedTopics a"
proof -
  have "stable contained (serve X req)"
    using assms(2)
    by (intro stable_serve [where m = "rq_method req"] contained_frame.frame_refl contained_gets contained_reports) simp_all
  from stableD [OF this assms(3)] show ?thesis using assms(1) by (simp add: contained_def)
qed

section \<open>The settings of the agent\<close>

text \<open>
  A relation that does not depend on the file system, the topics and the caches is kept by every
  handler, since they assign to nothing else.
\<close>

locale agent_frame = frame R for R :: "'z agent_scheme \<Rightarrow> 'z agent_scheme \<Rightarrow> bool" +
  assumes on_world: "R a (a\<lparr>ag_world := w\<rparr>)" and on_topics: "R a (a\<lparr>m_allowedTopics := ts\<rparr>)"
    and on_dir_cache: "R a (a\<lparr>dir_cache := c\<rparr>)" and on_metafile_cache: "R a (a\<lparr>metafile_cache := c\<rparr>)"
    and on_meta_cache: "R a (a\<lparr>meta_cache := mc\<rparr>)"
begin

lemma keep_onworld: "stable R (onworld m)"
  by (auto simp: stable_def onworld_def on_world split: prod.splits)

lemma keep_topics: "stable R (modify (m_allowedTopics_update (\<lambda>_. ts)))"
  by (simp add: stable_def on_topics)

lemma keep_cached:
  assumes "stable R (fn key)" and wr: "\<And>c a. R a (write_c c a)"
  shows "stable R (cached read_c write_c fn key)"
  using assms on_world frame_axioms by (intro stable_cached)

lemma keep_endeaden: "stable R (endeaden f)"
  unfolding endeaden_def by (intro frame_intros keep_onworld)

lemma keep_read_meta: "stable R (read_transfer_meta X f)"
  unfolding read_transfer_meta_def by (intro frame_intros keep_onworld keep_endeaden)

lemma keep_cached_meta: "stable R (read_transfer_meta_cached X f)"
  unfolding read_transfer_meta_cached_def by (rule keep_cached [OF keep_read_meta on_meta_cache])

lemma keep_listings: "stable R (meta_listing d)" "stable R (dir_listing X d)"
  unfolding meta_listing_def dir_listing_def
  by (rule keep_cached [OF keep_onworld on_metafile_cache], rule keep_cached [OF keep_onworld on_dir_cache])

lemma keep_examine: "stable R (examine X topic meta)"
  unfolding examine_def by (intro frame_intros keep_onworld keep_endeaden keep_cached_meta)

lemma keep_files_loop: "stable R (files_loop X d topic fs fl)"
proof (induction fs arbitrary: fl)
  case (Cons f fs)
  show ?case unfolding files_loop.simps by (intro frame_intros keep_examine Cons.IH)
qed (simp add: stable_def frame_refl)

lemma keep_query: "stable R (query_available X topic)"
  unfolding query_available_def files_info_def by (intro frame_intros keep_listings keep_files_loop)

lemma keep_send: "stable R (send_file X req)"
  unfolding send_file_def prepare_send_def Let_def by (intro frame_intros keep_onworld)

lemma keep_retrieve: "stable R (retrieve_file X rreq)"
  unfolding retrieve_file_def Let_def by (intro frame_intros keep_onworld keep_endeaden keep_cached_meta)

lemma keep_meta: "stable R (agent_meta X uuid)"
  unfolding agent_meta_def by (intro frame_intros keep_cached_meta)

lemma keep_info: "stable R (collector_info X topics)"
  unfolding collector_info_def by (intro frame_intros keep_topics keep_listings)

end

text \<open>The free-space limits, the working directory, and everything that leads to the bus.\<close>

definition same_settings :: "'f app \<Rightarrow> 'f app \<Rightarrow> bool" where
  "same_settings a b \<longleftrightarrow> min_free_disk b = min_free_disk a \<and> min_free_pct b = min_free_pct a \<and> workdir b = workdir a
     \<and> ag_adcs b = ag_adcs a \<and> ag_uavclient b = ag_uavclient a \<and> ag_sent b = ag_sent a \<and> ag_latch b = ag_latch a"

interpretation settings: agent_frame same_settings
  by unfold_locales (auto simp: same_settings_def)

section \<open>The invariant\<close>

text \<open>The invariant of the agent, its limits, and the latch: it is free between requests.\<close>

definition app_inv :: "'f app \<Rightarrow> bool" where
  "app_inv a \<longleftrightarrow> agent_inv a \<and> max_query a = 50 \<and> min_free_disk a = -1 \<and> min_free_pct a = -1 \<and> ag_latch a = 1"

definition keeps_app :: "'f app \<Rightarrow> 'f app \<Rightarrow> bool" where
  "keeps_app a b \<longleftrightarrow> (app_inv a \<longrightarrow> app_inv b) \<and> workdir b = workdir a \<and> (ag_adcs b = None \<longleftrightarrow> ag_adcs a = None)
     \<and> ag_uavclient b = ag_uavclient a"

interpretation app_frame: frame keeps_app
  by unfold_locales (auto simp: keeps_app_def)

lemma keeps_app_split: "stable keeps_inv m \<Longrightarrow> stable same_settings m \<Longrightarrow> stable keeps_app m"
  by (auto simp: stable_def keeps_app_def keeps_inv_def same_settings_def app_inv_def)

lemma keeps_app_handlers:
  "stable keeps_app (sdk_query_available_files X topic)" "stable keeps_app (sdk_send_file X sreq)"
  "stable keeps_app (sdk_retrieve_file X rreq)" "stable keeps_app (collector_get_info X topics)"
  "stable keeps_app (collector_meta X uuid)"
  unfolding sdk_query_available_files_def sdk_send_file_def sdk_retrieve_file_def collector_get_info_def collector_meta_def
  by (intro stable_seqE_ret keeps_app_split stable_query stable_send stable_retrieve stable_collector_info stable_agent_meta
      settings.keep_query settings.keep_send settings.keep_retrieve settings.keep_info settings.keep_meta)+

lemma keeps_app_bus: "stable keeps_app (sdk_adcs_get X)" "stable keeps_app (sdk_tfrs_get X)"
  by (auto simp: stable_def sdk_adcs_get_def sdk_tfrs_get_def adcs_get_def tfrs_get_def keeps_app_def app_inv_def agent_inv_def agent_dirs_def
      split: prod.splits option.splits)

lemma keeps_app_command: "stable keeps_app (sdk_adcs_post X areq)"
  by (auto simp: stable_def sdk_adcs_post_def adcs_command_post_def adcs_finish_def keeps_app_def app_inv_def agent_inv_def agent_dirs_def
      guard_destroy_def sem_post_def SEM_VALUE_MAX_def split: prod.splits option.splits)

lemma serve_keeps_app: "stable keeps_app (serve X req)"
  by (rule stable_serve [where m = "rq_method req"])
    (rule app_frame.frame_refl keeps_app_handlers keeps_app_bus keeps_app_command refl)+

section \<open>The interface by its paths\<close>

text \<open>
  What the patterns match: an expression that ends in \<^verbatim>\<open>$\<close> and a plain string the whole path, the
  others a head of it. The group is empty when the pattern has none.
\<close>

definition whole :: "string \<Rightarrow> string \<Rightarrow> (string \<times> string) option" where
  "whole s p = (if p = s then Some ([], []) else None)"

definition head :: "string \<Rightarrow> string \<Rightarrow> (string \<times> string) option" where
  "head s p = (if prefix s p then Some (drop (length s) p, []) else None)"

definition tail_of :: "string \<Rightarrow> (char \<Rightarrow> bool) \<Rightarrow> string \<Rightarrow> (string \<times> string) option" where
  "tail_of s ok p = (let t = drop (length s) p in if prefix s p \<and> t \<noteq> [] \<and> list_all ok t then Some ([], t) else None)"

definition uuid_char :: "char \<Rightarrow> bool" where
  "uuid_char c \<longleftrightarrow> c \<in> set ''-0123456789ABCDEFabcdef''"

definition url_laws :: "('f, 'n) http_ext \<Rightarrow> bool" where
  "url_laws X \<longleftrightarrow> x_url_match X ''^.*'' = (\<lambda>p. Some ([], []))
     \<and> x_url_match X ''^collector/'' = head ''collector/'' \<and> x_url_match X ''^sdk/'' = head ''sdk/''
     \<and> x_url_match X ''v1/ping'' = whole ''v1/ping'' \<and> x_url_match X ''v1/info'' = whole ''v1/info''
     \<and> x_url_match X ''^v1/meta/([-[:xdigit:]]+)$'' = tail_of ''v1/meta/'' uuid_char
     \<and> x_url_match X ''^v1/query_available_files/([-_[:alnum:]]+)$'' = tail_of ''v1/query_available_files/'' topic_char
     \<and> x_url_match X ''^v1/send_file$'' = whole ''v1/send_file'' \<and> x_url_match X ''^v1/retrieve_file$'' = whole ''v1/retrieve_file''
     \<and> x_url_match X ''^v1/adcs$'' = whole ''v1/adcs'' \<and> x_url_match X ''^v1/tfrs$'' = whole ''v1/tfrs''"

text \<open>The operations of the two specifications, by their paths.\<close>

datatype endpoint = E_Query string | E_Send | E_Retrieve | E_Adcs | E_Tfrs | E_Ping | E_Info | E_Meta string

definition operation :: "string \<Rightarrow> endpoint option" where
  "operation p =
     (if p = ''collector/v1/ping'' then Some E_Ping
      else if p = ''collector/v1/info'' then Some E_Info
      else if p = ''sdk/v1/send_file'' then Some E_Send
      else if p = ''sdk/v1/retrieve_file'' then Some E_Retrieve
      else if p = ''sdk/v1/adcs'' then Some E_Adcs
      else if p = ''sdk/v1/tfrs'' then Some E_Tfrs
      else case tail_of ''collector/v1/meta/'' uuid_char p of
        Some (_, uuid) \<Rightarrow> Some (E_Meta uuid)
      | None \<Rightarrow> map_option (\<lambda>(_, topic). E_Query topic) (tail_of ''sdk/v1/query_available_files/'' topic_char p))"

fun methods :: "endpoint \<Rightarrow> http_method list" where
  "methods (E_Query topic) = [OR_GET]"
| "methods E_Send = [OR_POST]"
| "methods E_Retrieve = [OR_POST]"
| "methods E_Adcs = [OR_GET, OR_POST]"
| "methods E_Tfrs = [OR_GET]"
| "methods E_Ping = [OR_GET]"
| "methods E_Info = [OR_POST]"
| "methods (E_Meta uuid) = [OR_GET]"

text \<open>The body of a request is read before the handler runs; only \<open>info\<close> lets an error of the JSON code pass.\<close>

fun perform :: "('f, 'n) http_ext \<Rightarrow> endpoint \<Rightarrow> http_request \<Rightarrow> ('f, 'n http_response) http_act" where
  "perform X (E_Query topic) req = sdk_query_available_files X topic"
| "perform X E_Send req = ParseRequest X (x_new_send X) (x_read_send X) req (sdk_send_file X)"
| "perform X E_Retrieve req = ParseRequest X (x_new_retrieve X) (x_read_retrieve X) req (sdk_retrieve_file X)"
| "perform X E_Adcs req = (if rq_method req = OR_GET then sdk_adcs_get X
     else ParseRequest X (x_new_adcs X) (x_read_adcs X) req (sdk_adcs_post X))"
| "perform X E_Tfrs req = sdk_tfrs_get X"
| "perform X E_Ping req = collector_ping"
| "perform X E_Info req = seqE (lift (GetPostData (x_new_info X) (x_read_info X) req)) (collector_get_info X)"
| "perform X (E_Meta uuid) req = collector_meta X uuid"

lemma tail_of_append: "prefix s p \<Longrightarrow> tail_of (s @ t) ok p = tail_of t ok (drop (length s) p)"
  by (auto simp: tail_of_def Let_def prefix_def)

lemma tail_of_other: "\<not> prefix s p \<Longrightarrow> tail_of (s @ t) ok p = None"
  by (auto simp: tail_of_def Let_def prefix_def)

lemma operation_collector:
  "operation (''collector/'' @ p) = (if p = ''v1/ping'' then Some E_Ping else if p = ''v1/info'' then Some E_Info
     else map_option (\<lambda>(_, uuid). E_Meta uuid) (tail_of ''v1/meta/'' uuid_char p))"
  using tail_of_append [of "''collector/''" "''collector/'' @ p" "''v1/meta/''" uuid_char]
    tail_of_other [of "''sdk/''" "''collector/'' @ p" "''v1/query_available_files/''" topic_char]
  by (auto simp: operation_def split: option.splits)

lemma operation_sdk:
  "operation (''sdk/'' @ p) = (if p = ''v1/send_file'' then Some E_Send else if p = ''v1/retrieve_file'' then Some E_Retrieve
     else if p = ''v1/adcs'' then Some E_Adcs else if p = ''v1/tfrs'' then Some E_Tfrs
     else map_option (\<lambda>(_, topic). E_Query topic) (tail_of ''v1/query_available_files/'' topic_char p))"
  using tail_of_append [of "''sdk/''" "''sdk/'' @ p" "''v1/query_available_files/''" topic_char]
    tail_of_other [of "''collector/''" "''sdk/'' @ p" "''v1/meta/''" uuid_char]
  by (auto simp: operation_def split: option.splits)

lemma operation_other:
  assumes "\<not> prefix ''collector/'' p" and "\<not> prefix ''sdk/'' p"
  shows "operation p = None"
proof -
  have "tail_of ''collector/v1/meta/'' uuid_char p = None" "tail_of ''sdk/v1/query_available_files/'' topic_char p = None"
    using tail_of_other [OF assms(1), of "''v1/meta/''" uuid_char] tail_of_other [OF assms(2), of "''v1/query_available_files/''" topic_char]
    by simp_all
  moreover have "p \<noteq> ''collector/'' @ s" "p \<noteq> ''sdk/'' @ s" for s using assms by auto
  from this(1) [of "''v1/ping''"] this(1) [of "''v1/info''"] this(2) [of "''v1/send_file''"] this(2) [of "''v1/retrieve_file''"]
    this(2) [of "''v1/adcs''"] this(2) [of "''v1/tfrs''"]
  have "p \<noteq> ''collector/v1/ping''" "p \<noteq> ''collector/v1/info''" "p \<noteq> ''sdk/v1/send_file''" "p \<noteq> ''sdk/v1/retrieve_file''"
    "p \<noteq> ''sdk/v1/adcs''" "p \<noteq> ''sdk/v1/tfrs''" by simp_all
  ultimately show ?thesis by (simp only: operation_def if_False option.case option.map refl)
qed

definition interface :: "('f, 'n) http_ext \<Rightarrow> endpoint option \<Rightarrow> http_request \<Rightarrow> ('f, 'n http_response option) http_act" where
  "interface X ep req = (case ep of
      None \<Rightarrow> ret (Some \<lparr>hr_code = 501, hr_body = Text ''Method not implemented''\<rparr>)
    | Some e \<Rightarrow> if rq_method req \<in> set (methods e) then processed (perform X e req)
               else ret (Some \<lparr>hr_code = 405, hr_body = Text ''Method not allowed''\<rparr>))"

lemma processed_ret [simp]: "processed (ret r) = ret (Some r)"
  by (simp add: processed_def fun_eq_iff seqE_def)

lemma GetPostData_path [simp]: "GetPostData v f (req\<lparr>rq_path := p\<rparr>) = GetPostData v f req"
  by (simp add: GetPostData_def)

lemma ParseRequest_path [simp]: "ParseRequest X v f (req\<lparr>rq_path := p\<rparr>) k = ParseRequest X v f req k"
  by (simp add: ParseRequest_def)

lemma collector_interface:
  assumes "url_laws X"
  shows "url X (CollectorApiRouter X) (req\<lparr>rq_path := p\<rparr>) = interface X (operation (''collector/'' @ p)) req"
proof -
  have m: "x_url_match X ''v1/ping'' = whole ''v1/ping''" "x_url_match X ''v1/info'' = whole ''v1/info''"
    "x_url_match X ''^v1/meta/([-[:xdigit:]]+)$'' = tail_of ''v1/meta/'' uuid_char" "x_url_match X ''^.*'' = (\<lambda>p. Some ([], []))"
    using assms by (simp_all only: url_laws_def)
  consider (ping) "p = ''v1/ping''" | (info) "p = ''v1/info''" | (rest) "p \<noteq> ''v1/ping''" "p \<noteq> ''v1/info''" by blast
  then show ?thesis
  proof cases
    case ping
    then show ?thesis unfolding CollectorApiRouter_def url.simps m operation_collector
      by (simp add: whole_def interface_def CheckMethod_def BadMethod_def)
  next
    case info
    then show ?thesis unfolding CollectorApiRouter_def url.simps m operation_collector
      by (simp add: whole_def interface_def CheckMethod_def BadMethod_def)
  next
    case rest
    then have w: "whole ''v1/ping'' p = None" "whole ''v1/info'' p = None" by (simp_all add: whole_def)
    have o: "operation (''collector/'' @ p) = map_option (\<lambda>(_, uuid). E_Meta uuid) (tail_of ''v1/meta/'' uuid_char p)"
      using rest by (simp only: operation_collector if_False)
    show ?thesis unfolding CollectorApiRouter_def url.simps m o
      by (cases "tail_of ''v1/meta/'' uuid_char p")
        (auto simp: w interface_def CheckMethod_def BadMethod_def static_text_def)
  qed
qed

lemma sdk_interface:
  assumes "url_laws X"
  shows "url X (SdkApiRouter X) (req\<lparr>rq_path := p\<rparr>) = interface X (operation (''sdk/'' @ p)) req"
proof -
  let ?t = "tail_of ''v1/query_available_files/'' topic_char"
  have m: "x_url_match X ''^v1/query_available_files/([-_[:alnum:]]+)$'' = ?t"
    "x_url_match X ''^v1/send_file$'' = whole ''v1/send_file''" "x_url_match X ''^v1/retrieve_file$'' = whole ''v1/retrieve_file''"
    "x_url_match X ''^v1/adcs$'' = whole ''v1/adcs''" "x_url_match X ''^v1/tfrs$'' = whole ''v1/tfrs''"
    "x_url_match X ''^.*'' = (\<lambda>p. Some ([], []))"
    using assms by (simp_all only: url_laws_def)
  note d = interface_def CheckMethod_def BadMethod_def static_text_def whole_def
  have no: "?t ''v1/send_file'' = None" "?t ''v1/retrieve_file'' = None" "?t ''v1/adcs'' = None" "?t ''v1/tfrs'' = None"
    by code_simp+
  consider (send) "p = ''v1/send_file''" | (retrieve) "p = ''v1/retrieve_file''" | (adcs) "p = ''v1/adcs''" | (tfrs) "p = ''v1/tfrs''"
    | (rest) "p \<noteq> ''v1/send_file''" "p \<noteq> ''v1/retrieve_file''" "p \<noteq> ''v1/adcs''" "p \<noteq> ''v1/tfrs''" by blast
  then show ?thesis
  proof cases
    case rest
    then have o: "operation (''sdk/'' @ p) = map_option (\<lambda>(_, topic). E_Query topic) (?t p)"
      by (simp only: operation_sdk if_False)
    have w: "whole ''v1/send_file'' p = None" "whole ''v1/retrieve_file'' p = None" "whole ''v1/adcs'' p = None" "whole ''v1/tfrs'' p = None"
      using rest by (simp_all add: whole_def)
    show ?thesis unfolding SdkApiRouter_def url.simps m o
      by (cases "?t p") (auto simp: w interface_def CheckMethod_def BadMethod_def static_text_def)
  qed (unfold SdkApiRouter_def url.simps m operation_sdk, simp_all add: no d)
qed

lemma serve_interface_eq:
  assumes "url_laws X"
  shows "serve X req = interface X (operation (rq_path req)) req"
proof -
  have m: "x_url_match X ''^collector/'' = head ''collector/''" "x_url_match X ''^sdk/'' = head ''sdk/''"
    "x_url_match X ''^.*'' = (\<lambda>p. Some ([], []))" using assms by (simp_all only: url_laws_def)
  consider (collector) p where "rq_path req = ''collector/'' @ p" | (sdk) p where "rq_path req = ''sdk/'' @ p"
    | (other) "\<not> prefix ''collector/'' (rq_path req)" "\<not> prefix ''sdk/'' (rq_path req)" by (auto simp: prefix_def)
  then show ?thesis
  proof cases
    case collector
    then show ?thesis using collector_interface [OF assms, of p req]
      by (simp add: serve_def main_router_def m head_def)
  next
    case sdk
    then show ?thesis using sdk_interface [OF assms, of p req]
      by (simp add: serve_def main_router_def m head_def)
  next
    case other
    then have "operation (rq_path req) = None" by (rule operation_other)
    moreover have "head ''collector/'' (rq_path req) = None" "head ''sdk/'' (rq_path req) = None" using other by (simp_all add: head_def)
    ultimately show ?thesis by (simp add: serve_def main_router_def m interface_def static_text_def fun_eq_iff)
  qed
qed

text \<open>
  (C14) The nested routers implement the two interfaces. A request is answered by the operation its
  path names, which gets exactly the topic or identifier of the path; a method the operation does
  not have is answered with 405, a path without an operation with 501, and a body that the JSON
  code rejects with 400 (except for \<open>info\<close>, where its exception passes): in these cases nothing changes.
\<close>

theorem serve_interface:
  assumes "url_laws X"
  shows "case operation (rq_path req) of
      None \<Rightarrow> serve X req a = (Inr (Some \<lparr>hr_code = 501, hr_body = Text ''Method not implemented''\<rparr>), a)
    | Some ep \<Rightarrow>
        if rq_method req \<notin> set (methods ep)
        then serve X req a = (Inr (Some \<lparr>hr_code = 405, hr_body = Text ''Method not allowed''\<rparr>), a)
        else serve X req a = processed (perform X ep req) a
          \<and> (\<forall>data ex. rq_data req = Some data \<and> is_json_exception ex \<and>
               (ep = E_Send \<and> x_read_send X data = Inl ex \<or> ep = E_Retrieve \<and> x_read_retrieve X data = Inl ex
                \<or> ep = E_Adcs \<and> rq_method req = OR_POST \<and> x_read_adcs X data = Inl ex) \<longrightarrow>
               serve X req a = (Inr (Some \<lparr>hr_code = 400, hr_body = Text (''Bad request: '' @ what (x_strerror X) ex @ [CHR 0x0A])\<rparr>), a))
          \<and> (\<forall>data ex. rq_data req = Some data \<and> ep = E_Info \<and> x_read_info X data = Inl ex \<longrightarrow> serve X req a = (Inl ex, a))"
  by (auto simp: serve_interface_eq [OF assms] interface_def processed_def seqE_def ParseRequest_def GetPostData_def bad_body_def
      split: option.splits)

lemma hex_digit_uuid: "uuid_char (hex_digit n)"
proof -
  have "list_all uuid_char ''0123456789abcdef''" by code_simp
  then show ?thesis using nth_mem [of "n mod 16" "''0123456789abcdef''"]
    by (simp add: hex_digit_def list_all_iff del: set_simps list.set insert_iff)
qed

lemma hex_byte_uuid: "list_all uuid_char (hex_byte b)"
  by (simp add: hex_byte_two hex_digit_uuid)

text \<open>The router accepts every identifier the agent makes.\<close>

lemma mkUUID_uuid: "mkUUID r \<noteq> [] \<and> list_all uuid_char (mkUUID r)"
proof -
  have c: "list_all uuid_char (concat (map hex_byte bs))" for bs
    by (induction bs) (simp_all add: hex_byte_uuid)
  have "uuid_char (CHR ''-'')" by code_simp
  then show ?thesis by (simp add: mkUUID_def Let_def c)
qed

lemma operation_meta:
  assumes "uuid \<noteq> []" and "list_all uuid_char uuid"
  shows "operation (''collector/v1/meta/'' @ uuid) = Some (E_Meta uuid)"
proof -
  have "tail_of ''v1/meta/'' uuid_char (''v1/meta/'' @ uuid) = Some ([], uuid)" using assms by (simp add: tail_of_def)
  then show ?thesis using operation_collector [of "''v1/meta/'' @ uuid"] by simp
qed

lemma operation_send: "operation ''sdk/v1/send_file'' = Some E_Send"
  by (simp add: operation_def)

lemma deliver_200: "hr_code (deliverResponse J resp) = 200 \<longleftrightarrow> code resp = Ok"
  by (cases "code resp") (simp_all add: deliverResponse_def)

section \<open>Results\<close>

text \<open>A predicate of every value a computation can return.\<close>

definition returns :: "('a \<Rightarrow> bool) \<Rightarrow> ('s, 'a) ste \<Rightarrow> bool" where
  "returns P m \<longleftrightarrow> (\<forall>s r t. m s = (Inr r, t) \<longrightarrow> P r)"

lemma returnsD: "returns P m \<Longrightarrow> m s = (Inr r, t) \<Longrightarrow> P r"
  unfolding returns_def by blast

lemma returns_basic: "P r \<Longrightarrow> returns P (ret r)" "returns P (throw e)"
  by (simp_all add: returns_def)

lemma returns_seqE: "(\<And>x. returns P (f x)) \<Longrightarrow> returns P (seqE m f)"
  by (auto simp: returns_def seqE_Inr_iff)

lemma returns_catchE: "returns P m \<Longrightarrow> (\<And>e. returns P (h e)) \<Longrightarrow> returns P (catchE m p h)"
  by (auto simp: returns_def catchE_def split: prod.splits sum.splits if_splits)

lemma returns_if: "returns P m \<Longrightarrow> returns P n \<Longrightarrow> returns P (if c then m else n)"
  by simp

lemma returns_sum: "(\<And>x. returns P (f x)) \<Longrightarrow> (\<And>y. returns P (g y)) \<Longrightarrow> returns P (case r of Inl x \<Rightarrow> f x | Inr y \<Rightarrow> g y)"
  by (cases r) simp_all

lemmas returns_intros = returns_basic returns_seqE returns_catchE returns_if returns_sum

text \<open>An \<open>Ok\<close> of \<open>send_file\<close> carries the identifier.\<close>

lemma send_file_good: "send_file X req a = (Inr resp, b) \<Longrightarrow> code resp = Ok \<Longrightarrow> \<exists>uuid. resp = good uuid"
proof -
  have "returns (\<lambda>resp. code resp = Ok \<longrightarrow> (\<exists>uuid. resp = good uuid)) (send_file X req)"
    unfolding send_file_def Let_def by (intro returns_intros) auto
  then show "send_file X req a = (Inr resp, b) \<Longrightarrow> code resp = Ok \<Longrightarrow> \<exists>uuid. resp = good uuid"
    by (blast dest: returnsD)
qed

text \<open>
  (C8) From end to end: when a POST of a file to be sent, read as the request \<open>req\<close>, is answered with
  200, the answer carries an identifier, and a GET on the path of the collector made from it is answered with 200 and
  exactly the metadata composed for the request, with size and times narrowed to 32 bits. The pattern of the collector's path accepts
  every identifier the agent makes. The conditions: the metadata survives printing and parsing by the JSON library; the calls that
  \<open>send_file\<close> does not look at, the flush and the removal of the metadata do not fail; the name of the metadata is free, and the
  cache of metadata is in order, enabled and has no entry under it.
\<close>

theorem http_send_then_meta:
  assumes url: "url_laws X" and body: "x_read_send X data = Inr req"
    and json: "x_parse_meta X (x_print_meta X (meta_for X req a i)) = Inr (meta_for X req a i)"
    and post: "serve X \<lparr>rq_method = OR_POST, rq_path = ''sdk/v1/send_file'', rq_data = Some data\<rparr> a = (Inr (Some resp), b)"
      "hr_code resp = 200"
    and src: "file_at (ag_world a) (sr_filepath req) = Some i" "file_at (ag_world a) (sent_meta a (next_uuid a)) = None"
    and env: "calls_ok (sent_data a (next_uuid a)) (ag_world a)" "fs_env (sr_filepath req) (ag_world a)"
      "w_fault (ag_world a) (Sc_unlink (sent_meta a (next_uuid a))) = None"
      "w_fault (ag_world a) (Sc_flush (sent_meta a (next_uuid a))) = None"
    and cache: "cache_wf (meta_cache a)" "cache_enabled (meta_cache a)"
      "map_of (cache_contents (meta_cache a)) (sent_meta a (next_uuid a)) = None"
  shows "\<exists>uuid c. hr_body resp = J_Sent (Some uuid)
    \<and> serve X \<lparr>rq_method = OR_GET, rq_path = ''collector/v1/meta/'' @ uuid, rq_data = None\<rparr> b
        = (Inr (Some \<lparr>hr_code = 200, hr_body = J_Meta (Some (meta_for X req a i))\<rparr>), c)"
proof -
  note sv = serve_interface_eq [OF url]
  from post(1) body obtain sr where sr: "send_file X req a = (Inr sr, b)" "resp = deliverResponse J_Sent sr"
    by (auto simp: sv operation_send interface_def processed_def seqE_Inr_iff ParseRequest_def GetPostData_def sdk_send_file_def)
  with post(2) have "code sr = Ok" by (simp add: deliver_200)
  then obtain uuid where uuid: "sr = good uuid" using send_file_good [OF sr(1)] by blast
  from send_then_meta [OF src(1) json sr(1) [unfolded uuid] src(2) env cache] obtain c
    where m: "agent_meta X uuid b = (Inr (good (meta_for X req a i)), c)" by blast
  have "uuid = next_uuid a" using send_file_done [OF sr(1) [unfolded uuid] src(2) env] by simp
  then have "operation (''collector/v1/meta/'' @ uuid) = Some (E_Meta uuid)"
    using mkUUID_uuid operation_meta by (simp add: next_uuid_def)
  then show ?thesis using m sr(2) uuid
    by (simp add: sv interface_def processed_def collector_meta_def seqE_def deliverResponse_def)
qed

section \<open>Witnesses\<close>

text \<open>A matcher for the patterns of the routers, and an agent that is not connected to the bus.\<close>

definition demo_match :: "string \<Rightarrow> string \<Rightarrow> (string \<times> string) option" where
  "demo_match pattern =
     (if pattern = ''^.*'' then (\<lambda>p. Some ([], []))
      else if pattern = ''^collector/'' then head ''collector/''
      else if pattern = ''^sdk/'' then head ''sdk/''
      else if pattern = ''^v1/meta/([-[:xdigit:]]+)$'' then tail_of ''v1/meta/'' uuid_char
      else if pattern = ''^v1/query_available_files/([-_[:alnum:]]+)$'' then tail_of ''v1/query_available_files/'' topic_char
      else if hd pattern = CHR ''^'' then whole (butlast (tl pattern)) else whole pattern)"

definition demo_http :: "(32 word, 64 word) http_ext" where
  "demo_http = ext.extend demo_ext \<lparr>x_url_match = demo_match,
     x_read_send = (\<lambda>s. if s = ''{}'' then Inr demo_req else Inl (json_parse_error ''parse error'')), x_new_send = demo_req,
     x_read_retrieve = (\<lambda>s. if s = ''{}'' then Inr demo_rr else Inl (json_parse_error ''parse error'')), x_new_retrieve = \<lparr>rr_id = [], rr_save_path = []\<rparr>,
     x_read_adcs = (\<lambda>s. Inl (json_parse_error ''parse error'')),
     x_new_adcs = \<lparr>o_command = [], o_aperture = None, o_target = None, o_angle = None, o_quat = None, o_vector = None\<rparr>,
     x_read_info = (\<lambda>s. Inl (json_parse_error ''parse error'')), x_new_info = None, x_conv = demo_conv, x_system_clock = (\<lambda>w. of_int (w_time w))\<rparr>"

definition demo_app :: "32 word app" where
  "demo_app = agent.extend (demo_agent (\<lambda>_. None)) \<lparr>ag_adcs = None, ag_uavclient = None, ag_sent = [], ag_latch = 1\<rparr>"

lemma demo_url_laws: "url_laws demo_http"
  unfolding url_laws_def by (simp add: demo_http_def ext.defs demo_match_def)

lemma demo_app_world: "ag_world demo_app = ag_world (demo_agent (\<lambda>_. None))"
  by (simp add: demo_app_def agent.defs)

theorem get_contained_witness:
  "file_at (ag_world (snd (serve demo_http \<lparr>rq_method = OR_GET, rq_path = ''sdk/v1/query_available_files/t-1'', rq_data = None\<rparr> demo_app)))
     ''/a/f'' = Some (demo_file [1, 2, 3])"
proof -
  let ?r = "\<lparr>rq_method = OR_GET, rq_path = ''sdk/v1/query_available_files/t-1'', rq_data = None\<rparr>"
  obtain r b where run: "serve demo_http ?r demo_app = (r, b)" by (cases "serve demo_http ?r demo_app")
  have d: "agent_dirs demo_app" "workdir demo_app = ''/b''" "file_at (ag_world demo_app) ''/a/f'' = Some (demo_file [1, 2, 3])"
    by code_simp+
  from get_contained [OF d(1) _ run] have "file_at (ag_world b) ''/a/f'' = file_at (ag_world demo_app) ''/a/f''"
    by (simp add: d(2))
  then show ?thesis by (simp add: run d(3))
qed

theorem serve_interface_witness:
  "serve demo_http \<lparr>rq_method = OR_GET, rq_path = ''sdk/v1/send_file'', rq_data = None\<rparr> demo_app
     = (Inr (Some \<lparr>hr_code = 405, hr_body = Text ''Method not allowed''\<rparr>), demo_app)
   \<and> serve demo_http \<lparr>rq_method = OR_POST, rq_path = ''sdk/v1/send_file'', rq_data = Some ''[''\<rparr> demo_app
     = (Inr (Some \<lparr>hr_code = 400, hr_body = Text (''Bad request: parse error'' @ [CHR 0x0A])\<rparr>), demo_app)"
proof -
  have r: "x_read_send demo_http ''['' = Inl (json_parse_error ''parse error'')" by (simp add: demo_http_def ext.defs)
  show ?thesis
    using serve_interface [OF demo_url_laws, of "\<lparr>rq_method = OR_GET, rq_path = ''sdk/v1/send_file'', rq_data = None\<rparr>" demo_app]
      serve_interface [OF demo_url_laws, of "\<lparr>rq_method = OR_POST, rq_path = ''sdk/v1/send_file'', rq_data = Some ''[''\<rparr>" demo_app]
    by (simp add: operation_send r) (elim conjE, simp)
qed

theorem http_send_then_meta_witness:
  "\<exists>b resp uuid c. serve demo_http \<lparr>rq_method = OR_POST, rq_path = ''sdk/v1/send_file'', rq_data = Some ''{}''\<rparr> demo_app = (Inr (Some resp), b)
     \<and> hr_body resp = J_Sent (Some uuid)
     \<and> serve demo_http \<lparr>rq_method = OR_GET, rq_path = ''collector/v1/meta/'' @ uuid, rq_data = None\<rparr> b
         = (Inr (Some \<lparr>hr_code = 200, hr_body = J_Meta (Some demo_tm)\<rparr>), c)"
proof -
  let ?r = "\<lparr>rq_method = OR_POST, rq_path = ''sdk/v1/send_file'', rq_data = Some ''{}''\<rparr>"
  have run: "map_sum id (map_option hr_code) (fst (serve demo_http ?r demo_app)) = Inr (Some 200)" by code_simp
  then obtain resp b where sv: "serve demo_http ?r demo_app = (Inr (Some resp), b)" and ok: "hr_code resp = 200"
    by (cases "serve demo_http ?r demo_app"; cases "fst (serve demo_http ?r demo_app)") auto
  have rd: "x_read_send demo_http ''{}'' = Inr demo_req" by (simp add: demo_http_def ext.defs)
  have mt: "meta_for demo_http demo_req demo_app (demo_file [1, 2, 3]) = demo_tm" by code_simp
  have js: "x_parse_meta demo_http (x_print_meta demo_http (meta_for demo_http demo_req demo_app (demo_file [1, 2, 3])))
      = Inr (meta_for demo_http demo_req demo_app (demo_file [1, 2, 3]))"
    unfolding mt by (simp add: demo_http_def demo_ext_def ext.defs demo_parse_def)
  have src: "file_at (ag_world demo_app) (sr_filepath demo_req) = Some (demo_file [1, 2, 3])"
    "file_at (ag_world demo_app) (sent_meta demo_app (next_uuid demo_app)) = None" by code_simp+
  have "cache_wf (meta_cache demo_app)" "cache_enabled (meta_cache demo_app)"
    "map_of (cache_contents (meta_cache demo_app)) (sent_meta demo_app (next_uuid demo_app)) = None" by code_simp+
  with http_send_then_meta [OF demo_url_laws rd js sv ok src] show ?thesis
    using sv by (auto simp: demo_app_world demo_source demo_fs_env demo_fault demo_calls_ok mt)
qed

end
