(* ===== verification/Oort_Config.thy ===== *)
theory Oort_Config
  imports Oort_Model Oort_Log
begin

text \<open>
  \<^verbatim>\<open>impl/Config.cpp\<close> and \<^verbatim>\<open>impl/Config.h\<close>: the command line. \<open>getopt\<close> and \<open>stoul\<close> of the C and C++
  libraries are modelled as far as the options of the agent use them; \<open>unsigned long\<close> has 64 bits.
  What is printed on the error stream is kept as a list of lines.
\<close>

section \<open>Library functions\<close>

definition isspace :: "char \<Rightarrow> bool" where
  "isspace c \<longleftrightarrow> c \<in> {CHR '' '', CHR 0x09, CHR 0x0A, CHR 0x0B, CHR 0x0C, CHR 0x0D}"

text \<open>
  \<open>std::stoul\<close>: white space, a sign, digits. The result is the value and the number of characters
  used; a negative number wraps.
\<close>

definition stoul :: "string \<Rightarrow> exn + int \<times> nat" where
  "stoul s = (let r = dropWhile isspace s;
                  neg = (r \<noteq> [] \<and> hd r = CHR ''-'');
                  u = (if r \<noteq> [] \<and> hd r \<in> {CHR ''-'', CHR ''+''} then tl r else r);
                  ds = takeWhile isdigit u; v = dec_value ds
     in if ds = [] then Inl (invalid_argument ''stoul'')
        else if 2 ^ 64 \<le> v then Inl (out_of_range ''stoul'')
        else Inr (if neg then (- v) mod 2 ^ 64 else v, length s - length (dropWhile isdigit u)))"

text \<open>
  \<open>getopt\<close> on the words that follow the program's name, for an option string in which every letter
  takes an argument: the argument is the rest of the word or the next word, words that
  are no options are passed over, and \<^verbatim>\<open>--\<close> ends the options.
\<close>

datatype getopt_result = Opt char string "string list" | Bad_option | End_options

definition optstring :: string where
  "optstring = ''wtifsmplcnN''"

fun getopt :: "string list \<Rightarrow> getopt_result" where
  "getopt [] = End_options"
| "getopt (a # rest) =
     (if a = ''--'' then End_options
      else if 2 \<le> length a \<and> hd a = CHR ''-'' then
        (if a ! 1 \<notin> set optstring then Bad_option
         else if drop 2 a \<noteq> [] then Opt (a ! 1) (drop 2 a) rest
         else case rest of [] \<Rightarrow> Bad_option | b # others \<Rightarrow> Opt (a ! 1) b others)
      else getopt rest)"

lemma getopt_rest: "getopt args = Opt c arg rest \<Longrightarrow> length rest < length args"
  by (induction args rule: getopt.induct) (auto split: if_splits list.splits)

section \<open>State\<close>

record startup =
  su_cfg :: AgentConfig
  su_world :: world
  su_log :: logger
  su_cerr :: "string list"

type_synonym 'a config_act = "(startup, 'a) ste"

definition cerr :: "string \<Rightarrow> unit config_act" where
  "cerr line = modify (su_cerr_update (\<lambda>ls. ls @ [line]))"

definition set_cfg :: "(AgentConfig \<Rightarrow> AgentConfig) \<Rightarrow> unit config_act" where
  "set_cfg f = modify (su_cfg_update f)"

definition set_flag :: "(config_defaults \<Rightarrow> config_defaults) \<Rightarrow> unit config_act" where
  "set_flag f = set_cfg (use_defaults_update f)"

section \<open>checkDir\<close>

definition checkDir :: "string \<Rightarrow> (world, unit) ste" where
  "checkDir dir =
     (if \<not> checkPath dir then throw (invalid_argument ''directory not absolute'')
      else seqE (attempt (sys_stat dir)) (\<lambda>r. seqE (gets w_euid) (\<lambda>euid. case r of
        Inl _ \<Rightarrow> throw (invalid_argument ''directory not found'')
      | Inr buf \<Rightarrow>
          if i_kind buf \<noteq> Dir then throw (invalid_argument ''not a directory'')
          else if i_uid buf \<noteq> euid then throw (invalid_argument ''directory not owned by current user'')
          else if and (i_mode buf) 0x1C0 \<noteq> 0x1C0
          then throw (invalid_argument ''incorrect permissions on directory (must be u=rwx)'')
          else ret ())))"

section \<open>parseOptions\<close>

text \<open>
  An option leaves the \<open>switch\<close> with \<open>break\<close> (\<open>True\<close>) or with \<open>return false\<close>. The numeric ones share
  their shape: \<open>catch\<close> takes \<open>invalid_argument\<close> and nothing else.
\<close>

definition refuse :: "string \<Rightarrow> bool config_act" where
  "refuse line = seqE (cerr line) (\<lambda>_. ret False)"

definition accept :: "(AgentConfig \<Rightarrow> AgentConfig) \<Rightarrow> bool config_act" where
  "accept f = seqE (set_cfg f) (\<lambda>_. ret True)"

definition number_opt :: "string \<Rightarrow> string \<Rightarrow> (int \<Rightarrow> AgentConfig \<Rightarrow> AgentConfig) \<Rightarrow> bool config_act" where
  "number_opt str_arg complaint f = (case stoul str_arg of
      Inl (invalid_argument _) \<Rightarrow> refuse (complaint @ str_arg)
    | Inl e \<Rightarrow> throw e
    | Inr (n, _) \<Rightarrow> accept (f n))"

definition dir_opt :: "string \<Rightarrow> bool config_act" where
  "dir_opt str_arg = seqE (set_cfg (cfg_workdir_update (\<lambda>_. str_arg))) (\<lambda>_.
     \<lambda>s. case checkDir str_arg (su_world s) of
       (Inr _, w) \<Rightarrow> (Inr True, s\<lparr>su_world := w\<rparr>)
     | (Inl (invalid_argument m), w) \<Rightarrow>
         refuse (''Invalid directory '' @ str_arg @ '': '' @ m) (s\<lparr>su_world := w\<rparr>)
     | (Inl e, w) \<Rightarrow> (Inl e, s\<lparr>su_world := w\<rparr>))"

definition minfree_opt :: "string \<Rightarrow> bool config_act" where
  "minfree_opt str_arg =
     (let no = refuse (''Unsupported min_free setting '' @ [CHR 0x27] @ str_arg @ [CHR 0x27]);
          given = use_defaults_update (ud_minfree_update (\<lambda>_. False))
      in case stoul str_arg of
        Inl (invalid_argument _) \<Rightarrow> no
      | Inl e \<Rightarrow> throw e
      | Inr (n, pos) \<Rightarrow>
          let min_num = wrap32 n; unit = (if pos < length str_arg then str_arg ! pos else CHR 0x00)
          in if unit = CHR ''M'' then accept (given \<circ> minFreeMb_update (\<lambda>_. min_num))
             else if unit = CHR ''%'' then accept (given \<circ> minFreePct_update (\<lambda>_. min_num))
             else no)"

definition level_opt :: "string \<Rightarrow> bool config_act" where
  "level_opt str_arg =
     (let set_level = (\<lambda>l. seqE (modify (su_log_update (setLevel l))) (\<lambda>_.
                accept (use_defaults_update (ud_loglevel_update (\<lambda>_. False)))))
      in if str_arg = levelNames Debug then set_level Debug
         else if str_arg = levelNames Info then set_level Info
         else if str_arg = levelNames Warn then set_level Warn
         else if str_arg = levelNames Error then set_level Error
         else refuse (''Invalid log level '' @ str_arg))"

definition option_step :: "char \<Rightarrow> string \<Rightarrow> bool config_act" where
  "option_step opt str_arg =
    (if opt = CHR ''w'' then dir_opt str_arg
     else if opt = CHR ''t'' then number_opt str_arg ''Invalid age ''
       (\<lambda>n. use_defaults_update (ud_maxage_update (\<lambda>_. False)) \<circ> maxAge_update (\<lambda>_. wrap32 n))
     else if opt = CHR ''i'' then number_opt str_arg ''Invalid timeout ''
       (\<lambda>n. use_defaults_update (ud_interval_update (\<lambda>_. False)) \<circ> cleanupInterval_update (\<lambda>_. wrap32 n))
     else if opt = CHR ''f'' then refuse ''Config file processing is not yet implemented''
     else if opt = CHR ''s'' then seqE (modify (su_log_update (setSyslog str_arg))) (\<lambda>_. ret True)
     else if opt = CHR ''m'' then minfree_opt str_arg
     else if opt = CHR ''p'' then number_opt str_arg ''Invalid port ''
       (\<lambda>n. use_defaults_update (ud_port_update (\<lambda>_. False)) \<circ> port_update (\<lambda>_. wrap32 n))
     else if opt = CHR ''l'' then level_opt str_arg
     else if opt = CHR ''c'' then accept (can_interface_enabled_update (\<lambda>_. True) \<circ> can_interface_update (\<lambda>_. str_arg))
     else if opt = CHR ''n'' then number_opt str_arg ''Invalid UAVCAN node ID ''
       (\<lambda>n. uavcan_node_id_update (\<lambda>_. word_of_int n))
     else if opt = CHR ''N'' then number_opt str_arg ''Invalid shim node ID ''
       (\<lambda>n. use_defaults_update (ud_shim_node_id_update (\<lambda>_. False)) \<circ> shim_node_id_update (\<lambda>_. word_of_int n))
     else refuse (''Unknown option '' @ [CHR 0x27] @ to_string (of_char opt) @ [CHR 0x27]))"

function parse_loop :: "string list \<Rightarrow> bool config_act" where
  "parse_loop args = (case getopt args of
      End_options \<Rightarrow> ret True
    | Bad_option \<Rightarrow> seqE (set_cfg (wantUsage_update (\<lambda>_. True))) (\<lambda>_. ret False)
    | Opt opt str_arg rest \<Rightarrow> seqE (option_step opt str_arg) (\<lambda>go. if go then parse_loop rest else ret False))"
  by pat_completeness auto
termination by (relation "measure length") (auto dest: getopt_rest)

declare parse_loop.simps [simp del]

text \<open>The settings that were not given.\<close>

definition apply_defaults :: "AgentConfig \<Rightarrow> AgentConfig" where
  "apply_defaults c = (let d = use_defaults c in c\<lparr>
     cleanupInterval := (if ud_interval d then 3600 else cleanupInterval c),
     maxAge := (if ud_maxage d then 86400 else maxAge c),
     minFreePct := (if ud_minfree d then 20 else minFreePct c),
     port := (if ud_port d then 2005 else port c),
     shim_node_id := (if ud_shim_node_id d then 50 else shim_node_id c),
     initialized := True\<rparr>)"

definition finish_options :: "bool config_act" where
  "finish_options = seqE (gets su_cfg) (\<lambda>c.
     if cfg_workdir c = [] then refuse ''Workdir must be specified''
     else if can_interface_enabled c \<and> uavcan_node_id c = 0
     then refuse ''If the CAN interface is enabled, a UAVCAN node id must be specified''
     else seqE (set_cfg apply_defaults) (\<lambda>_.
          seqE (modify (su_log_update (if ud_loglevel (use_defaults c) then setLevel Warn else id))) (\<lambda>_.
          ret True)))"

definition parseOptions :: "string list \<Rightarrow> bool config_act" where
  "parseOptions args = seqE (set_cfg (uavcan_node_id_update (\<lambda>_. 0) \<circ> can_interface_enabled_update (\<lambda>_. False))) (\<lambda>_.
     seqE (parse_loop args) (\<lambda>go. if go then finish_options else ret False))"

definition usage :: "string \<Rightarrow> unit config_act" where
  "usage cmd = seqE (gets su_cfg) (\<lambda>c. if \<not> wantUsage c then ret () else modify (su_cerr_update (\<lambda>ls. ls @ [
     ''Usage:'',
     cmd @ '' -w workdir'',
     '' [-t cleanup-timeout] [-i cleanup-interval] [-f config-file]'',
     '' [-s ident] [-m minfree] [-p port] [-l level]'',
     '' [-c can-interface] [-n can-node-id]'',
     '' workdir - base working directory; must be writable'',
     '' cleanup-timeout - age in seconds after which files can be deleted'',
     '' cleanup-interval - how frequently in seconds to run the cleanup task'',
     '' config-file - file to use for setting config values (not implemented)'',
     '' ident - identifier for syslog (default is to log to stderr)'',
     '' minfree - minimum free space to maintain; either ddM or dd%'',
     '' port - tcp port to listen on'',
     '' level - logging level (debug, info, warn, error)'',
     '' can-interface - CAN interface name for healthcheck interface (e.g. can0)'',
     '' can-node-id - CAN node ID for healthcheck interface, required if -c is set'',
     [],
     ''Defaults: '',
     '' cleanup-timeout = '' @ to_string 86400 @ ''  cleanup-interval = '' @ to_string 3600,
     '' minfree = '' @ to_string 20 @ ''%'',
     '' port = '' @ to_string 2005,
     '' level = '' @ levelNames Warn])))"

section \<open>Getters\<close>

definition getPort :: "AgentConfig \<Rightarrow> int" where
  "getPort cfg = port cfg"

definition isCANInterfaceEnabled :: "AgentConfig \<Rightarrow> bool" where
  "isCANInterfaceEnabled cfg = can_interface_enabled cfg"

definition getCANInterface :: "AgentConfig \<Rightarrow> string" where
  "getCANInterface cfg = can_interface cfg"

definition getUAVCANNodeID :: "AgentConfig \<Rightarrow> 32 word" where
  "getUAVCANNodeID cfg = uavcan_node_id cfg"

definition getShimNodeID :: "AgentConfig \<Rightarrow> 32 word" where
  "getShimNodeID cfg = shim_node_id cfg"

lemmas getters = getPort_def isCANInterfaceEnabled_def getCANInterface_def getUAVCANNodeID_def getShimNodeID_def

section \<open>What an accepted command line means\<close>

text \<open>The options of a command line, in order, and the last one of a letter.\<close>

function options :: "string list \<Rightarrow> (char \<times> string) list" where
  "options args = (case getopt args of Opt c arg rest \<Rightarrow> (c, arg) # options rest | _ \<Rightarrow> [])"
  by pat_completeness auto
termination by (relation "measure length") (auto dest: getopt_rest)

declare options.simps [simp del]

definition last_opt :: "string list \<Rightarrow> char \<Rightarrow> string option" where
  "last_opt args = map_of (rev (options args))"

definition number :: "string \<Rightarrow> int" where
  "number arg = fst (projr (stoul arg))"

definition unit_of :: "string \<Rightarrow> char" where
  "unit_of arg = (let pos = snd (projr (stoul arg)) in if pos < length arg then arg ! pos else CHR 0x00)"

text \<open>What one option means, when it is accepted.\<close>

definition configure :: "char \<times> string \<Rightarrow> AgentConfig \<Rightarrow> AgentConfig" where
  "configure ca cfg = (case ca of (c, a) \<Rightarrow>
     if c = CHR ''w'' then cfg\<lparr>cfg_workdir := a\<rparr>
     else if c = CHR ''t'' then cfg\<lparr>maxAge := wrap32 (number a), use_defaults := (use_defaults cfg)\<lparr>ud_maxage := False\<rparr>\<rparr>
     else if c = CHR ''i'' then cfg\<lparr>cleanupInterval := wrap32 (number a), use_defaults := (use_defaults cfg)\<lparr>ud_interval := False\<rparr>\<rparr>
     else if c = CHR ''m'' then
       (if unit_of a = CHR ''M'' then cfg\<lparr>minFreeMb := wrap32 (number a), use_defaults := (use_defaults cfg)\<lparr>ud_minfree := False\<rparr>\<rparr>
        else cfg\<lparr>minFreePct := wrap32 (number a), use_defaults := (use_defaults cfg)\<lparr>ud_minfree := False\<rparr>\<rparr>)
     else if c = CHR ''p'' then cfg\<lparr>port := wrap32 (number a), use_defaults := (use_defaults cfg)\<lparr>ud_port := False\<rparr>\<rparr>
     else if c = CHR ''l'' then cfg\<lparr>use_defaults := (use_defaults cfg)\<lparr>ud_loglevel := False\<rparr>\<rparr>
     else if c = CHR ''c'' then cfg\<lparr>can_interface := a, can_interface_enabled := True\<rparr>
     else if c = CHR ''n'' then cfg\<lparr>uavcan_node_id := word_of_int (number a)\<rparr>
     else if c = CHR ''N'' then cfg\<lparr>shim_node_id := word_of_int (number a), use_defaults := (use_defaults cfg)\<lparr>ud_shim_node_id := False\<rparr>\<rparr>
     else cfg)"

text \<open>A directory the agent can work in.\<close>

definition good_dir :: "world \<Rightarrow> string \<Rightarrow> bool" where
  "good_dir w d \<longleftrightarrow> checkPath d \<and> w_fault w (Sc_stat d) = None \<and> (case file_at w d of None \<Rightarrow> False
     | Some i \<Rightarrow> i_kind i = Dir \<and> i_uid i = w_euid w \<and> and (i_mode i) 0x1C0 = 0x1C0)"

lemma checkDir_cases:
  "(good_dir w d \<and> checkDir d w = (Inr (), w)) \<or> (\<not> good_dir w d \<and> (\<exists>m v. checkDir d w = (Inl (invalid_argument m), v)))"
  by (auto simp: checkDir_def good_dir_def seqE_def attempt_def sys_stat_def guard_fault_def fail_def split: option.splits)

lemmas config_defs = accept_def refuse_def cerr_def set_cfg_def

definition numeric :: "char \<Rightarrow> bool" where
  "numeric c \<longleftrightarrow> c \<in> {CHR ''t'', CHR ''i'', CHR ''m'', CHR ''p'', CHR ''n'', CHR ''N''}"

lemma number_opt_cases:
  "(\<exists>n p. stoul a = Inr (n, p) \<and> number_opt a m f s = (Inr True, s\<lparr>su_cfg := f (number a) (su_cfg s)\<rparr>))
   \<or> (\<exists>x. stoul a = Inl (out_of_range x) \<and> number_opt a m f s = (Inl (out_of_range x), s))
   \<or> (\<exists>x. stoul a = Inl (invalid_argument x) \<and> number_opt a m f s = (Inr False, s\<lparr>su_cerr := su_cerr s @ [m @ a]\<rparr>))"
  by (cases s) (auto simp: number_opt_def config_defs seqE_def stoul_def number_def Let_def)

lemma minfree_opt_cases:
  "(\<exists>n p. stoul a = Inr (n, p) \<and> minfree_opt a s = (Inr True, s\<lparr>su_cfg := configure (CHR ''m'', a) (su_cfg s)\<rparr>))
   \<or> (\<exists>x. stoul a = Inl (out_of_range x) \<and> minfree_opt a s = (Inl (out_of_range x), s))
   \<or> (\<exists>t. minfree_opt a s = (Inr False, t))"
proof (cases "stoul a")
  case (Inl e)
  then have "(\<exists>x. e = out_of_range x) \<or> (\<exists>x. e = invalid_argument x)" by (auto simp: stoul_def Let_def split: if_splits)
  with Inl show ?thesis by (auto simp: minfree_opt_def config_defs seqE_def Let_def)
next
  case (Inr np)
  obtain n p where np: "np = (n, p)" by (cases np)
  with Inr show ?thesis
    by (cases s; cases "su_cfg s") (auto simp: minfree_opt_def config_defs seqE_def Let_def configure_def number_def unit_of_def)
qed


lemma dir_opt_cases:
  "(good_dir (su_world s) a \<and> dir_opt a s = (Inr True, s\<lparr>su_cfg := configure (CHR ''w'', a) (su_cfg s)\<rparr>))
   \<or> (\<exists>t. dir_opt a s = (Inr False, t))"
  using checkDir_cases [of "su_world s" a]
  by (cases s; cases "su_cfg s") (auto simp: dir_opt_def config_defs seqE_def configure_def)

lemma level_opt_cases:
  "(\<exists>l. level_opt a s = (Inr True, s\<lparr>su_cfg := configure (CHR ''l'', a) (su_cfg s), su_log := l\<rparr>))
   \<or> (\<exists>t. level_opt a s = (Inr False, t))"
proof -
  define set_level where "set_level = (\<lambda>l. seqE (modify (su_log_update (setLevel l))) (\<lambda>_.
                accept (use_defaults_update (ud_loglevel_update (\<lambda>_. False)))))"
  have "set_level l s = (Inr True, s\<lparr>su_cfg := configure (CHR ''l'', a) (su_cfg s), su_log := setLevel l (su_log s)\<rparr>)" for l
    by (cases s; cases "su_cfg s") (simp add: set_level_def config_defs seqE_def configure_def)
  moreover have "\<exists>t. refuse x s = (Inr False, t)" for x by (simp add: config_defs seqE_def)
  moreover have "(\<exists>l. level_opt a = set_level l) \<or> (\<exists>x. level_opt a = refuse x)"
    unfolding level_opt_def Let_def set_level_def by (auto simp del: levelNames.simps)
  ultimately show ?thesis by metis
qed

text \<open>
  The three ways an option can go: it is taken, it is refused, or the number in it does not fit
  and the exception passes through.
\<close>

definition taken :: "startup \<Rightarrow> char \<times> string \<Rightarrow> startup \<Rightarrow> bool" where
  "taken s ca t \<longleftrightarrow> (\<exists>l. t = s\<lparr>su_cfg := configure ca (su_cfg s), su_log := l\<rparr>)
     \<and> (fst ca = CHR ''w'' \<longrightarrow> good_dir (su_world s) (snd ca))
     \<and> (numeric (fst ca) \<longrightarrow> \<not> isl (stoul (snd ca)))"

definition overflows :: "char \<times> string \<Rightarrow> string \<Rightarrow> bool" where
  "overflows ca x \<longleftrightarrow> numeric (fst ca) \<and> stoul (snd ca) = Inl (out_of_range x)"

lemma option_step_cases:
  "(\<exists>t. option_step c a s = (Inr True, t) \<and> taken s (c, a) t) \<or> (\<exists>t. option_step c a s = (Inr False, t))
   \<or> (\<exists>x. option_step c a s = (Inl (out_of_range x), s) \<and> overflows (c, a) x)"
proof -
  have numb: ?thesis if "option_step c a = number_opt a m f" "c \<noteq> CHR ''w''" "numeric c"
    "\<And>cfg. f (number a) cfg = configure (c, a) cfg" for m f
    using number_opt_cases [of a m f s] that
    by (elim disjE) (auto simp: taken_def overflows_def intro!: exI [of _ "su_log s"])
  have refused: ?thesis if "option_step c a = refuse x" for x using that by (simp add: config_defs seqE_def)
  consider "c = CHR ''w''" | "c = CHR ''t''" | "c = CHR ''i''" | "c = CHR ''f''" | "c = CHR ''s''" | "c = CHR ''m''"
    | "c = CHR ''p''" | "c = CHR ''l''" | "c = CHR ''c''" | "c = CHR ''n''" | "c = CHR ''N''" | "c \<notin> set optstring"
    by (auto simp: optstring_def)
  then show ?thesis
  proof cases
    case 1
    then show ?thesis using dir_opt_cases [of s a]
      by (auto simp: option_step_def taken_def numeric_def intro!: exI [of _ "su_log s"])
  next
    case 2
    show ?thesis by (rule numb, simp add: 2 option_step_def, auto simp: 2 numeric_def configure_def)
  next
    case 3
    show ?thesis by (rule numb, simp add: 3 option_step_def, auto simp: 3 numeric_def configure_def)
  next
    case 4
    show ?thesis by (rule refused) (simp add: 4 option_step_def)
  next
    case 5
    then have "option_step c a s = (Inr True, s\<lparr>su_log := setSyslog a (su_log s)\<rparr>)"
      by (simp add: option_step_def seqE_def)
    then show ?thesis using 5
      by (auto simp: taken_def numeric_def configure_def intro!: exI [of _ "setSyslog a (su_log s)"])
  next
    case 6
    then show ?thesis using minfree_opt_cases [of a s]
      by (auto simp: option_step_def taken_def overflows_def numeric_def intro!: exI [of _ "su_log s"])
  next
    case 7
    show ?thesis by (rule numb, simp add: 7 option_step_def, auto simp: 7 numeric_def configure_def)
  next
    case 8
    then show ?thesis using level_opt_cases [of a s]
      by (auto simp: option_step_def taken_def numeric_def)
  next
    case 9
    then have "option_step c a s = (Inr True, s\<lparr>su_cfg := configure (c, a) (su_cfg s)\<rparr>)"
      by (cases s; cases "su_cfg s") (simp add: option_step_def config_defs seqE_def configure_def)
    then show ?thesis using 9 by (auto simp: taken_def numeric_def intro!: exI [of _ "su_log s"])
  next
    case 10
    show ?thesis by (rule numb, simp add: 10 option_step_def, auto simp: 10 numeric_def configure_def)
  next
    case 11
    show ?thesis by (rule numb, simp add: 11 option_step_def, auto simp: 11 numeric_def configure_def)
  next
    case 12
    then have "option_step c a = refuse (''Unknown option '' @ [CHR 0x27] @ to_string (of_char c) @ [CHR 0x27])"
      by (simp add: option_step_def optstring_def)
    then show ?thesis by (rule refused)
  qed
qed

lemma parse_loop_result:
  "(\<exists>t. parse_loop args s = (Inr True, t) \<and> su_cfg t = fold configure (options args) (su_cfg s) \<and> su_world t = su_world s
      \<and> (\<forall>(c, a) \<in> set (options args). (c = CHR ''w'' \<longrightarrow> good_dir (su_world s) a) \<and> (numeric c \<longrightarrow> \<not> isl (stoul a))))
   \<or> (\<exists>t. parse_loop args s = (Inr False, t))
   \<or> (\<exists>x t. parse_loop args s = (Inl (out_of_range x), t) \<and> (\<exists>ca \<in> set (options args). overflows ca x))"
proof (induction args arbitrary: s rule: parse_loop.induct)
  case (1 args)
  show ?case
  proof (cases "getopt args")
    case (Opt c a rest)
    have o: "options args = (c, a) # options rest" by (subst options.simps) (simp add: Opt)
    have pl: "parse_loop args s = seqE (option_step c a) (\<lambda>go. if go then parse_loop rest else ret False) s"
      by (subst parse_loop.simps) (simp add: Opt)
    from option_step_cases [of c a s] show ?thesis
    proof (elim disjE exE conjE)
      fix t
      assume t: "option_step c a s = (Inr True, t)" "taken s (c, a) t"
      then have "parse_loop args s = parse_loop rest t" "su_cfg t = configure (c, a) (su_cfg s)" "su_world t = su_world s"
        by (auto simp: pl seqE_def taken_def)
      then show ?thesis using "1.IH" [OF Opt refl, of t] t(2) unfolding o by (auto simp: taken_def)
    qed (auto simp: pl seqE_def o)
  next
    case Bad_option
    then show ?thesis by (simp add: parse_loop.simps seqE_def set_cfg_def)
  next
    case End_options
    then show ?thesis by (simp add: parse_loop.simps options.simps)
  qed
qed

text \<open>A field that only the option of one letter sets has the value of the last such option.\<close>

lemma field_of_last:
  assumes "\<And>c a cfg. f (configure (c, a) cfg) = (if c = k then g a else f cfg)"
  shows "f (fold configure (options args) cfg) = (case last_opt args k of None \<Rightarrow> f cfg | Some a \<Rightarrow> g a)"
proof -
  have "f (fold configure xs cfg) = (case map_of (rev xs) k of None \<Rightarrow> f cfg | Some a \<Rightarrow> g a)" for xs
    by (induction xs rule: rev_induct) (auto simp: assms split: prod.splits)
  then show ?thesis by (simp add: last_opt_def)
qed

lemma configured_fields:
  "cfg_workdir (fold configure (options args) cfg) = (case last_opt args CHR ''w'' of None \<Rightarrow> cfg_workdir cfg | Some a \<Rightarrow> a)"
  "(if ud_port (use_defaults (fold configure (options args) cfg)) then 2005 else port (fold configure (options args) cfg))
    = (case last_opt args CHR ''p'' of None \<Rightarrow> if ud_port (use_defaults cfg) then 2005 else port cfg | Some a \<Rightarrow> wrap32 (number a))"
  "(if ud_maxage (use_defaults (fold configure (options args) cfg)) then 86400 else maxAge (fold configure (options args) cfg))
    = (case last_opt args CHR ''t'' of None \<Rightarrow> if ud_maxage (use_defaults cfg) then 86400 else maxAge cfg | Some a \<Rightarrow> wrap32 (number a))"
  "(if ud_interval (use_defaults (fold configure (options args) cfg)) then 3600 else cleanupInterval (fold configure (options args) cfg))
    = (case last_opt args CHR ''i'' of None \<Rightarrow> if ud_interval (use_defaults cfg) then 3600 else cleanupInterval cfg | Some a \<Rightarrow> wrap32 (number a))"
  "(if ud_shim_node_id (use_defaults (fold configure (options args) cfg)) then 50 else shim_node_id (fold configure (options args) cfg))
    = (case last_opt args CHR ''N'' of None \<Rightarrow> if ud_shim_node_id (use_defaults cfg) then 50 else shim_node_id cfg | Some a \<Rightarrow> word_of_int (number a))"
  "uavcan_node_id (fold configure (options args) cfg) = (case last_opt args CHR ''n'' of None \<Rightarrow> uavcan_node_id cfg | Some a \<Rightarrow> word_of_int (number a))"
  "can_interface_enabled (fold configure (options args) cfg) = (case last_opt args CHR ''c'' of None \<Rightarrow> can_interface_enabled cfg | Some a \<Rightarrow> True)"
  "can_interface (fold configure (options args) cfg) = (case last_opt args CHR ''c'' of None \<Rightarrow> can_interface cfg | Some a \<Rightarrow> a)"
  by (rule field_of_last, simp add: configure_def)+

text \<open>A configuration as it is constructed.\<close>

definition fresh_config :: "AgentConfig \<Rightarrow> bool" where
  "fresh_config c \<longleftrightarrow> cfg_workdir c = [] \<and> minFreeMb c = -1 \<and> minFreePct c = -1
     \<and> use_defaults c = \<lparr>ud_minfree = True, ud_interval = True, ud_maxage = True, ud_port = True, ud_loglevel = True, ud_shim_node_id = True\<rparr>"

definition starting :: "startup \<Rightarrow> startup" where
  "starting s = s\<lparr>su_cfg := su_cfg s\<lparr>can_interface_enabled := False, uavcan_node_id := 0\<rparr>\<rparr>"

lemma parseOptions_start:
  "parseOptions args s = seqE (parse_loop args) (\<lambda>go. if go then finish_options else ret False) (starting s)"
  by (cases s) (simp add: parseOptions_def seqE_def set_cfg_def starting_def)

text \<open>
  An accepted command line configures the agent as it says: every setting is that of the last
  option of its letter, or the default; the working directory is an absolute path to a directory
  that the user of the agent owns and may use; and a CAN interface comes with a node identifier.
\<close>

lemma parseOptions_accepted:
  assumes fresh: "fresh_config (su_cfg s)" and run: "parseOptions args s = (Inr True, t)"
  shows "initialized (su_cfg t)
    \<and> (\<exists>d. last_opt args CHR ''w'' = Some d \<and> cfg_workdir (su_cfg t) = d \<and> d \<noteq> [] \<and> good_dir (su_world s) d)
    \<and> port (su_cfg t) = (case last_opt args CHR ''p'' of None \<Rightarrow> 2005 | Some a \<Rightarrow> wrap32 (number a))
    \<and> maxAge (su_cfg t) = (case last_opt args CHR ''t'' of None \<Rightarrow> 86400 | Some a \<Rightarrow> wrap32 (number a))
    \<and> cleanupInterval (su_cfg t) = (case last_opt args CHR ''i'' of None \<Rightarrow> 3600 | Some a \<Rightarrow> wrap32 (number a))
    \<and> shim_node_id (su_cfg t) = (case last_opt args CHR ''N'' of None \<Rightarrow> 50 | Some a \<Rightarrow> word_of_int (number a))
    \<and> uavcan_node_id (su_cfg t) = (case last_opt args CHR ''n'' of None \<Rightarrow> 0 | Some a \<Rightarrow> word_of_int (number a))
    \<and> (can_interface_enabled (su_cfg t) \<longleftrightarrow> last_opt args CHR ''c'' \<noteq> None)
    \<and> (can_interface_enabled (su_cfg t) \<longrightarrow> uavcan_node_id (su_cfg t) \<noteq> 0)
    \<and> (\<forall>i. last_opt args CHR ''c'' = Some i \<longrightarrow> can_interface (su_cfg t) = i)"
proof -
  let ?c = "su_cfg (starting s)"
  from parse_loop_result [of args "starting s"] run obtain u where u: "parse_loop args (starting s) = (Inr True, u)"
    and c: "su_cfg u = fold configure (options args) ?c"
    and ok: "\<And>a. (CHR ''w'', a) \<in> set (options args) \<Longrightarrow> good_dir (su_world s) a"
    by (auto simp: parseOptions_start seqE_def starting_def)
  have fin: "finish_options u = (Inr True, t)" using run u by (simp add: parseOptions_start seqE_def)
  then have t: "su_cfg t = apply_defaults (su_cfg u)" and wd: "cfg_workdir (su_cfg u) \<noteq> []"
    and can: "can_interface_enabled (su_cfg u) \<longrightarrow> uavcan_node_id (su_cfg u) \<noteq> 0"
    by (auto simp: finish_options_def seqE_def config_defs split: if_splits)
  have fr: "cfg_workdir ?c = []" "ud_port (use_defaults ?c)" "ud_maxage (use_defaults ?c)" "ud_interval (use_defaults ?c)"
    "ud_shim_node_id (use_defaults ?c)" "\<not> can_interface_enabled ?c" "uavcan_node_id ?c = 0"
    using fresh by (auto simp: fresh_config_def starting_def)
  note cf = configured_fields [of args ?c, folded c]
  obtain d where d: "last_opt args CHR ''w'' = Some d" "cfg_workdir (su_cfg u) = d"
    using cf(1) wd fr(1) by (auto split: option.splits)
  then have "good_dir (su_world s) d" using ok by (auto simp: last_opt_def dest!: map_of_SomeD)
  then show ?thesis using d wd can cf(2-) fr unfolding t by (simp add: apply_defaults_def Let_def option.case_eq_if)
qed

text \<open>
  (C32) The one exception that leaves \<open>parseOptions\<close> is \<open>out_of_range\<close>, and it comes from an option
  whose number does not fit in 64 bits: the handlers of the options catch \<open>invalid_argument\<close> only.
\<close>

theorem parseOptions_escape:
  assumes "parseOptions args s = (Inl e, t)"
  shows "e = out_of_range ''stoul'' \<and> (\<exists>c a. (c, a) \<in> set (options args)
    \<and> c \<in> {CHR ''t'', CHR ''i'', CHR ''m'', CHR ''p'', CHR ''n'', CHR ''N''} \<and> stoul a = Inl e)"
proof -
  have "finish_options u \<noteq> (Inl f, v)" for u f v by (auto simp: finish_options_def seqE_def config_defs split: if_splits)
  with parse_loop_result [of args "starting s"] assms obtain x where e: "e = out_of_range x"
    and o: "\<exists>ca \<in> set (options args). overflows ca x"
    by (auto simp: parseOptions_start seqE_def) blast
  from o obtain c a where ca: "(c, a) \<in> set (options args)" "numeric c" "stoul a = Inl (out_of_range x)"
    by (auto simp: overflows_def)
  then have "x = ''stoul''" by (auto simp: stoul_def Let_def split: if_splits)
  with e ca show ?thesis by (auto simp: numeric_def)
qed

section \<open>Numbers\<close>

lemma isdigit_plain: "isdigit c \<Longrightarrow> \<not> isspace c \<and> c \<noteq> CHR ''-'' \<and> c \<noteq> CHR ''+''"
  by (auto simp: isdigit_def isspace_def)

text \<open>A number that is printed and read back is the same, with what follows it left over.\<close>

lemma stoul_to_string:
  assumes "0 \<le> n" and "n < 2 ^ 64" and "rest = [] \<or> \<not> isdigit (hd rest)"
  shows "stoul (to_string n @ rest) = Inr (n, length (to_string n))"
proof -
  let ?d = "to_string n"
  have d: "list_all isdigit ?d" "?d \<noteq> []" "dec_value ?d = n"
    using assms(1) dec_digits_digits by (auto simp: to_string_def dec_value_digits)
  obtain c cs where c: "?d = c # cs" using d(2) by (cases ?d) auto
  have plain: "\<not> isspace c" "c \<noteq> CHR ''-''" "c \<noteq> CHR ''+''" using isdigit_plain [of c] d(1) by (simp_all add: c)
  have tw: "takeWhile isdigit (?d @ rest) = ?d" "dropWhile isdigit (?d @ rest) = rest"
    using d(1) assms(3) by (cases rest; simp add: list_all_iff takeWhile_append dropWhile_append)+
  have r: "dropWhile isspace (?d @ rest) = ?d @ rest" using plain by (simp add: c)
  show ?thesis using plain tw d assms(1,2) unfolding stoul_def r Let_def by (simp add: c)
qed

text \<open>
  The minimum of free space is read as it is written: a number of megabytes below $2^{31}$ with
  the unit \<^verbatim>\<open>M\<close> sets that limit, with \<^verbatim>\<open>%\<close> the other one, and a number without a unit is refused.
\<close>

lemma minfree_opt_reads:
  assumes "0 \<le> n" and "n < 2 ^ 31"
  shows "minfree_opt (to_string n @ ''M'') s = (Inr True, s\<lparr>su_cfg := su_cfg s\<lparr>minFreeMb := n,
      use_defaults := (use_defaults (su_cfg s))\<lparr>ud_minfree := False\<rparr>\<rparr>\<rparr>)
    \<and> minfree_opt (to_string n @ ''%'') s = (Inr True, s\<lparr>su_cfg := su_cfg s\<lparr>minFreePct := n,
      use_defaults := (use_defaults (su_cfg s))\<lparr>ud_minfree := False\<rparr>\<rparr>\<rparr>)
    \<and> fst (minfree_opt (to_string n) s) = Inr False"
proof -
  have w: "wrap32 n = n" using assms wrap32_small [of n] by simp
  have u: "\<not> isdigit CHR ''M''" "\<not> isdigit CHR ''%''" by code_simp+
  have r: "stoul (to_string n @ ''M'') = Inr (n, length (to_string n))" "stoul (to_string n @ ''%'') = Inr (n, length (to_string n))"
    "stoul (to_string n) = Inr (n, length (to_string n))"
    using stoul_to_string [of n "''M''"] stoul_to_string [of n "''%''"] stoul_to_string [of n "[]"] u assms by simp_all
  show ?thesis
    by (cases s; cases "su_cfg s") (simp add: minfree_opt_def r w Let_def config_defs seqE_def)
qed

section \<open>Witnesses\<close>

definition demo_startup :: startup where
  "demo_startup = \<lparr>su_cfg = \<lparr>initialized = False, wantUsage = False, cfg_workdir = [], minFreeMb = -1, minFreePct = -1,
       cleanupInterval = 0, maxAge = 0, port = 0, can_interface = [], can_interface_enabled = False, uavcan_node_id = 0,
       shim_node_id = 0, use_defaults = \<lparr>ud_minfree = True, ud_interval = True, ud_maxage = True, ud_port = True,
         ud_loglevel = True, ud_shim_node_id = True\<rparr>\<rparr>,
     su_world = demo_world [(''/'', demo_dir), (''/b'', demo_dir)] (\<lambda>_. None), su_log = logger_init, su_cerr = []\<rparr>"

definition demo_args :: "string list" where
  "demo_args = [''-w'', ''/b'', ''-p80'', ''-m'', ''10M'', ''-p'', ''8080'', ''-c'', ''can0'', ''-n'', ''3'']"

theorem parseOptions_escape_witness:
  "fst (parseOptions [''-w'', ''/b'', ''-p'', ''18446744073709551616''] demo_startup) = Inl (out_of_range ''stoul'')
   \<and> (\<exists>c a. (c, a) \<in> set (options [''-w'', ''/b'', ''-p'', ''18446744073709551616'']) \<and> stoul a = Inl (out_of_range ''stoul''))"
proof -
  let ?args = "[''-w'', ''/b'', ''-p'', ''18446744073709551616'']"
  have run: "fst (parseOptions ?args demo_startup) = Inl (out_of_range ''stoul'')" by code_simp
  then have "parseOptions ?args demo_startup = (Inl (out_of_range ''stoul''), snd (parseOptions ?args demo_startup))"
    by (simp add: prod_eq_iff)
  from parseOptions_escape [OF this] show ?thesis unfolding run by blast
qed

end
