(* ===== verification/Oort_Server.thy ===== *)
theory Oort_Server
  imports Oort_Prelude
begin

text \<open>
  \<^verbatim>\<open>impl/AgentUAVCANServer.cpp\<close>: the thread that serves the CAN bus, with \<open>start\<close> and \<open>stop\<close>. The nodes of the
  CAN library are numbered as they are made, and a service or a subscriber is the number of the node it was made on, which it
  refers to for as long as it lives; whether they can be made, and when the interface goes down, is
  up to the steps. The program counters name the statement that comes next.
\<close>

datatype server_pc =
    S_none          \<comment> \<open>not started\<close>
  | S_init          \<comment> \<open>\<open>initNode()\<close>\<close>
  | S_add           \<comment> \<open>\<open>addServices()\<close>\<close>
  | S_test          \<comment> \<open>\<open>while (thread_running)\<close>, outer\<close>
  | S_spin          \<comment> \<open>\<open>node->spin(...)\<close>\<close>
  | S_down          \<comment> \<open>\<open>resetServices()\<close> in the handler\<close>
  | S_retry         \<comment> \<open>\<open>while (thread_running)\<close>, inner\<close>
  | S_sleep         \<comment> \<open>\<open>sleep_for\<close>\<close>
  | S_reinit        \<comment> \<open>\<open>initNode()\<close>, inner\<close>
  | S_readd         \<comment> \<open>\<open>addServices()\<close>, inner\<close>
  | S_reset         \<comment> \<open>\<open>resetServices()\<close> at the end\<close>
  | S_done
  | S_terminated    \<comment> \<open>an exception has left the thread\<close>

datatype control_pc = C_new | C_started | C_join | C_stopped

record can_server =
  thread_running :: bool
  node :: "nat option"
  health_srv :: "nat option"
  adcs_sub :: "nat option"
  tfrs_sub :: "nat option"
  nodes_made :: nat
  server_thread :: server_pc
  control :: control_pc

definition can_server_init :: can_server where
  "can_server_init = \<lparr>thread_running = False, node = None, health_srv = None, adcs_sub = None, tfrs_sub = None, nodes_made = 0,
     server_thread = S_none, control = C_new\<rparr>"

text \<open>\<open>resetServices\<close> drops the services and the node.\<close>

definition resetServices :: "can_server \<Rightarrow> can_server" where
  "resetServices s = s\<lparr>health_srv := None, adcs_sub := None, tfrs_sub := None, node := None\<rparr>"

text \<open>A new node takes the place of the one there was, and the services stay what they were.\<close>

definition initNode :: "can_server \<Rightarrow> can_server" where
  "initNode s = s\<lparr>node := Some (nodes_made s), nodes_made := Suc (nodes_made s)\<rparr>"

text \<open>
  The three are made one after the other on the node; \<open>k\<close> is how many of the calls return before one
  throws (3: none does).
\<close>

definition addServices :: "nat \<Rightarrow> can_server \<Rightarrow> can_server" where
  "addServices k s = s\<lparr>health_srv := (if 0 < k then node s else health_srv s),
     adcs_sub := (if 1 < k then node s else adcs_sub s), tfrs_sub := (if 2 < k then node s else tfrs_sub s)\<rparr>"

inductive server_step :: "can_server \<Rightarrow> can_server \<Rightarrow> bool" where
  init: "server_thread s = S_init \<Longrightarrow> server_step s ((initNode s)\<lparr>server_thread := S_add\<rparr>)"
| init_fails: "server_thread s = S_init \<Longrightarrow> server_step s (s\<lparr>server_thread := S_terminated\<rparr>)"
| add: "server_thread s = S_add \<Longrightarrow> server_step s ((addServices 3 s)\<lparr>server_thread := S_test\<rparr>)"
| add_fails: "server_thread s = S_add \<Longrightarrow> k < 3 \<Longrightarrow> server_step s ((addServices k s)\<lparr>server_thread := S_terminated\<rparr>)"
| loop: "server_thread s = S_test \<Longrightarrow> thread_running s \<Longrightarrow> server_step s (s\<lparr>server_thread := S_spin\<rparr>)"
| loop_ends: "server_thread s = S_test \<Longrightarrow> \<not> thread_running s \<Longrightarrow> server_step s (s\<lparr>server_thread := S_reset\<rparr>)"
| spun: "server_thread s = S_spin \<Longrightarrow> server_step s (s\<lparr>server_thread := S_test\<rparr>)"
| iface_down: "server_thread s = S_spin \<Longrightarrow> server_step s (s\<lparr>server_thread := S_down\<rparr>)"
| down: "server_thread s = S_down \<Longrightarrow> server_step s ((resetServices s)\<lparr>server_thread := S_retry\<rparr>)"
| retry: "server_thread s = S_retry \<Longrightarrow> thread_running s \<Longrightarrow> server_step s (s\<lparr>server_thread := S_sleep\<rparr>)"
| retry_ends: "server_thread s = S_retry \<Longrightarrow> \<not> thread_running s \<Longrightarrow> server_step s (s\<lparr>server_thread := S_test\<rparr>)"
| slept: "server_thread s = S_sleep \<Longrightarrow> server_step s (s\<lparr>server_thread := S_reinit\<rparr>)"
| reinit: "server_thread s = S_reinit \<Longrightarrow> server_step s ((initNode s)\<lparr>server_thread := S_readd\<rparr>)"
| reinit_fails: "server_thread s = S_reinit \<Longrightarrow> server_step s (s\<lparr>server_thread := S_retry\<rparr>)"
| readd: "server_thread s = S_readd \<Longrightarrow> server_step s ((addServices 3 s)\<lparr>server_thread := S_test\<rparr>)"
| readd_fails: "server_thread s = S_readd \<Longrightarrow> k < 3 \<Longrightarrow> server_step s ((addServices k s)\<lparr>server_thread := S_retry\<rparr>)"
| reset: "server_thread s = S_reset \<Longrightarrow> server_step s ((resetServices s)\<lparr>server_thread := S_done\<rparr>)"

inductive control_step :: "can_server \<Rightarrow> can_server \<Rightarrow> bool" where
  start: "control s = C_new \<Longrightarrow>
    control_step s (s\<lparr>thread_running := True, server_thread := S_init, control := C_started\<rparr>)"
| stop: "control s = C_started \<Longrightarrow> control_step s (s\<lparr>thread_running := False, control := C_join\<rparr>)"
| joined: "control s = C_join \<Longrightarrow> server_thread s = S_done \<Longrightarrow> control_step s (s\<lparr>control := C_stopped\<rparr>)"

definition can_step :: "can_server \<Rightarrow> can_server \<Rightarrow> bool" where
  "can_step s t \<longleftrightarrow> server_step s t \<or> control_step s t"

inductive_cases server_stepE: "server_step s t"
inductive_cases control_stepE: "control_step s t"

section \<open>The node is there when it is used\<close>

text \<open>What holds of the node and the services at each statement.\<close>

definition attached :: "can_server \<Rightarrow> bool" where
  "attached s \<longleftrightarrow> node s \<noteq> None \<and> health_srv s = node s \<and> adcs_sub s = node s \<and> tfrs_sub s = node s"

definition cleared :: "can_server \<Rightarrow> bool" where
  "cleared s \<longleftrightarrow> node s = None \<and> health_srv s = None \<and> adcs_sub s = None \<and> tfrs_sub s = None"

definition server_ready :: "can_server \<Rightarrow> bool" where
  "server_ready s \<longleftrightarrow> (node s = None \<longrightarrow> cleared s) \<and> (case server_thread s of
      S_none \<Rightarrow> cleared s \<and> control s = C_new
    | S_init \<Rightarrow> cleared s
    | S_add \<Rightarrow> node s \<noteq> None
    | S_test \<Rightarrow> thread_running s \<longrightarrow> attached s
    | S_spin \<Rightarrow> attached s
    | S_down \<Rightarrow> True
    | S_retry \<Rightarrow> True
    | S_sleep \<Rightarrow> True
    | S_reinit \<Rightarrow> True
    | S_readd \<Rightarrow> node s \<noteq> None
    | S_reset \<Rightarrow> \<not> thread_running s
    | S_done \<Rightarrow> cleared s \<and> \<not> thread_running s
    | S_terminated \<Rightarrow> True)"

lemmas server_states = server_ready_def attached_def cleared_def initNode_def addServices_def resetServices_def

definition control_ready :: "can_server \<Rightarrow> bool" where
  "control_ready s \<longleftrightarrow> thread_running s = (control s = C_started) \<and> (control s = C_new \<longrightarrow> server_thread s = S_none)
     \<and> (control s = C_stopped \<longrightarrow> server_thread s = S_done)"

lemma server_step_ready: "server_step s t \<Longrightarrow> server_ready s \<Longrightarrow> server_ready t"
  by (erule server_step.cases) (auto simp: server_states)

lemma server_step_control: "server_step s t \<Longrightarrow> control_ready s \<Longrightarrow> control_ready t"
  by (erule server_step.cases) (auto simp: control_ready_def initNode_def addServices_def resetServices_def)

lemma control_step_ready: "control_step s t \<Longrightarrow> server_ready s \<Longrightarrow> control_ready s \<Longrightarrow> server_ready t \<and> control_ready t"
  by (erule control_step.cases) (auto simp: server_ready_def cleared_def attached_def control_ready_def split: server_pc.splits)

lemma can_reachable: "can_step\<^sup>*\<^sup>* can_server_init s \<Longrightarrow> server_ready s \<and> control_ready s"
proof (induction rule: rtranclp_induct)
  case base
  show ?case by (simp add: can_server_init_def server_ready_def cleared_def control_ready_def)
next
  case (step s t)
  then show ?case
    unfolding can_step_def using server_step_ready server_step_control control_step_ready by blast
qed

text \<open>
  (C20) The thread never uses a node that is not there: whenever it is about to serve the bus the node
  is set up and the health service and the two subscribers are on this node, none on one that has been replaced, through every loss of the
  interface and every failed attempt to reconnect, wherever it failed; there are services only while there is a node, and when \<open>stop\<close> has
  returned all are gone.
\<close>

theorem server_node_ready:
  assumes "can_step\<^sup>*\<^sup>* can_server_init s"
  shows "(server_thread s = S_spin \<longrightarrow> node s \<noteq> None \<and> health_srv s = node s \<and> adcs_sub s = node s \<and> tfrs_sub s = node s)
    \<and> (health_srv s \<noteq> None \<or> adcs_sub s \<noteq> None \<or> tfrs_sub s \<noteq> None \<longrightarrow> node s \<noteq> None)
    \<and> (control s = C_stopped \<longrightarrow> node s = None \<and> health_srv s = None \<and> adcs_sub s = None \<and> tfrs_sub s = None)"
  using can_reachable [OF assms] by (auto simp: server_ready_def attached_def cleared_def control_ready_def)

section \<open>Stopping\<close>

text \<open>The number of statements that are left once the flag has been cleared.\<close>

fun server_left :: "server_pc \<Rightarrow> nat" where
  "server_left S_none = 0"
| "server_left S_init = 8"
| "server_left S_add = 7"
| "server_left S_test = 2"
| "server_left S_spin = 5"
| "server_left S_down = 4"
| "server_left S_retry = 3"
| "server_left S_sleep = 6"
| "server_left S_reinit = 5"
| "server_left S_readd = 4"
| "server_left S_reset = 1"
| "server_left S_done = 0"
| "server_left S_terminated = 0"

definition stop_left :: "can_server \<Rightarrow> nat" where
  "stop_left s = server_left (server_thread s) + (if control s = C_join then 1 else 0)"

lemma stop_decreases:
  assumes "control s = C_join" and "\<not> thread_running s" and "can_step s t"
  shows "stop_left t < stop_left s"
  using assms unfolding can_step_def
  by (auto elim!: server_stepE control_stepE simp: stop_left_def initNode_def addServices_def resetServices_def)

lemma stop_progress:
  assumes "control s = C_join" and "\<not> thread_running s" and "server_thread s \<notin> {S_none, S_terminated}"
  shows "\<exists>t. can_step s t"
  using assms unfolding can_step_def
  by (cases "server_thread s") (auto simp: server_step.simps control_step.simps)

text \<open>
  (C33) \<open>stop\<close> returns: once it has cleared the flag, every step brings the end of the thread nearer and
  at most nine are left, wherever the thread was, and a state in which no step is possible is one in
  which \<open>stop\<close> has returned or an exception has ended the thread.
\<close>

theorem server_stop_returns:
  assumes "can_step\<^sup>*\<^sup>* can_server_init s" and "control s = C_join"
  shows "(\<forall>t. can_step s t \<longrightarrow> stop_left t < stop_left s) \<and> stop_left s \<le> 9
    \<and> ((\<nexists>t. can_step s t) \<longrightarrow> server_thread s = S_terminated)
    \<and> (\<forall>t. can_step s t \<longrightarrow> control t \<in> {C_join, C_stopped})"
proof -
  have inv: "server_ready s" "control_ready s" using can_reachable [OF assms(1)] by blast+
  then have r: "\<not> thread_running s" "server_thread s \<noteq> S_none"
    using assms(2) by (auto simp: control_ready_def server_ready_def)
  have "server_left pc \<le> 8" for pc by (cases pc) auto
  from this [of "server_thread s"] have "stop_left s \<le> 9" by (auto simp: stop_left_def)
  moreover have "control t \<in> {C_join, C_stopped}" if "can_step s t" for t
    using that assms(2) unfolding can_step_def
    by (auto elim!: server_stepE control_stepE simp: initNode_def addServices_def resetServices_def)
  ultimately show ?thesis using stop_decreases [OF assms(2) r(1)] stop_progress [OF assms(2) r(1)] r(2) by blast
qed

section \<open>Witnesses\<close>

definition demo_spinning :: can_server where
  "demo_spinning = \<lparr>thread_running = True, node = Some 0, health_srv = Some 0, adcs_sub = Some 0, tfrs_sub = Some 0, nodes_made = 1,
     server_thread = S_spin, control = C_started\<rparr>"

lemma demo_spinning_reachable: "can_step\<^sup>*\<^sup>* can_server_init demo_spinning"
proof -
  let ?a = "can_server_init\<lparr>thread_running := True, server_thread := S_init, control := C_started\<rparr>"
  let ?b = "(initNode ?a)\<lparr>server_thread := S_add\<rparr>"
  let ?c = "(addServices 3 ?b)\<lparr>server_thread := S_test\<rparr>"
  have "can_step can_server_init ?a" unfolding can_step_def using control_step.start [of can_server_init] by (simp add: can_server_init_def)
  moreover have "can_step ?a ?b" unfolding can_step_def using server_step.init [of ?a] by simp
  moreover have "can_step ?b ?c" unfolding can_step_def using server_step.add [of ?b] by simp
  moreover have "can_step ?c demo_spinning" unfolding can_step_def using server_step.loop [of ?c]
    by (simp add: demo_spinning_def can_server_init_def initNode_def addServices_def)
  ultimately show ?thesis by (meson rtranclp.rtrancl_refl converse_rtranclp_into_rtranclp)
qed

theorem server_node_ready_witness: "server_thread demo_spinning = S_spin \<and> health_srv demo_spinning = Some 0"
  using server_node_ready [OF demo_spinning_reachable] by (simp add: demo_spinning_def)

text \<open>
  An attempt to reconnect that fails after the health service has been made is followed by one that
  replaces the node under it: the service, which the code drops only then, refers to a node that is gone.
\<close>

definition demo_dangling :: can_server where
  "demo_dangling = \<lparr>thread_running = True, node = Some 2, health_srv = Some 1, adcs_sub = None, tfrs_sub = None, nodes_made = 3,
     server_thread = S_readd, control = C_started\<rparr>"

lemma service_outlives_node: "can_step\<^sup>*\<^sup>* can_server_init demo_dangling \<and> health_srv demo_dangling \<noteq> None \<and> health_srv demo_dangling \<noteq> node demo_dangling"
proof -
  have one: "can_step s t" if "server_step s t" for s t using that by (simp add: can_step_def)
  let ?d = "demo_spinning\<lparr>server_thread := S_down\<rparr>"
  let ?r = "(resetServices ?d)\<lparr>server_thread := S_retry\<rparr>"
  let ?n = "(initNode (?r\<lparr>server_thread := S_reinit\<rparr>))\<lparr>server_thread := S_readd\<rparr>"
  let ?f = "(addServices 1 ?n)\<lparr>server_thread := S_retry\<rparr>"
  have sleep: "can_step\<^sup>*\<^sup>* s ((initNode (s\<lparr>server_thread := S_reinit\<rparr>))\<lparr>server_thread := S_readd\<rparr>)"
    if "server_thread s = S_retry" "thread_running s" for s
  proof -
    have "can_step s (s\<lparr>server_thread := S_sleep\<rparr>)" using that by (intro one server_step.retry)
    moreover have "can_step (s\<lparr>server_thread := S_sleep\<rparr>) (s\<lparr>server_thread := S_reinit\<rparr>)"
      using one [OF server_step.slept [of "s\<lparr>server_thread := S_sleep\<rparr>"]] by simp
    moreover have "can_step (s\<lparr>server_thread := S_reinit\<rparr>) ((initNode (s\<lparr>server_thread := S_reinit\<rparr>))\<lparr>server_thread := S_readd\<rparr>)"
      by (intro one server_step.reinit) simp
    ultimately show ?thesis by (meson rtranclp.rtrancl_refl converse_rtranclp_into_rtranclp)
  qed
  have "can_step demo_spinning ?d" by (intro one server_step.iface_down) (simp add: demo_spinning_def)
  moreover have "can_step ?d ?r" by (intro one server_step.down) simp
  moreover have "can_step\<^sup>*\<^sup>* ?r ?n" using sleep [of ?r] by (simp add: demo_spinning_def resetServices_def)
  moreover have "can_step ?n ?f" by (intro one server_step.readd_fails) simp_all
  moreover have "can_step\<^sup>*\<^sup>* ?f demo_dangling"
    using sleep [of ?f] by (simp add: demo_spinning_def demo_dangling_def resetServices_def initNode_def addServices_def eval_nat_numeral)
  ultimately have "can_step\<^sup>*\<^sup>* demo_spinning demo_dangling"
    by (meson converse_rtranclp_into_rtranclp rtranclp_trans)
  then have "can_step\<^sup>*\<^sup>* can_server_init demo_dangling" using demo_spinning_reachable by (rule rtranclp_trans [rotated])
  then show ?thesis by (simp add: demo_dangling_def)
qed

theorem server_stop_returns_witness:
  "\<exists>s. can_step\<^sup>*\<^sup>* can_server_init s \<and> control s = C_join \<and> stop_left s \<le> 9"
proof -
  let ?s = "demo_spinning\<lparr>thread_running := False, control := C_join\<rparr>"
  have "can_step demo_spinning ?s" unfolding can_step_def using control_step.stop [of demo_spinning] by (simp add: demo_spinning_def)
  with demo_spinning_reachable have r: "can_step\<^sup>*\<^sup>* can_server_init ?s" by (rule rtranclp.rtrancl_into_rtrancl)
  from server_stop_returns [OF r] r show ?thesis by (intro exI [of _ ?s]) simp
qed

end
