(* ===== verification/Oort_Main.thy ===== *)
theory Oort_Main
  imports Oort_Router Oort_Config Oort_Server
begin

text \<open>
  \<^verbatim>\<open>main-api-server.cpp\<close>: start-up from the command line to the listener, the life of the process with its
  signals, and the program as a whole: every state the running agent can reach. What the CAN library
  makes of a configuration is a parameter (\<open>can_lib\<close>).
\<close>

section \<open>Start-up\<close>

text \<open>
  \<open>c_make_node\<close> is \<open>uavcan_linux::makeNode\<close> on an interface with a node identifier, and the client for
  the command on that node: the exception \<open>uavcan_linux::Exception\<close> by its text, or the call. \<open>c_new_mgr\<close> is the manager of a server that has just been constructed.
\<close>

record 'f can_lib =
  c_make_node :: "string \<Rightarrow> 8 word \<Rightarrow> string + 'f can_call"
  c_new_mgr :: AdcsManager

record 'f process =
  p_app :: "'f app"
  p_cleaner :: cleaner
  p_can_server :: "can_server option"
  p_port :: int

text \<open>The process has left with a status, an exception has left \<open>main\<close>, or the listener is about to start.\<close>

datatype 'f main_outcome = Exited int | Terminated exn | Running "'f process"

definition setUavClient :: "('f can_call \<times> 32 word) option \<Rightarrow> 'f app \<Rightarrow> 'f app" where
  "setUavClient client a = a\<lparr>ag_uavclient := client\<rparr>"

definition setAdcsMgr :: "AdcsManager option \<Rightarrow> 'f app \<Rightarrow> 'f app" where
  "setAdcsMgr mgr a = a\<lparr>ag_adcs := mgr\<rparr>"

text \<open>The members of the agent that lead to the bus, after construction.\<close>

definition unconnected :: "agent \<Rightarrow> 'f app" where
  "unconnected a = agent.extend a \<lparr>ag_adcs = None, ag_uavclient = None, ag_sent = [], ag_latch = 1\<rparr>"

definition AgentUAVCANClient :: "'f can_lib \<Rightarrow> AgentConfig \<Rightarrow> string + 'f can_call" where
  "AgentUAVCANClient C cfg = c_make_node C (getCANInterface cfg) (NodeID (getUAVCANNodeID cfg))"

definition can_start :: "can_server \<Rightarrow> can_server" where
  "can_start s = s\<lparr>thread_running := True, server_thread := S_init, control := C_started\<rparr>"

definition start_can :: "'f can_lib \<Rightarrow> AgentConfig \<Rightarrow> 'f app \<Rightarrow> string + 'f app \<times> can_server" where
  "start_can C cfg a = (case AgentUAVCANClient C cfg of
      Inl ex \<Rightarrow> Inl ex
    | Inr call \<Rightarrow> Inr (setAdcsMgr (Some (c_new_mgr C)) (setUavClient (Some (call, getShimNodeID cfg)) a), can_start can_server_init))"

definition main_start :: "('x) ext_scheme \<Rightarrow> 'f can_lib \<Rightarrow> string \<Rightarrow> string list \<Rightarrow> startup \<Rightarrow> 'f main_outcome \<times> startup" where
  "main_start X C cmd args s = (case parseOptions args s of
      (Inl e, t) \<Rightarrow> (Terminated e, t)
    | (Inr False, t) \<Rightarrow> (Exited 1, snd (usage cmd t))
    | (Inr True, t) \<Rightarrow> (case new_agent X (su_cfg t) (su_world t) of
        (Inl e, w) \<Rightarrow> (Terminated e, t\<lparr>su_world := w\<rparr>)
      | (Inr (a, c), w) \<Rightarrow>
          (if isCANInterfaceEnabled (su_cfg t) then
             (case start_can C (su_cfg t) (unconnected a) of
                Inl _ \<Rightarrow> Exited 1
              | Inr (b, sv) \<Rightarrow> Running \<lparr>p_app = b, p_cleaner = c, p_can_server = Some sv, p_port = getPort (su_cfg t)\<rparr>)
           else Running \<lparr>p_app = unconnected a, p_cleaner = c, p_can_server = None, p_port = getPort (su_cfg t)\<rparr>,
           t\<lparr>su_world := w\<rparr>)))"

section \<open>Signals\<close>

datatype signal = SIGQUIT | SIGINT | SIGTERM | SIGHUP | SIGCHLD | Other_signal nat

text \<open>The mask of the process and, for a signal with a handler, the mask while the handler runs.\<close>

record signals =
  sg_blocked :: "signal list"
  sg_action :: "signal \<Rightarrow> signal list option"

definition setUpUnixSignals :: "signal list \<Rightarrow> signal list \<Rightarrow> signals \<Rightarrow> signals" where
  "setUpUnixSignals quitSignals blockSignals st = \<lparr>sg_blocked = sg_blocked st @ blockSignals,
     sg_action = fold (\<lambda>sig act. act(sig \<mapsto> quitSignals)) quitSignals (sg_action st)\<rparr>"

definition main_signals :: "signals \<Rightarrow> signals" where
  "main_signals = setUpUnixSignals [SIGQUIT, SIGINT, SIGTERM, SIGHUP] [SIGCHLD]"

definition handled :: "signals \<Rightarrow> signal \<Rightarrow> bool" where
  "handled st sig \<longleftrightarrow> sig \<notin> set (sg_blocked st) \<and> sg_action st sig \<noteq> None"

text \<open>
  The statements of \<open>main\<close> between which a signal makes a difference, and the global \<open>server\<close>, which is
  not reset when the object is deleted.
\<close>

datatype main_pc = M_start | M_created | M_listen | M_can_stop | M_delete | M_destroy | M_end

datatype server_ptr = Null | Live | Deleted

record lifecycle =
  lc_pc :: main_pc
  lc_server :: server_ptr
  lc_stopped :: bool
  lc_dangling :: bool

definition lifecycle_init :: lifecycle where
  "lifecycle_init = \<lparr>lc_pc = M_start, lc_server = Null, lc_stopped = False, lc_dangling = False\<rparr>"

text \<open>\<open>early\<close>: whether the HTTP library heeds a \<open>listenStop\<close> that comes before \<open>listen\<close>.\<close>

definition sigHandler :: "bool \<Rightarrow> lifecycle \<Rightarrow> lifecycle" where
  "sigHandler early s = (case lc_server s of
      Null \<Rightarrow> s
    | Live \<Rightarrow> if lc_pc s = M_created \<and> \<not> early then s else s\<lparr>lc_stopped := True\<rparr>
    | Deleted \<Rightarrow> s\<lparr>lc_dangling := True\<rparr>)"

inductive main_step :: "lifecycle \<Rightarrow> lifecycle \<Rightarrow> bool" where
  create: "lc_pc s = M_start \<Longrightarrow> main_step s (s\<lparr>lc_pc := M_created, lc_server := Live\<rparr>)"
| listen: "lc_pc s = M_created \<Longrightarrow> main_step s (s\<lparr>lc_pc := M_listen\<rparr>)"
| stopped: "lc_pc s = M_listen \<Longrightarrow> lc_stopped s \<Longrightarrow> main_step s (s\<lparr>lc_pc := M_can_stop\<rparr>)"
| can_stopped: "lc_pc s = M_can_stop \<Longrightarrow> main_step s (s\<lparr>lc_pc := M_delete\<rparr>)"
| deleted: "lc_pc s = M_delete \<Longrightarrow> main_step s (s\<lparr>lc_pc := M_destroy, lc_server := Deleted\<rparr>)"
| destroyed: "lc_pc s = M_destroy \<Longrightarrow> main_step s (s\<lparr>lc_pc := M_end\<rparr>)"

text \<open>\<open>main\<close> goes on, or a signal arrives that it handles; \<open>st\<close> is what the process inherited.\<close>

inductive life :: "signals \<Rightarrow> bool \<Rightarrow> lifecycle \<Rightarrow> bool" for st early where
  begins: "life st early lifecycle_init"
| goes_on: "life st early s \<Longrightarrow> main_step s t \<Longrightarrow> life st early t"
| signal: "life st early s \<Longrightarrow> handled (main_signals st) sig \<Longrightarrow> lc_pc s \<noteq> M_end \<Longrightarrow> life st early (sigHandler early s)"

inductive_cases main_stepE: "main_step s t"

section \<open>The running program\<close>

text \<open>
  The states of the agent while the listener runs: after start-up, after any request, after a
  cleaning run, after a report from the bus, and after anything other processes and the bus do.
\<close>

inductive running :: "('f, 'n) http_ext \<Rightarrow> 'f can_lib \<Rightarrow> 'f app \<Rightarrow> bool" for X C where
  started: "main_start X C cmd args s = (Running p, t) \<Longrightarrow> running X C (p_app p)"
| requested: "running X C a \<Longrightarrow> running X C (snd (serve X req a))"
| cleaned: "running X C a \<Longrightarrow> running X C (snd (onworld (doCleanup c) a))"
| adcs_report: "running X C a \<Longrightarrow> ag_adcs a = Some m \<Longrightarrow> running X C (a\<lparr>ag_adcs := Some (setAdcs now f m)\<rparr>)"
| tfrs_report: "running X C a \<Longrightarrow> ag_adcs a = Some m \<Longrightarrow> running X C (a\<lparr>ag_adcs := Some (setTfrs now g m)\<rparr>)"
| elapsed: "running X C a \<Longrightarrow> running X C (a\<lparr>ag_world := w\<rparr>)"
| bus: "running X C a \<Longrightarrow> ag_uavclient a = Some (call, shim) \<Longrightarrow> running X C (a\<lparr>ag_uavclient := Some (call', shim)\<rparr>)"

lemma unconnected_simps [simp]:
  "ag_adcs (unconnected a) = None" "ag_uavclient (unconnected a) = None" "ag_latch (unconnected a) = 1"
  "ag_world (unconnected a) = ag_world a" "workdir (unconnected a) = workdir a" "max_query (unconnected a) = max_query a"
  "min_free_disk (unconnected a) = min_free_disk a" "min_free_pct (unconnected a) = min_free_pct a"
  by (simp_all add: unconnected_def agent.defs)

lemma unconnected_inv: "agent_inv (unconnected a) = agent_inv a"
  by (simp add: unconnected_def agent.defs agent_inv_def agent_dirs_def)

lemma new_agent_settings:
  "new_agent X cfg w = (Inr (a, c), v) \<Longrightarrow> workdir a = cfg_workdir cfg \<and> min_free_disk a = -1 \<and> min_free_pct a = -1
     \<and> m_maxAge c = maxAge cfg \<and> m_cleanupInterval c = cleanupInterval cfg
     \<and> m_cleanupDirs c = [transfer_dir a, upload_dir a, upgrade_dir a, deadletter_dir a]"
  by (auto simp: new_agent_def Let_def setMaxAge_def setCleanupInterval_def setCleanupDirs_def split: if_splits sum.splits prod.splits)

text \<open>What a start that gets as far as the listener has gone through.\<close>

definition connected :: "'f can_lib \<Rightarrow> AgentConfig \<Rightarrow> agent \<Rightarrow> 'f process \<Rightarrow> bool" where
  "connected C cfg a p \<longleftrightarrow> (if can_interface_enabled cfg
     then (\<exists>call. c_make_node C (can_interface cfg) (NodeID (uavcan_node_id cfg)) = Inr call \<and> p_app p = (unconnected a)\<lparr>ag_uavclient := Some (call, shim_node_id cfg), ag_adcs := Some (c_new_mgr C)\<rparr>)
       \<and> p_can_server p = Some (can_start can_server_init)
     else p_app p = unconnected a \<and> p_can_server p = None)"

lemma main_start_running:
  assumes "main_start X C cmd args s = (Running p, t)"
  shows "\<exists>u a c w. parseOptions args s = (Inr True, u) \<and> new_agent X (su_cfg u) (su_world u) = (Inr (a, c), w)
    \<and> p_cleaner p = c \<and> p_port p = port (su_cfg u) \<and> connected C (su_cfg u) a p"
proof -
  obtain r u where po: "parseOptions args s = (r, u)" by (cases "parseOptions args s")
  with assms have r: "r = Inr True" by (auto simp: main_start_def split: sum.splits bool.splits)
  obtain q w where na: "new_agent X (su_cfg u) (su_world u) = (q, w)" by (cases "new_agent X (su_cfg u) (su_world u)")
  with assms po r obtain a c where q: "q = Inr (a, c)" by (cases q) (auto simp: main_start_def)
  have "p_cleaner p = c \<and> p_port p = port (su_cfg u) \<and> connected C (su_cfg u) a p"
    using assms po r na q
    by (auto simp: main_start_def connected_def start_can_def AgentUAVCANClient_def getters setUavClient_def setAdcsMgr_def split: sum.splits if_splits)
  then show ?thesis using po r na q by blast
qed

lemma started_inv:
  assumes "main_start X C cmd args s = (Running p, t)"
  shows "app_inv (p_app p) \<and> (ag_adcs (p_app p) = None \<longleftrightarrow> ag_uavclient (p_app p) = None)"
proof -
  obtain u :: startup and a c w where n: "new_agent X (su_cfg u) (su_world u) = (Inr (a, c), w)" and p: "connected C (su_cfg u) a p"
    using main_start_running [OF assms] by blast
  have "agent_inv (unconnected a)" using new_agent_inv [OF n] by (simp add: unconnected_inv)
  then show ?thesis
    using p new_agent_inv [OF n] new_agent_settings [OF n]
    by (auto simp: connected_def app_inv_def agent_inv_def agent_dirs_def split: if_splits)
qed

lemma running_inv: "running X C a \<Longrightarrow> app_inv a \<and> (ag_adcs a = None \<longleftrightarrow> ag_uavclient a = None)"
proof (induction rule: running.induct)
  case (started cmd args s p t)
  then show ?case by (rule started_inv)
next
  case (requested a req)
  then show ?case using stable_snd [OF serve_keeps_app, of a X req] by (simp add: keeps_app_def)
next
  case (cleaned a c)
  have "stable keeps_app (onworld (doCleanup c))"
    by (rule keeps_app_split [OF stable_onworld settings.keep_onworld])
  from stable_snd [OF this, of a] cleaned show ?case by (simp add: keeps_app_def)
qed (auto simp: app_inv_def agent_inv_def agent_dirs_def)

text \<open>
  (C9) The invariant of the whole program: from start-up on, whatever the command line, through any
  sequence of HTTP requests (well-formed or not), cleaning runs, reports from the bus and doings of
  other processes, the directories of the agent are those below its working directory, its
  caches are well formed and hold metadata names only, the latch of the command handler is free between requests, and the
  agent is connected to the bus for reports exactly when it is for commands. The free-space limits are never
  set: the option for them has no effect.
\<close>

theorem running_invariant:
  assumes "running X C a"
  shows "agent_dirs a \<and> cache_wf (dir_cache a) \<and> cache_wf (metafile_cache a) \<and> cache_wf (meta_cache a)
    \<and> all_vals meta_names (metafile_cache a) \<and> ag_latch a = 1 \<and> (ag_adcs a = None \<longleftrightarrow> ag_uavclient a = None)
    \<and> max_query a = 50 \<and> min_free_disk a = -1 \<and> min_free_pct a = -1"
  using running_inv [OF assms] by (simp add: app_inv_def agent_inv_def)

section \<open>Queries\<close>

lemma operation_query:
  assumes "topic \<noteq> []" and "list_all topic_char topic"
  shows "operation (''sdk/v1/query_available_files/'' @ topic) = Some (E_Query topic)"
proof -
  let ?p = "''v1/query_available_files/'' @ topic"
  have "tail_of ''v1/query_available_files/'' topic_char ?p = Some ([], topic)" using assms by (simp add: tail_of_def)
  then show ?thesis using operation_sdk [of ?p] by simp
qed

text \<open>
  (C10) A GET for the files available under a topic, in any state the program can reach: either the
  upload directory cannot be opened, and that exception passes, or the answer is 200 with at most fifty files, with the
  overflow flag only when it has that many, and every file listed is, in the state in which the
  query is made, announced for the topic by its metadata and backed by a regular data file with
  the recorded checksum. Missing, unreadable, malformed or corrupt files never make the query fail.
\<close>

theorem query_lists_available:
  assumes "running X C a" and "json_errors X" and "url_laws X" and "topic \<noteq> []" and "list_all topic_char topic"
    and "serve X \<lparr>rq_method = OR_GET, rq_path = ''sdk/v1/query_available_files/'' @ topic, rq_data = None\<rparr> a = (r, b)"
  shows "case fst (meta_listing (upload_dir a) a) of
      Inl e \<Rightarrow> r = Inl e
    | Inr names \<Rightarrow> \<exists>af. r = Inr (Some \<lparr>hr_code = 200, hr_body = J_Available (Some af)\<rparr>) \<and> length (af_files af) \<le> 50
        \<and> (af_overflow af \<longrightarrow> length (af_files af) = 50)
        \<and> (\<forall>fi \<in> set (af_files af). \<exists>f \<in> set names. available X topic (upload_dir a @ ''/'' @ f) a fi)"
proof -
  have inv: "agent_inv a" "max_query a = 50" using running_inv [OF assms(1)] by (simp_all add: app_inv_def)
  have "serve X \<lparr>rq_method = OR_GET, rq_path = ''sdk/v1/query_available_files/'' @ topic, rq_data = None\<rparr> a
      = processed (sdk_query_available_files X topic) a"
    by (simp add: serve_interface_eq [OF assms(3)] operation_query [OF assms(4,5), simplified] interface_def)
  then have r: "r = (case fst (query_available X topic a) of Inl e \<Rightarrow> Inl e | Inr resp \<Rightarrow> Inr (Some (deliverResponse J_Available resp)))"
    using assms(6) by (auto simp: processed_def sdk_query_available_files_def seqE_def split: prod.splits sum.splits)
  show ?thesis
    using query_available_sound [OF inv assms(2), of topic] unfolding r
    by (auto simp: deliverResponse_def split: sum.splits)
qed

section \<open>The command line\<close>

text \<open>
  (C23) A start that gets as far as the listener runs the program its command line describes: the working
  directory is the one given, which the user owns and may use; the listener has the port, and the
  cleaner the age and the interval, of the last option for them or the default; the cleaner looks after the
  four directories; and the bus is connected exactly when an interface was given, on that interface, as the node whose
  identifier is the low byte of the number given, and to the shim that was given or is the default.
\<close>

theorem main_start_configured:
  assumes fresh: "fresh_config (su_cfg s)" and run: "main_start X C cmd args s = (Running p, t)"
  shows "(\<exists>d. last_opt args CHR ''w'' = Some d \<and> workdir (p_app p) = d \<and> good_dir (su_world s) d
      \<and> m_cleanupDirs (p_cleaner p) = map ((@) d) [''/transfers'', ''/uploads'', ''/upgrades'', ''/dead''])
    \<and> p_port p = (case last_opt args CHR ''p'' of None \<Rightarrow> 2005 | Some n \<Rightarrow> wrap32 (number n))
    \<and> m_maxAge (p_cleaner p) = (case last_opt args CHR ''t'' of None \<Rightarrow> 86400 | Some n \<Rightarrow> wrap32 (number n))
    \<and> m_cleanupInterval (p_cleaner p) = (case last_opt args CHR ''i'' of None \<Rightarrow> 3600 | Some n \<Rightarrow> wrap32 (number n))
    \<and> (p_can_server p = None \<longleftrightarrow> last_opt args CHR ''c'' = None)
    \<and> (case ag_uavclient (p_app p) of
         None \<Rightarrow> last_opt args CHR ''c'' = None
       | Some (call, shim) \<Rightarrow> last_opt args CHR ''c'' \<noteq> None
           \<and> shim = (case last_opt args CHR ''N'' of None \<Rightarrow> 50 | Some n \<Rightarrow> word_of_int (number n))
           \<and> (\<exists>iface n. last_opt args CHR ''c'' = Some iface \<and> last_opt args CHR ''n'' = Some n
                \<and> c_make_node C iface (NodeID (word_of_int (number n))) = Inr call))"
proof -
  from main_start_running [OF run] obtain u a c w where po: "parseOptions args s = (Inr True, u)"
    and n: "new_agent X (su_cfg u) (su_world u) = (Inr (a, c), w)" and p: "p_cleaner p = c" "p_port p = port (su_cfg u)"
    and cn: "connected C (su_cfg u) a p" by blast
  have wd: "workdir (p_app p) = workdir a" "p_can_server p = None \<longleftrightarrow> \<not> can_interface_enabled (su_cfg u)"
    using cn by (auto simp: connected_def split: if_splits)
  have cl: "case ag_uavclient (p_app p) of None \<Rightarrow> \<not> can_interface_enabled (su_cfg u)
      | Some (call, shim) \<Rightarrow> can_interface_enabled (su_cfg u) \<and> shim = shim_node_id (su_cfg u)
          \<and> c_make_node C (can_interface (su_cfg u)) (NodeID (uavcan_node_id (su_cfg u))) = Inr call"
    using cn by (auto simp: connected_def split: if_splits)
  note cf = parseOptions_accepted [OF fresh po]
  note ns = new_agent_settings [OF n]
  have en: "can_interface_enabled (su_cfg u) \<longleftrightarrow> last_opt args CHR ''c'' \<noteq> None"
    and sh: "shim_node_id (su_cfg u) = (case last_opt args CHR ''N'' of None \<Rightarrow> 50 | Some n \<Rightarrow> word_of_int (number n))"
    and nd: "uavcan_node_id (su_cfg u) = (case last_opt args CHR ''n'' of None \<Rightarrow> 0 | Some n \<Rightarrow> word_of_int (number n))"
    using cf by blast+
  from cf obtain d where d: "last_opt args CHR ''w'' = Some d" "cfg_workdir (su_cfg u) = d" "good_dir (su_world s) d" by blast
  have "m_cleanupDirs c = map ((@) d) [''/transfers'', ''/uploads'', ''/upgrades'', ''/dead'']" "workdir a = d"
    using ns new_agent_inv [OF n] d(2) by (simp_all add: agent_inv_def agent_dirs_def)
  moreover have "case ag_uavclient (p_app p) of None \<Rightarrow> last_opt args CHR ''c'' = None
      | Some (call, shim) \<Rightarrow> last_opt args CHR ''c'' \<noteq> None
          \<and> shim = (case last_opt args CHR ''N'' of None \<Rightarrow> 50 | Some n \<Rightarrow> word_of_int (number n))
          \<and> (\<exists>iface n. last_opt args CHR ''c'' = Some iface \<and> last_opt args CHR ''n'' = Some n
               \<and> c_make_node C iface (NodeID (word_of_int (number n))) = Inr call)"
  proof (cases "ag_uavclient (p_app p)")
    case None
    then show ?thesis using cl en by simp
  next
    case (Some client)
    then obtain call where client: "client = (call, shim_node_id (su_cfg u))" "can_interface_enabled (su_cfg u)"
      "c_make_node C (can_interface (su_cfg u)) (NodeID (uavcan_node_id (su_cfg u))) = Inr call" using cl by auto
    obtain iface where i: "last_opt args CHR ''c'' = Some iface" "can_interface (su_cfg u) = iface" using client(2) en cf by auto
    have "uavcan_node_id (su_cfg u) \<noteq> 0" using client(2) cf by blast
    then obtain m where "last_opt args CHR ''n'' = Some m" "uavcan_node_id (su_cfg u) = word_of_int (number m)"
      using nd by (cases "last_opt args CHR ''n''") auto
    then show ?thesis using Some client(1,3) i sh by simp
  qed
  moreover have "m_maxAge c = maxAge (su_cfg u)" "m_cleanupInterval c = cleanupInterval (su_cfg u)" using ns by blast+
  ultimately show ?thesis using cf d en unfolding p wd by (intro conjI exI [of _ d]) (simp_all only: not_not)
qed

section \<open>Signals\<close>

lemma life_inv: "life st early s \<Longrightarrow> (lc_server s = Null \<longleftrightarrow> lc_pc s = M_start) \<and> (lc_server s = Deleted \<longleftrightarrow> lc_pc s \<in> {M_destroy, M_end})
    \<and> (lc_dangling s \<longrightarrow> lc_server s = Deleted) \<and> (lc_pc s \<in> {M_can_stop, M_delete, M_destroy, M_end} \<longrightarrow> lc_stopped s)"
proof (induction rule: life.induct)
  case begins
  show ?case by (simp add: lifecycle_init_def)
next
  case (goes_on s t)
  from goes_on(2) show ?case by cases (use goes_on(3) in auto)
next
  case (signal s sig)
  then show ?case by (auto simp: sigHandler_def split: server_ptr.splits)
qed

text \<open>The statements of \<open>main\<close> that are left once the listener has been told to stop.\<close>

fun main_left :: "main_pc \<Rightarrow> nat" where
  "main_left M_start = 6" | "main_left M_created = 5" | "main_left M_listen = 4" | "main_left M_can_stop = 3"
| "main_left M_delete = 2" | "main_left M_destroy = 1" | "main_left M_end = 0"

text \<open>
  (C24) Signals: a process that inherits no mask and no handlers handles exactly the four signals that are to
  end it, each with the others held back meanwhile, and \<open>SIGCHLD\<close> is blocked, as the code that runs
  child processes requires. While the listener runs, a signal makes it stop, after which the process goes on to its end in four
  steps; without one it never leaves the listener. A signal that arrives before the server object exists is lost, and one
  that arrives after it has been deleted, while the agent is being destroyed, calls a deleted
  object: these are the only times it does not do what it is meant to, apart from the moment before \<open>listen\<close>, which
  is up to the library.
\<close>

theorem signal_outcomes:
  assumes "life st early s" and "lc_pc s \<noteq> M_end"
  shows "(\<forall>sig. sg_blocked st = [] \<and> sg_action st sig = None \<longrightarrow>
        handled (main_signals st) sig = (sig \<in> {SIGQUIT, SIGINT, SIGTERM, SIGHUP})
        \<and> (handled (main_signals st) sig \<longrightarrow> sg_action (main_signals st) sig = Some [SIGQUIT, SIGINT, SIGTERM, SIGHUP]))
    \<and> SIGCHLD \<in> set (sg_blocked (main_signals st))
    \<and> (lc_pc s = M_start \<longrightarrow> sigHandler early s = s)
    \<and> (lc_pc s = M_destroy \<longleftrightarrow> lc_dangling (sigHandler early s))
    \<and> (lc_pc s = M_listen \<longrightarrow> lc_stopped (sigHandler early s))
    \<and> (lc_stopped s \<longrightarrow> (\<exists>t. main_step s t) \<and> (\<forall>t. main_step s t \<longrightarrow> lc_stopped t \<and> main_left (lc_pc t) < main_left (lc_pc s)))
    \<and> (lc_pc s = M_listen \<and> \<not> lc_stopped s \<longrightarrow> \<not> (\<exists>t. main_step s t))"
proof -
  note i = life_inv [OF assms(1)]
  have "\<exists>t. main_step s t" if "lc_stopped s"
    using that assms(2) by (cases "lc_pc s") (auto intro: main_step.intros)
  moreover have "lc_stopped t \<and> main_left (lc_pc t) < main_left (lc_pc s)" if "main_step s t" "lc_stopped s" for t
    using that by (auto elim!: main_stepE)
  moreover have "\<not> main_step s t" if "lc_pc s = M_listen" "\<not> lc_stopped s" for t
    using that by (auto elim!: main_stepE)
  moreover have "(lc_pc s = M_start \<longrightarrow> sigHandler early s = s) \<and> (lc_pc s = M_destroy \<longleftrightarrow> lc_dangling (sigHandler early s))
      \<and> (lc_pc s = M_listen \<longrightarrow> lc_stopped (sigHandler early s))"
    using i assms(2) by (cases "lc_pc s"; cases "lc_server s") (simp_all add: sigHandler_def)
  moreover have "handled (main_signals st) sig = (sig \<in> {SIGQUIT, SIGINT, SIGTERM, SIGHUP})
        \<and> (handled (main_signals st) sig \<longrightarrow> sg_action (main_signals st) sig = Some [SIGQUIT, SIGINT, SIGTERM, SIGHUP])"
    if "sg_blocked st = [] \<and> sg_action st sig = None" for sig
    using that by (cases sig) (simp_all add: handled_def main_signals_def setUpUnixSignals_def)
  moreover have "SIGCHLD \<in> set (sg_blocked (main_signals st))" by (simp add: main_signals_def setUpUnixSignals_def)
  ultimately show ?thesis by blast
qed

section \<open>Witnesses\<close>

definition demo_line :: "string list" where
  "demo_line = [''-w'', ''/b'', ''-p80'', ''-m'', ''10M'', ''-p'', ''8080'', ''-t60'']"

definition no_bus :: "32 word can_lib \<Rightarrow> 32 word process" where
  "no_bus C = (case fst (main_start demo_http C ''oort-agent'' demo_line demo_startup) of Running p \<Rightarrow> p)"

lemma demo_main_runs: "\<exists>t. main_start demo_http C ''oort-agent'' demo_line demo_startup = (Running (no_bus C), t)"
proof -
  let ?o = "parseOptions demo_line demo_startup"
  have po: "fst ?o = Inr True" "\<not> can_interface_enabled (su_cfg (snd ?o))" by code_simp+
  have na: "\<not> isl (fst (new_agent demo_http (su_cfg (snd ?o)) (su_world (snd ?o))))" by code_simp
  then obtain ac w where ac: "new_agent demo_http (su_cfg (snd ?o)) (su_world (snd ?o)) = (Inr ac, w)"
    by (cases "new_agent demo_http (su_cfg (snd ?o)) (su_world (snd ?o))"; cases "fst (new_agent demo_http (su_cfg (snd ?o)) (su_world (snd ?o)))") auto
  have "\<exists>p t. main_start demo_http C ''oort-agent'' demo_line demo_startup = (Running p, t)"
    using po ac by (cases ?o; cases ac) (simp add: main_start_def isCANInterfaceEnabled_def)
  then show ?thesis by (auto simp: no_bus_def)
qed

theorem running_invariant_witness:
  "\<forall>C. running demo_http C (snd (serve demo_http \<lparr>rq_method = OR_POST, rq_path = ''sdk/v1/adcs'', rq_data = None\<rparr> (p_app (no_bus C))))
     \<and> ag_latch (snd (serve demo_http \<lparr>rq_method = OR_POST, rq_path = ''sdk/v1/adcs'', rq_data = None\<rparr> (p_app (no_bus C)))) = 1"
proof
  fix C :: "32 word can_lib"
  let ?a = "snd (serve demo_http \<lparr>rq_method = OR_POST, rq_path = ''sdk/v1/adcs'', rq_data = None\<rparr> (p_app (no_bus C)))"
  have "running demo_http C (p_app (no_bus C))" using demo_main_runs running.started by blast
  then have r: "running demo_http C ?a" by (rule running.requested)
  from running_invariant [OF r] r show "running demo_http C ?a \<and> ag_latch ?a = 1" by simp
qed

theorem main_start_configured_witness:
  "\<forall>C. p_port (no_bus C) = 8080 \<and> m_maxAge (p_cleaner (no_bus C)) = 60 \<and> p_can_server (no_bus C) = None"
proof
  fix C :: "32 word can_lib"
  obtain t where run: "main_start demo_http C ''oort-agent'' demo_line demo_startup = (Running (no_bus C), t)"
    using demo_main_runs by blast
  have "fresh_config (su_cfg demo_startup)" by (simp add: fresh_config_def demo_startup_def)
  from main_start_configured [OF this run] have
    "p_port (no_bus C) = (case last_opt demo_line CHR ''p'' of None \<Rightarrow> 2005 | Some n \<Rightarrow> wrap32 (number n))"
    "m_maxAge (p_cleaner (no_bus C)) = (case last_opt demo_line CHR ''t'' of None \<Rightarrow> 86400 | Some n \<Rightarrow> wrap32 (number n))"
    "p_can_server (no_bus C) = None \<longleftrightarrow> last_opt demo_line CHR ''c'' = None" by blast+
  moreover have "last_opt demo_line CHR ''p'' = Some ''8080''" "wrap32 (number ''8080'') = 8080"
    "last_opt demo_line CHR ''t'' = Some ''60''" "wrap32 (number ''60'') = 60" "last_opt demo_line CHR ''c'' = None" by code_simp+
  ultimately show "p_port (no_bus C) = 8080 \<and> m_maxAge (p_cleaner (no_bus C)) = 60 \<and> p_can_server (no_bus C) = None" by simp
qed

definition no_signals :: signals where
  "no_signals = \<lparr>sg_blocked = [], sg_action = (\<lambda>_. None)\<rparr>"

definition destroying :: lifecycle where
  "destroying = \<lparr>lc_pc = M_destroy, lc_server = Deleted, lc_stopped = True, lc_dangling = False\<rparr>"

lemma life_destroying: "life no_signals early destroying"
proof -
  let ?s = "\<lambda>pc st. \<lparr>lc_pc = pc, lc_server = Live, lc_stopped = st, lc_dangling = False\<rparr>"
  have "life no_signals early (?s M_created False)"
    using life.goes_on [OF life.begins main_step.create [of lifecycle_init]] by (simp add: lifecycle_init_def)
  from life.goes_on [OF this main_step.listen] have "life no_signals early (?s M_listen False)" by simp
  from life.signal [OF this, of SIGTERM] have "life no_signals early (?s M_listen True)"
    by (simp add: sigHandler_def handled_def main_signals_def setUpUnixSignals_def no_signals_def)
  from life.goes_on [OF this main_step.stopped] have "life no_signals early (?s M_can_stop True)" by simp
  from life.goes_on [OF this main_step.can_stopped] have "life no_signals early (?s M_delete True)" by simp
  from life.goes_on [OF this main_step.deleted] show ?thesis by (simp add: destroying_def)
qed

theorem signal_outcomes_witness: "life no_signals True destroying \<and> lc_dangling (sigHandler True destroying)"
proof -
  have "lc_pc destroying = M_destroy" by (simp add: destroying_def)
  then show ?thesis using life_destroying signal_outcomes [OF life_destroying, of True] by simp
qed

definition demo_listing :: "32 word can_lib \<Rightarrow> 32 word app" where
  "demo_listing C = (p_app (no_bus C))\<lparr>ag_world := demo_world [(''/'', demo_dir), (''/b'', demo_dir), (''/b/uploads'', demo_dir),
     (''/b/uploads/1.meta.oort'', demo_file [123, 125]), (''/b/uploads/1.data.oort'', demo_file [1, 2, 3])] (\<lambda>_. None)\<rparr>"

theorem query_lists_available_witness:
  "\<forall>C. \<exists>af. fst (serve demo_http \<lparr>rq_method = OR_GET, rq_path = ''sdk/v1/query_available_files/t-1'', rq_data = None\<rparr> (demo_listing C))
     = Inr (Some \<lparr>hr_code = 200, hr_body = J_Available (Some af)\<rparr>) \<and> length (af_files af) \<le> 50"
proof
  fix C :: "32 word can_lib"
  let ?q = "\<lparr>rq_method = OR_GET, rq_path = ''sdk/v1/query_available_files/'' @ ''t-1'', rq_data = None\<rparr>"
  have run: "running demo_http C (demo_listing C)"
    unfolding demo_listing_def using demo_main_runs running.started running.elapsed by blast
  have ls: "fst (meta_listing (upload_dir (demo_listing C)) (demo_listing C)) = Inr [''1.meta.oort'']" by code_simp
  have js: "json_errors demo_http" by (simp add: json_errors_def demo_http_def ext.defs demo_ext_def demo_parse_def)
  have t: "''t-1'' \<noteq> []" "list_all topic_char ''t-1''" by code_simp+
  obtain r b where sv: "serve demo_http ?q (demo_listing C) = (r, b)" by (cases "serve demo_http ?q (demo_listing C)")
  from query_lists_available [OF run js demo_url_laws t sv] ls sv
  show "\<exists>af. fst (serve demo_http \<lparr>rq_method = OR_GET, rq_path = ''sdk/v1/query_available_files/t-1'', rq_data = None\<rparr> (demo_listing C))
     = Inr (Some \<lparr>hr_code = 200, hr_body = J_Available (Some af)\<rparr>) \<and> length (af_files af) \<le> 50"
    by auto
qed

section \<open>Retrievals\<close>

lemma operation_retrieve: "operation ''sdk/v1/retrieve_file'' = Some E_Retrieve"
  by (simp add: operation_def)

text \<open>
  (C3) What has been uploaded can be fetched: in any state the program can reach, while the system
  calls succeed, a POST of \<open>retrieve_file\<close> for an intact upload and a destination that is ready, on the same
  file system or on another, is answered with 200 and a description with the checksum of the
  data. Then the destination holds exactly the bytes of the upload, the pair is gone from the
  upload directory, and no other file has appeared, changed or gone.
\<close>

theorem retrieve_completes:
  assumes "running X C a" and "json_errors X" and "url_laws X" and "x_read_retrieve X body = Inr req"
    and "calm (ag_world a)" and "fs_env (upload_data a (rr_id req)) (ag_world a)"
    and "upload_intact X a (rr_id req) i" and "place_ready X a (rr_id req) (rr_save_path req)"
  shows "\<exists>fi b j. serve X \<lparr>rq_method = OR_POST, rq_path = ''sdk/v1/retrieve_file'', rq_data = Some body\<rparr> a
      = (Inr (Some \<lparr>hr_code = 200, hr_body = J_FileInfo (Some fi)\<rparr>), b)
    \<and> fi_crc32 fi = crc_of X (i_data i) \<and> i_data j = i_data i
    \<and> (\<forall>p. file_at (ag_world b) p = (if p = rr_save_path req then Some j
         else if p = upload_data a (rr_id req) \<or> p = upload_meta a (rr_id req) then None else file_at (ag_world a) p))"
proof -
  have "cache_wf (meta_cache a)" using running_inv [OF assms(1)] by (simp add: app_inv_def agent_inv_def)
  from retrieve_file_completes [OF assms(2) this assms(5-8)]
  obtain tm b j where run: "retrieve_file X req a = (Inr (good (tm_file_info tm)), b)"
    and ds: "described X (upload_meta a (rr_id req)) a tm" and j: "i_data j = i_data i"
    and files: "\<forall>p. file_at (ag_world b) p = (if p = rr_save_path req then Some j
         else if p = upload_data a (rr_id req) \<or> p = upload_meta a (rr_id req) then None else file_at (ag_world a) p)"
    by blast
  have "serve X \<lparr>rq_method = OR_POST, rq_path = ''sdk/v1/retrieve_file'', rq_data = Some body\<rparr> a
      = (Inr (Some \<lparr>hr_code = 200, hr_body = J_FileInfo (Some (tm_file_info tm))\<rparr>), b)"
    using run assms(4)
    by (simp add: serve_interface_eq [OF assms(3)] operation_retrieve interface_def processed_def ParseRequest_def GetPostData_def
        sdk_retrieve_file_def seqE_def deliverResponse_def good_def)
  moreover have "fi_crc32 (tm_file_info tm) = crc_of X (i_data i)" using assms(7) ds by (simp add: upload_intact_def)
  ultimately show ?thesis using j files by blast
qed

text \<open>An upload on the second file system, to be saved on the first.\<close>

definition demo_fetch :: "32 word can_lib \<Rightarrow> 32 word app" where
  "demo_fetch C = (p_app (no_bus C))\<lparr>ag_world := demo_world [(''/'', demo_dir), (''/a'', demo_dir), (''/b'', demo_dir),
     (''/b/uploads'', demo_dir), (''/b/uploads/1.meta.oort'', demo_file [123, 125]),
     (''/b/uploads/1.data.oort'', demo_file [1, 2, 3])] (\<lambda>_. None)\<rparr>"

lemma demo_fetch_described: "described demo_http (upload_meta (demo_fetch C) ''1'') (demo_fetch C) tm \<Longrightarrow> tm = demo_tm"
proof -
  have "cache_contents (meta_cache (demo_fetch C)) = []"
    "file_at (ag_world (demo_fetch C)) (upload_meta (demo_fetch C) ''1'') = Some (demo_file [123, 125])" by code_simp+
  moreover have "w_fault (ag_world (demo_fetch C)) = (\<lambda>_. None)" by (simp add: demo_fetch_def demo_world_def)
  moreover have "x_parse_meta demo_http (i_data (demo_file [123, 125])) = Inr demo_tm" by code_simp
  moreover assume "described demo_http (upload_meta (demo_fetch C) ''1'') (demo_fetch C) tm"
  ultimately show ?thesis by (simp add: described_def)
qed

lemma demo_fetch_intact: "upload_intact demo_http (demo_fetch C) ''1'' (demo_file [1, 2, 3])"
proof -
  have "file_at (ag_world (demo_fetch C)) (upload_data (demo_fetch C) ''1'') = Some (demo_file [1, 2, 3])"
    "file_at (ag_world (demo_fetch C)) (upload_meta (demo_fetch C) ''1'') = Some (demo_file [123, 125])"
    "i_kind (demo_file [1, 2, 3]) = Reg" "i_kind (demo_file [123, 125]) = Reg"
    "x_parse_meta demo_http (i_data (demo_file [123, 125])) = Inr demo_tm"
    "crc_of demo_http (i_data (demo_file [1, 2, 3])) = fi_crc32 (tm_file_info demo_tm)" by code_simp+
  then show ?thesis using demo_fetch_described [of C] by (auto simp: upload_intact_def)
qed

lemma demo_fetch_place: "place_ready demo_http (demo_fetch C) ''1'' ''/a/g''"
proof -
  let ?w = "ag_world (demo_fetch C)"
  have "checkPath ''/a/g''" "file_at ?w ''/a/g'' = None" "is_dir ?w (parent_dir ''/a/g'')"
    "fresh_suffix ?w (dirname (upload_data (demo_fetch C) ''1'') @ ''/file_move_'') \<noteq> None"
    "fresh_suffix ?w (dirname ''/a/g'' @ ''/file_move_'') \<noteq> None"
    "checkDiskFree_vfs (min_free_disk (demo_fetch C)) (min_free_pct (demo_fetch C)) (fi_size (tm_file_info demo_tm)) (w_vfs ?w (dirname ''/a/g''))"
    "0 < to_int32 (min (uint (f_bsize (w_vfs ?w (dirname (upload_data (demo_fetch C) ''1''))))) (uint (f_bsize (w_vfs ?w (dirname ''/a/g'')))))"
    by code_simp+
  then show ?thesis unfolding place_ready_def Let_def using demo_fetch_described [of C] by blast
qed

theorem retrieve_completes_witness:
  "\<forall>C. \<exists>fi b j. serve demo_http \<lparr>rq_method = OR_POST, rq_path = ''sdk/v1/retrieve_file'', rq_data = Some ''{}''\<rparr> (demo_fetch C)
      = (Inr (Some \<lparr>hr_code = 200, hr_body = J_FileInfo (Some fi)\<rparr>), b)
    \<and> file_at (ag_world b) ''/a/g'' = Some j \<and> i_data j = [1, 2, 3]"
proof
  fix C :: "32 word can_lib"
  let ?a = "demo_fetch C" and ?i = "demo_file [1, 2, 3]"
  have run: "running demo_http C ?a"
    unfolding demo_fetch_def using demo_main_runs running.started running.elapsed by blast
  have js: "json_errors demo_http" by (simp add: json_errors_def demo_http_def ext.defs demo_ext_def demo_parse_def)
  have rd: "x_read_retrieve demo_http ''{}'' = Inr demo_rr" by (simp add: demo_http_def ext.defs)
  have calm: "calm (ag_world ?a)" by (simp add: demo_fetch_def demo_world_def calm_def)
  have env: "fs_env (upload_data ?a (rr_id demo_rr)) (ag_world ?a)" by code_simp
  have rr: "rr_id demo_rr = ''1''" "rr_save_path demo_rr = ''/a/g''" by (simp_all add: demo_rr_def)
  have fetch: "\<exists>fi b j. serve demo_http \<lparr>rq_method = OR_POST, rq_path = ''sdk/v1/retrieve_file'', rq_data = Some ''{}''\<rparr> ?a
      = (Inr (Some \<lparr>hr_code = 200, hr_body = J_FileInfo (Some fi)\<rparr>), b)
    \<and> fi_crc32 fi = crc_of demo_http (i_data ?i) \<and> i_data j = i_data ?i
    \<and> (\<forall>p. file_at (ag_world b) p = (if p = rr_save_path demo_rr then Some j
         else if p = upload_data ?a (rr_id demo_rr) \<or> p = upload_meta ?a (rr_id demo_rr) then None else file_at (ag_world ?a) p))"
    by (rule retrieve_completes [OF run js demo_url_laws rd calm env]) (simp_all only: rr demo_fetch_intact demo_fetch_place)
  show "\<exists>fi b j. serve demo_http \<lparr>rq_method = OR_POST, rq_path = ''sdk/v1/retrieve_file'', rq_data = Some ''{}''\<rparr> (demo_fetch C)
      = (Inr (Some \<lparr>hr_code = 200, hr_body = J_FileInfo (Some fi)\<rparr>), b)
    \<and> file_at (ag_world b) ''/a/g'' = Some j \<and> i_data j = [1, 2, 3]"
    using fetch by (force simp: rr demo_file_def)
qed

end
