(* ===== verification/Oort_Process.thy ===== *)
theory Oort_Process
  imports Oort_Utils
begin

text \<open>
  \<^verbatim>\<open>impl/Utils.cpp\<close>, \<open>runProcessGetOutput\<close>: running a program with a limit on its time and its output.
  The function is given twice: as a function of what the system calls return, and as a step
  relation between the child, the thread that watches the clock, and the thread that reads, in
  which the signals and the pipe are explicit. The two are connected by a refinement.
\<close>

section \<open>Reading the output\<close>

text \<open>The results of the successive calls of \<open>read\<close>; after the last one the pipe is at its end.\<close>

fun read_into_string :: "nat \<Rightarrow> (errno + bytes) list \<Rightarrow> bytes \<Rightarrow> bool \<times> bytes" where
  "read_into_string max_output_size [] output =
     (if max_output_size < length output then (False, output) else (True, output))"
| "read_into_string max_output_size (Inl e # rs) output = (False, output)"
| "read_into_string max_output_size (Inr chunk # rs) output =
     (if max_output_size < length output + length chunk then (False, output)
      else if chunk \<noteq> [] then read_into_string max_output_size rs (output @ chunk)
      else (True, output))"

text \<open>How a child ends, and what \<open>waitpid\<close> makes of it.\<close>

datatype ending = Exited int | Signaled int

fun exit_status :: "ending \<Rightarrow> int" where
  "exit_status (Exited c) = c"
| "exit_status (Signaled sig) = 128 + sig"

text \<open>What the system calls of one run return; \<open>ps_sigmask\<close> is the result of \<open>pthread_sigmask\<close>.\<close>

record proc_script =
  ps_sigmask :: int
  ps_pipe :: "errno option"
  ps_fork :: "errno option"
  ps_errno :: errno
  ps_reads :: "(errno + bytes) list"
  ps_end :: ending

definition runProcessGetOutput :: "proc_script \<Rightarrow> nat \<Rightarrow> bytes \<Rightarrow> (exn + int) \<times> bytes" where
  "runProcessGetOutput ps max_output_size output =
     (if ps_sigmask ps < 0 then (Inl (system_error (ps_errno ps) ''pthread_sigmask''), output)
      else case ps_pipe ps of
        Some e \<Rightarrow> (Inl (system_error e ''creating pipe''), output)
      | None \<Rightarrow> (case ps_fork ps of
          Some e \<Rightarrow> (Inl (system_error e ''forking''), output)
        | None \<Rightarrow> (Inr (exit_status (ps_end ps)), snd (read_into_string max_output_size (ps_reads ps) output))))"

section \<open>The processes and threads\<close>

text \<open>
  \<open>pending\<close> is the blocked \<open>SIGCHLD\<close>, \<open>pipe\<close> what has been written and nobody has read. The write end of the pipe
  is open in the child while \<open>stdout_open\<close>, and in \<open>heirs\<close> of its descendants, which inherit it and may outlive it.
  \<open>reads\<close>, \<open>wrote\<close> and \<open>stray\<close> record the run: the results of \<open>read\<close> so far, everything that was written, and whether
  a \<open>SIGCHLD\<close> came from a child that did not end.
\<close>

datatype timer_pc = T_wait | T_done

datatype reader_pc = R_read | R_join | R_reap | R_done int

record proc =
  child :: "ending option"
  pending :: bool
  stray :: bool
  stdout_open :: bool
  heirs :: nat
  pipe :: bytes
  timer :: timer_pc
  reader :: reader_pc
  out :: bytes
  reads :: "(errno + bytes) list"
  wrote :: bytes

definition proc_init :: proc where
  "proc_init = \<lparr>child = None, pending = False, stray = False, stdout_open = True, heirs = 0, pipe = [], timer = T_wait, reader = R_read, out = [], reads = [], wrote = []\<rparr>"

definition ends :: "ending \<Rightarrow> proc \<Rightarrow> proc" where
  "ends how s = s\<lparr>child := Some how, pending := True, stdout_open := False\<rparr>"

text \<open>Somebody can still write to the pipe.\<close>

definition writers :: "proc \<Rightarrow> bool" where
  "writers s \<longleftrightarrow> stdout_open s \<or> 0 < heirs s"

text \<open>\<open>kill(pid, SIGKILL)\<close> reaches the child and not its descendants; a child that has ended and not been waited for is left as it is.\<close>

definition sigkill :: "proc \<Rightarrow> proc" where
  "sigkill s = (if child s = None then ends (Signaled 9) s else s)"

text \<open>
  What the program that is run may do: it or a descendant writes, starts a process that inherits the
  pipe, or closes it; it is stopped or continued, for which the agent gets the same signal as for its end; and it ends. Closing and
  ending cover a program that redirects its output and goes on, and one that leaves descendants behind.
\<close>

inductive child_writes :: "proc \<Rightarrow> proc \<Rightarrow> bool" where
  writes: "writers s \<Longrightarrow> child_writes s (s\<lparr>pipe := pipe s @ bs, wrote := wrote s @ bs\<rparr>)"

inductive child_acts :: "proc \<Rightarrow> proc \<Rightarrow> bool" where
  forks: "writers s \<Longrightarrow> child_acts s (s\<lparr>heirs := Suc (heirs s)\<rparr>)"
| heir_closes: "heirs s = Suc n \<Longrightarrow> child_acts s (s\<lparr>heirs := n\<rparr>)"
| closes: "child s = None \<Longrightarrow> child_acts s (s\<lparr>stdout_open := False\<rparr>)"
| stops: "child s = None \<Longrightarrow> child_acts s (s\<lparr>pending := True, stray := True\<rparr>)"

inductive child_ends :: "proc \<Rightarrow> proc \<Rightarrow> bool" where
  exits: "child s = None \<Longrightarrow> child_ends s (ends (Exited c) s)"
| dies: "child s = None \<Longrightarrow> child_ends s (ends (Signaled sig) s)"

text \<open>
  The thread in \<open>sigtimedwait\<close>: it takes a pending signal, whatever raised it, and reports the time only when there is
  none. An interruption by another signal leaves the state as it is.
\<close>

inductive timer_step :: "proc \<Rightarrow> proc \<Rightarrow> bool" where
  sigchld: "timer s = T_wait \<Longrightarrow> pending s \<Longrightarrow> timer_step s (s\<lparr>timer := T_done, pending := False\<rparr>)"
| timeout: "timer s = T_wait \<Longrightarrow> \<not> pending s \<Longrightarrow> timer_step s (sigkill s)"

text \<open>
  The thread that reads: the end of the file comes when nobody holds the write end any more; \<open>waitpid\<close> waits
  for the end of the child.
\<close>

inductive reader_step :: "nat \<Rightarrow> nat \<Rightarrow> proc \<Rightarrow> proc \<Rightarrow> bool" for max_output_size chunk_size where
  chunk: "reader s = R_read \<Longrightarrow> 0 < n \<Longrightarrow> n \<le> chunk_size \<Longrightarrow> n \<le> length (pipe s) \<Longrightarrow>
    length (out s) + n \<le> max_output_size \<Longrightarrow>
    reader_step max_output_size chunk_size s (s\<lparr>out := out s @ take n (pipe s), pipe := drop n (pipe s),
      reads := reads s @ [Inr (take n (pipe s))]\<rparr>)"
| too_much: "reader s = R_read \<Longrightarrow> 0 < n \<Longrightarrow> n \<le> chunk_size \<Longrightarrow> n \<le> length (pipe s) \<Longrightarrow>
    max_output_size < length (out s) + n \<Longrightarrow>
    reader_step max_output_size chunk_size s (sigkill (s\<lparr>pipe := drop n (pipe s), reader := R_join,
      reads := reads s @ [Inr (take n (pipe s))]\<rparr>))"
| eof: "reader s = R_read \<Longrightarrow> pipe s = [] \<Longrightarrow> \<not> writers s \<Longrightarrow>
    reader_step max_output_size chunk_size s (s\<lparr>reader := R_join\<rparr>)"
| join: "reader s = R_join \<Longrightarrow> timer s = T_done \<Longrightarrow> reader_step max_output_size chunk_size s (s\<lparr>reader := R_reap\<rparr>)"
| reap: "reader s = R_reap \<Longrightarrow> child s = Some how \<Longrightarrow>
    reader_step max_output_size chunk_size s (s\<lparr>reader := R_done (exit_status how)\<rparr>)"

text \<open>A read that fails.\<close>

inductive read_fails :: "proc \<Rightarrow> proc \<Rightarrow> bool" where
  fails: "reader s = R_read \<Longrightarrow> read_fails s (sigkill (s\<lparr>reader := R_join, reads := reads s @ [Inl e]\<rparr>))"

text \<open>The steps that the two threads take when no call fails, all of their steps, and all steps.\<close>

definition good_step :: "nat \<Rightarrow> nat \<Rightarrow> proc \<Rightarrow> proc \<Rightarrow> bool" where
  "good_step mx ch s t \<longleftrightarrow> timer_step s t \<or> reader_step mx ch s t"

definition own_step :: "nat \<Rightarrow> nat \<Rightarrow> proc \<Rightarrow> proc \<Rightarrow> bool" where
  "own_step mx ch s t \<longleftrightarrow> good_step mx ch s t \<or> read_fails s t"

definition proc_step :: "nat \<Rightarrow> nat \<Rightarrow> proc \<Rightarrow> proc \<Rightarrow> bool" where
  "proc_step mx ch s t \<longleftrightarrow> child_writes s t \<or> child_acts s t \<or> child_ends s t \<or> own_step mx ch s t"

inductive_cases proc_stepE: "child_writes s t" "child_acts s t" "child_ends s t" "timer_step s t" "reader_step mx ch s t" "read_fails s t"

section \<open>The invariant\<close>

definition proc_inv :: "nat \<Rightarrow> proc \<Rightarrow> bool" where
  "proc_inv mx s \<longleftrightarrow> length (out s) \<le> mx \<and> prefix (out s) (wrote s) \<and> (child s \<noteq> None \<longrightarrow> \<not> stdout_open s)
     \<and> (timer s = T_wait \<longrightarrow> child s \<noteq> None \<longrightarrow> pending s) \<and> (timer s = T_wait \<longrightarrow> pending s \<longrightarrow> child s \<noteq> None \<or> stray s)
     \<and> (timer s = T_done \<longrightarrow> \<not> stray s \<longrightarrow> child s \<noteq> None \<and> \<not> pending s)
     \<and> (case reader s of
          R_read \<Rightarrow> wrote s = out s @ pipe s \<and> (\<forall>rs. read_into_string mx (reads s @ rs) [] = read_into_string mx rs (out s))
        | R_join \<Rightarrow> (\<exists>b. read_into_string mx (reads s) [] = (b, out s))
        | R_reap \<Rightarrow> timer s = T_done \<and> (\<exists>b. read_into_string mx (reads s) [] = (b, out s))
        | R_done c \<Rightarrow> timer s = T_done \<and> (\<exists>b. read_into_string mx (reads s) [] = (b, out s))
            \<and> (\<exists>how. child s = Some how \<and> c = exit_status how))"

lemma proc_inv_init: "proc_inv mx proc_init"
  by (simp add: proc_inv_def proc_init_def)

lemma proc_inv_writes: "proc_inv mx s \<Longrightarrow> child_writes s t \<Longrightarrow> proc_inv mx t"
  by (erule proc_stepE; cases "reader s") (simp_all add: proc_inv_def)

lemma proc_inv_acts: "proc_inv mx s \<Longrightarrow> child_acts s t \<Longrightarrow> proc_inv mx t"
  by (erule proc_stepE; cases "reader s"; cases "timer s") (simp_all add: proc_inv_def)

lemma proc_inv_ends: "proc_inv mx s \<Longrightarrow> child s = None \<Longrightarrow> proc_inv mx (ends how s)"
  by (auto simp: proc_inv_def ends_def split: reader_pc.splits)

lemma proc_inv_timer: "proc_inv mx s \<Longrightarrow> timer_step s t \<Longrightarrow> proc_inv mx t"
  by (erule proc_stepE) (auto simp: sigkill_def proc_inv_ends, auto simp: proc_inv_def split: reader_pc.splits)

lemma reads_snoc:
  assumes "\<And>rs. read_into_string mx (reads s @ rs) [] = read_into_string mx rs (out s)"
  shows "read_into_string mx (reads s @ [r]) [] = read_into_string mx [r] (out s)"
    and "read_into_string mx (reads s @ r # rs) [] = read_into_string mx (r # rs) (out s)"
    and "read_into_string mx (reads s) [] = read_into_string mx [] (out s)"
  using assms [of "[r]"] assms [of "r # rs"] assms [of "[]"] by simp_all

lemma sigkill_simps [simp]:
  "child (sigkill s) \<noteq> None" "pipe (sigkill s) = pipe s" "timer (sigkill s) = timer s" "reader (sigkill s) = reader s"
  "out (sigkill s) = out s" "reads (sigkill s) = reads s" "wrote (sigkill s) = wrote s"
  "pending (sigkill s) = (pending s \<or> child s = None)" "stray (sigkill s) = stray s" "heirs (sigkill s) = heirs s"
  "stdout_open (sigkill s) = (stdout_open s \<and> child s \<noteq> None)"
  by (auto simp: sigkill_def ends_def)

lemma proc_inv_reader: 
  assumes "proc_inv mx s" "reader_step mx ch s t" 
  shows "proc_inv mx t"
  using assms(2)
proof cases
  case (chunk n)
  then show ?thesis using assms(1) by (auto simp: proc_inv_def same_prefix_prefix take_is_prefix)
next
  case (too_much n)
  then show ?thesis using assms(1) by (auto simp: proc_inv_def)
next
  case eof
  then show ?thesis using assms(1) reads_snoc(3) [of mx s] by (auto simp: proc_inv_def)
next
  case join
  then show ?thesis using assms(1) by (auto simp: proc_inv_def)
next
  case (reap how)
  then show ?thesis using assms(1) by (auto simp: proc_inv_def)
qed

lemma proc_inv_fails: "proc_inv mx s \<Longrightarrow> read_fails s t \<Longrightarrow> proc_inv mx t"
  by (erule proc_stepE) (auto simp: proc_inv_def)

lemma proc_inv_child_ends: "proc_inv mx s \<Longrightarrow> child_ends s t \<Longrightarrow> proc_inv mx t"
  by (erule proc_stepE) (auto intro: proc_inv_ends)

lemmas proc_inv_kept = proc_inv_writes proc_inv_acts proc_inv_child_ends proc_inv_timer proc_inv_reader proc_inv_fails

lemma proc_inv_step: "proc_inv mx s \<Longrightarrow> proc_step mx ch s t \<Longrightarrow> proc_inv mx t"
  unfolding proc_step_def own_step_def good_step_def by (elim disjE) (rule proc_inv_kept; assumption)+

lemma proc_reachable_inv: "(proc_step mx ch)\<^sup>*\<^sup>* proc_init s \<Longrightarrow> proc_inv mx s"
  by (induction rule: rtranclp_induct) (auto intro: proc_inv_init proc_inv_step)

text \<open>
  (C15) A run of the child, the clock and the reader that has returned did what the function says:
  for some results of the calls of \<open>read\<close> and some end of the child, the status and the output are
  those of \<open>runProcessGetOutput\<close>. The child has ended and has been waited for, and the output, never longer than the limit, is the
  beginning of what was written to the pipe. Unless the child was stopped on the way, its signal has been taken.
\<close>

theorem runProcess_refines:
  assumes "(proc_step mx ch)\<^sup>*\<^sup>* proc_init s" and "reader s = R_done status"
  shows "(\<exists>ps. ps_reads ps = reads s \<and> child s = Some (ps_end ps) \<and> runProcessGetOutput ps mx [] = (Inr status, out s))
    \<and> (\<not> stray s \<longrightarrow> \<not> pending s) \<and> length (out s) \<le> mx \<and> prefix (out s) (wrote s)"
proof -
  have inv: "proc_inv mx s" by (rule proc_reachable_inv [OF assms(1)])
  then obtain how b where h: "child s = Some how" "status = exit_status how" "read_into_string mx (reads s) [] = (b, out s)"
    using assms(2) by (auto simp: proc_inv_def)
  define ps where "ps = \<lparr>ps_sigmask = 0, ps_pipe = None, ps_fork = None, ps_errno = EIO, ps_reads = reads s, ps_end = how\<rparr>"
  have "ps_reads ps = reads s \<and> child s = Some (ps_end ps) \<and> runProcessGetOutput ps mx [] = (Inr status, out s)"
    using h by (simp add: ps_def runProcessGetOutput_def)
  moreover have "\<not> stray s \<longrightarrow> \<not> pending s" "length (out s) \<le> mx" "prefix (out s) (wrote s)" using inv assms(2) by (auto simp: proc_inv_def)
  ultimately show ?thesis by blast
qed

text \<open>How many steps are left, but for those in which the child writes.\<close>

definition steps_left :: "proc \<Rightarrow> nat" where
  "steps_left s = length (pipe s) + (if child s = None then 1 else 0) + (if timer s = T_wait then 1 else 0)
     + (case reader s of R_read \<Rightarrow> 3 | R_join \<Rightarrow> 2 | R_reap \<Rightarrow> 1 | R_done _ \<Rightarrow> 0)"

lemma steps_left_sigkill: "steps_left (sigkill s) \<le> steps_left s"
  by (auto simp: steps_left_def sigkill_def ends_def)

lemma timer_decreases: "proc_inv mx s \<Longrightarrow> timer_step s t \<Longrightarrow> steps_left t < steps_left s"
  by (erule proc_stepE) (auto simp: steps_left_def sigkill_def ends_def proc_inv_def)

lemma reader_decreases:
  assumes "reader_step mx ch s t"
  shows "steps_left t < steps_left s"
  using assms
proof cases
  case (too_much n)
  then have "steps_left (s\<lparr>pipe := drop n (pipe s), reader := R_join, reads := reads s @ [Inr (take n (pipe s))]\<rparr>) < steps_left s"
    by (simp add: steps_left_def)
  then show ?thesis using too_much(1) steps_left_sigkill le_less_trans by blast
qed (auto simp: steps_left_def)

lemma fails_decreases: "read_fails s t \<Longrightarrow> steps_left t < steps_left s"
proof (erule proc_stepE)
  fix e
  assume "t = sigkill (s\<lparr>reader := R_join, reads := reads s @ [Inl e]\<rparr>)" "reader s = R_read"
  moreover from this(2) have "steps_left (s\<lparr>reader := R_join, reads := reads s @ [Inl e]\<rparr>) < steps_left s" by (simp add: steps_left_def)
  ultimately show "steps_left t < steps_left s" using steps_left_sigkill le_less_trans by blast
qed

lemma own_step_decreases: "proc_inv mx s \<Longrightarrow> own_step mx ch s t \<Longrightarrow> steps_left t < steps_left s"
  unfolding own_step_def good_step_def using timer_decreases reader_decreases fails_decreases by blast

lemma timer_enabled: "timer s = T_wait \<Longrightarrow> \<exists>t. timer_step s t"
  using timer_step.sigchld timer_step.timeout by blast

lemma reader_enabled: "reader s = R_read \<Longrightarrow> 0 < ch \<Longrightarrow> pipe s \<noteq> [] \<Longrightarrow> \<exists>t. reader_step mx ch s t"
  using reader_step.chunk [of s 1 ch mx] reader_step.too_much [of s 1 ch mx]
  by (cases "length (out s) + 1 \<le> mx") (auto simp: Suc_le_eq)

text \<open>
  The two calls that can block for good: a \<open>read\<close> from a pipe that is empty and still open somewhere, once the
  clock thread has ended, and \<open>waitpid\<close> on a child that runs.
\<close>

definition read_blocked :: "proc \<Rightarrow> bool" where
  "read_blocked s \<longleftrightarrow> reader s = R_read \<and> pipe s = [] \<and> writers s \<and> timer s = T_done"

definition wait_blocked :: "proc \<Rightarrow> bool" where
  "wait_blocked s \<longleftrightarrow> reader s = R_reap \<and> child s = None"

lemma good_step_enabled:
  assumes inv: "proc_inv mx s" and "0 < ch" and "\<And>c. reader s \<noteq> R_done c" and "\<not> read_blocked s" and "\<not> wait_blocked s"
  shows "\<exists>t. good_step mx ch s t"
proof (cases "reader s")
  case R_read
  show ?thesis
  proof (cases "pipe s = [] \<and> \<not> writers s")
    case True
    then show ?thesis unfolding good_step_def using reader_step.eof R_read by blast
  next
    case False
    then have "pipe s \<noteq> [] \<or> timer s = T_wait" using assms(4) R_read by (cases "timer s") (auto simp: read_blocked_def)
    then show ?thesis unfolding good_step_def using reader_enabled [OF R_read assms(2)] timer_enabled by blast
  qed
next
  case R_join
  then show ?thesis unfolding good_step_def using reader_step.join timer_enabled by (cases "timer s") blast+
next
  case R_reap
  then obtain how where "child s = Some how" using assms(5) by (auto simp: wait_blocked_def)
  then show ?thesis unfolding good_step_def using reader_step.reap R_reap by blast
qed (use assms(3) in blast)

lemma blocked_stuck:
  assumes "proc_inv mx s" and "read_blocked s \<or> wait_blocked s"
  shows "\<nexists>t. good_step mx ch s t"
  using assms unfolding good_step_def read_blocked_def wait_blocked_def
  by (auto elim!: proc_stepE simp: proc_inv_def)

text \<open>
  (C16) When a run comes to its end. In every state, each step of the agent's two threads
  brings the return nearer, by a measure that is the number of bytes in the pipe and at most five;
  what puts it off is only what is written, and nobody writes once the child and its descendants have let go of the pipe. As long as
  the function has not returned, one of the threads has a step to take for which no call need fail, with exactly
  two exceptions: the reader waits for a pipe that is still open, or \<open>waitpid\<close> for a child that runs. If the child was never
  stopped, the second does not happen, and the first only when the child has ended, killed or not, and a
  descendant holds the pipe: the time limit binds the child, and not the processes it leaves behind.
\<close>

theorem runProcess_returns:
  assumes "(proc_step mx ch)\<^sup>*\<^sup>* proc_init s" and "0 < ch"
  shows "(\<forall>t. own_step mx ch s t \<longrightarrow> steps_left t < steps_left s) \<and> steps_left s \<le> length (pipe s) + 5
    \<and> ((\<nexists>t. good_step mx ch s t) \<longleftrightarrow> (\<exists>status. reader s = R_done status) \<or> read_blocked s \<or> wait_blocked s)
    \<and> (\<not> stray s \<longrightarrow> \<not> wait_blocked s) \<and> (\<not> stray s \<longrightarrow> read_blocked s \<longrightarrow> child s \<noteq> None \<and> 0 < heirs s)
    \<and> (\<not> writers s \<longrightarrow> (\<nexists>t. child_writes s t))"
proof -
  note inv = proc_reachable_inv [OF assms(1)]
  have len: "steps_left s \<le> length (pipe s) + 5" by (auto simp: steps_left_def split: reader_pc.splits)
  have done_stuck: "\<nexists>t. good_step mx ch s t" if "reader s = R_done status" for status
    using that inv unfolding good_step_def by (auto elim!: proc_stepE simp: proc_inv_def)
  have "(\<nexists>t. good_step mx ch s t) \<longleftrightarrow> (\<exists>status. reader s = R_done status) \<or> read_blocked s \<or> wait_blocked s"
    using good_step_enabled [OF inv assms(2)] blocked_stuck [OF inv] done_stuck by blast
  moreover have "\<not> stray s \<longrightarrow> \<not> wait_blocked s" "\<not> stray s \<longrightarrow> read_blocked s \<longrightarrow> child s \<noteq> None \<and> 0 < heirs s"
    using inv by (auto simp: proc_inv_def wait_blocked_def read_blocked_def writers_def)
  ultimately show ?thesis using own_step_decreases [OF inv] len by (auto simp: child_writes.simps)
qed

section \<open>Witnesses\<close>

text \<open>A child that writes one byte and exits, and what is left when it has been waited for.\<close>

definition demo_done :: proc where
  "demo_done = \<lparr>child = Some (Exited 3), pending = False, stray = False, stdout_open = False, heirs = 0, pipe = [], timer = T_done, reader = R_done 3, out = [65],
     reads = [Inr [65]], wrote = [65]\<rparr>"

lemma demo_run: "(proc_step 8 4)\<^sup>*\<^sup>* proc_init demo_done"
proof -
  let ?s1 = "proc_init\<lparr>pipe := [65], wrote := [65]\<rparr>"
  let ?s2 = "?s1\<lparr>child := Some (Exited 3), pending := True, stdout_open := False\<rparr>"
  let ?s3 = "?s2\<lparr>timer := T_done, pending := False\<rparr>"
  let ?s4 = "?s3\<lparr>out := [65], pipe := [], reads := [Inr [65]]\<rparr>"
  have "proc_step 8 4 proc_init ?s1"
    using child_writes.writes [of proc_init "[65]"] by (simp add: proc_step_def proc_init_def writers_def)
  moreover have "proc_step 8 4 ?s1 ?s2"
    using child_ends.exits [of ?s1 3] by (simp add: proc_step_def proc_init_def ends_def)
  moreover have "proc_step 8 4 ?s2 ?s3"
    using timer_step.sigchld [of ?s2] by (simp add: proc_step_def own_step_def good_step_def proc_init_def)
  moreover have "proc_step 8 4 ?s3 ?s4"
    using reader_step.chunk [of ?s3 1 4 8] by (simp add: proc_step_def own_step_def good_step_def proc_init_def)
  moreover have "proc_step 8 4 ?s4 (?s4\<lparr>reader := R_join\<rparr>)"
    using reader_step.eof [of ?s4 8 4] by (simp add: proc_step_def own_step_def good_step_def proc_init_def writers_def)
  moreover have "proc_step 8 4 (?s4\<lparr>reader := R_join\<rparr>) (?s4\<lparr>reader := R_reap\<rparr>)"
    using reader_step.join [of "?s4\<lparr>reader := R_join\<rparr>" 8 4] by (simp add: proc_step_def own_step_def good_step_def proc_init_def)
  moreover have "proc_step 8 4 (?s4\<lparr>reader := R_reap\<rparr>) demo_done"
    using reader_step.reap [of "?s4\<lparr>reader := R_reap\<rparr>" "Exited 3" 8 4]
    by (simp add: proc_step_def own_step_def good_step_def proc_init_def demo_done_def)
  ultimately show ?thesis by (meson rtranclp.rtrancl_refl converse_rtranclp_into_rtranclp)
qed

theorem runProcess_refines_witness:
  "reader demo_done = R_done 3 \<and> (\<exists>ps. ps_reads ps = [Inr [65]] \<and> runProcessGetOutput ps 8 [] = (Inr 3, [65]))"
  using runProcess_refines [OF demo_run, of 3] by (auto simp: demo_done_def)

text \<open>
  A shell that runs \<open>sleep\<close>, as the script \<^verbatim>\<open>hk_hanging.sh\<close> of the tests does: at the time limit the shell is killed, and \<open>read\<close>
  goes on waiting for the process it has left behind.
\<close>

definition left_behind :: proc where
  "left_behind = \<lparr>child = Some (Signaled 9), pending = False, stray = False, stdout_open = False, heirs = 1, pipe = [],
     timer = T_done, reader = R_read, out = [], reads = [], wrote = []\<rparr>"

lemma left_behind_reachable: "(proc_step 8 4)\<^sup>*\<^sup>* proc_init left_behind"
proof -
  let ?s1 = "proc_init\<lparr>heirs := 1\<rparr>"
  let ?s2 = "sigkill ?s1"
  have "proc_step 8 4 proc_init ?s1"
    using child_acts.forks [of proc_init] by (simp add: proc_step_def proc_init_def writers_def)
  moreover have "proc_step 8 4 ?s1 ?s2"
    using timer_step.timeout [of ?s1] by (simp add: proc_step_def own_step_def good_step_def proc_init_def)
  moreover have "proc_step 8 4 ?s2 left_behind"
    using timer_step.sigchld [of ?s2]
    by (simp add: proc_step_def own_step_def good_step_def proc_init_def sigkill_def ends_def left_behind_def)
  ultimately show ?thesis by (meson rtranclp.rtrancl_refl converse_rtranclp_into_rtranclp)
qed

lemma hanging_script_blocks: "(proc_step 8 4)\<^sup>*\<^sup>* proc_init left_behind \<and> child left_behind = Some (Signaled 9) \<and> read_blocked left_behind"
  using left_behind_reachable by (simp add: left_behind_def read_blocked_def writers_def)

theorem runProcess_returns_witness: "steps_left left_behind \<le> 5 \<and> (\<nexists>t. good_step 8 4 left_behind t)
    \<and> child left_behind \<noteq> None \<and> 0 < heirs left_behind"
proof -
  have "read_blocked left_behind" "\<not> stray left_behind" "pipe left_behind = []"
    by (simp_all add: left_behind_def read_blocked_def writers_def)
  then show ?thesis using runProcess_returns [OF left_behind_reachable] by auto
qed

end
