(* ===== verification/Oort_Health.thy ===== *)
theory Oort_Health
  imports Oort_Process
begin

text \<open>
  \<^verbatim>\<open>impl/AgentUAVCANServer.cpp\<close>: the health check. A program is run, its output is parsed as JSON and
  copied into the response, and every failure becomes a response code.

  Parsing the text is the JSON library's (\<open>parse\<close>); of its values, the accessors and conversions that
  the source uses are modelled. Floating-point numbers are parameters (\<open>'d\<close> for \<open>double\<close>, \<open>'f\<close> for
  \<open>float32\<close>), with their conversions in \<open>num_ops\<close>.
\<close>

section \<open>JSON values\<close>

datatype 'd json =
    JNull
  | JBool bool
  | JUnsigned "64 word"
  | JInteger int
  | JFloat 'd
  | JString string
  | JArray "'d json list"
  | JObject "(string \<times> 'd json) list"

record ('d, 'f) num_ops =
  d_to_int :: "'d \<Rightarrow> int"
  d_to_f32 :: "'d \<Rightarrow> 'f"
  int_to_f32 :: "int \<Rightarrow> 'f"

text \<open>\<open>at\<close>, and the conversions to the three kinds of number; the last two also take a boolean.\<close>

definition json_at :: "'d json \<Rightarrow> string \<Rightarrow> exn + 'd json" where
  "json_at j name = (case j of
      JObject members \<Rightarrow> (case map_of members name of
          None \<Rightarrow> Inl (json_out_of_range (''key not found: '' @ name)) | Some v \<Rightarrow> Inr v)
    | _ \<Rightarrow> Inl (json_type_error ''cannot use at()''))"

fun get_int64 :: "('d, 'f) num_ops \<Rightarrow> 'd json \<Rightarrow> exn + int" where
  "get_int64 N (JUnsigned u) = Inr (sint u)"
| "get_int64 N (JInteger i) = Inr i"
| "get_int64 N (JFloat d) = Inr (d_to_int N d)"
| "get_int64 N _ = Inl (json_type_error ''type must be number'')"

fun get_uint32 :: "('d, 'f) num_ops \<Rightarrow> 'd json \<Rightarrow> exn + 32 word" where
  "get_uint32 N (JUnsigned u) = Inr (ucast u)"
| "get_uint32 N (JInteger i) = Inr (word_of_int i)"
| "get_uint32 N (JFloat d) = Inr (word_of_int (d_to_int N d))"
| "get_uint32 N (JBool b) = Inr (if b then 1 else 0)"
| "get_uint32 N _ = Inl (json_type_error ''type must be number'')"

definition get_int32 :: "('d, 'f) num_ops \<Rightarrow> 'd json \<Rightarrow> exn + int" where
  "get_int32 N j = map_sum id sint (get_uint32 N j)"

fun get_float32 :: "('d, 'f) num_ops \<Rightarrow> 'd json \<Rightarrow> exn + 'f" where
  "get_float32 N (JUnsigned u) = Inr (int_to_f32 N (uint u))"
| "get_float32 N (JInteger i) = Inr (int_to_f32 N i)"
| "get_float32 N (JFloat d) = Inr (d_to_f32 N d)"
| "get_float32 N (JBool b) = Inr (int_to_f32 N (if b then 1 else 0))"
| "get_float32 N _ = Inl (json_type_error ''type must be number'')"

section \<open>The response\<close>

record 'f HealthResponse =
  response_code :: "8 word"
  health_state :: "8 word"
  schema_version :: "32 word"
  need_hard_reset :: bool
  timestamp :: "32 word"
  imetric_feeds :: "32 word list"
  imetric :: "int list"
  fmetric_feeds :: "32 word list"
  fmetric :: "'f list"

definition new_response :: "'f HealthResponse" where
  "new_response = \<lparr>response_code = 0, health_state = 0, schema_version = 0, need_hard_reset = False, timestamp = 0,
     imetric_feeds = [], imetric = [], fmetric_feeds = [], fmetric = []\<rparr>"

type_synonym ('f, 'a) health_act = "('f HealthResponse, 'a) ste"

definition HK_MAX_ARRAY_LEN :: nat where
  "HK_MAX_ARRAY_LEN = 255"

definition validate_array :: "'d json \<Rightarrow> string \<Rightarrow> exn + unit" where
  "validate_array obj name = (case json_at obj name of
      Inl e \<Rightarrow> Inl e
    | Inr (JArray items) \<Rightarrow> if HK_MAX_ARRAY_LEN < length items then Inl (runtime_error (''Invalid array size for '' @ name)) else Inr ()
    | Inr _ \<Rightarrow> Inl (runtime_error (''Invalid type for '' @ name)))"

definition elements :: "'d json \<Rightarrow> 'd json list" where
  "elements j = (case j of JArray items \<Rightarrow> items | JObject members \<Rightarrow> map snd members | JNull \<Rightarrow> [] | _ \<Rightarrow> [j])"

text \<open>One of the loops \<open>for (auto& it : j.at(name)) push_back(it)\<close>.\<close>

fun push_all :: "('d json \<Rightarrow> exn + 'v) \<Rightarrow> ('v \<Rightarrow> 'f HealthResponse \<Rightarrow> 'f HealthResponse) \<Rightarrow> 'd json list \<Rightarrow> ('f, unit) health_act" where
  "push_all conv push [] = ret ()"
| "push_all conv push (it # items) = seqE (lift (conv it)) (\<lambda>v. seqE (modify (push v)) (\<lambda>_. push_all conv push items))"

definition push_metrics :: "('d, 'f) num_ops \<Rightarrow> 'd json \<Rightarrow> ('f, unit) health_act" where
  "push_metrics N j =
     seqE (lift (json_at j ''int_metrics'')) (\<lambda>a.
     seqE (push_all (get_int32 N) (\<lambda>v. imetric_update (\<lambda>l. l @ [v])) (elements a)) (\<lambda>_.
     seqE (lift (json_at j ''int_metric_counts'')) (\<lambda>a.
     seqE (push_all (get_uint32 N) (\<lambda>v. imetric_feeds_update (\<lambda>l. l @ [v])) (elements a)) (\<lambda>_.
     seqE (lift (json_at j ''float_metrics'')) (\<lambda>a.
     seqE (push_all (get_float32 N) (\<lambda>v. fmetric_update (\<lambda>l. l @ [v])) (elements a)) (\<lambda>_.
     seqE (lift (json_at j ''float_metric_counts'')) (\<lambda>a.
     push_all (get_uint32 N) (\<lambda>v. fmetric_feeds_update (\<lambda>l. l @ [v])) (elements a))))))))"

text \<open>A field whose type is checked first.\<close>

definition require_type :: "'d json \<Rightarrow> string \<Rightarrow> ('d json \<Rightarrow> bool) \<Rightarrow> exn + unit" where
  "require_type j name p = (case json_at j name of
      Inl e \<Rightarrow> Inl e | Inr v \<Rightarrow> if p v then Inr () else Inl (runtime_error (''Invalid type for '' @ name)))"

definition is_number_unsigned :: "'d json \<Rightarrow> bool" where
  "is_number_unsigned j \<longleftrightarrow> (case j of JUnsigned _ \<Rightarrow> True | _ \<Rightarrow> False)"

definition is_boolean :: "'d json \<Rightarrow> bool" where
  "is_boolean j \<longleftrightarrow> (case j of JBool _ \<Rightarrow> True | _ \<Rightarrow> False)"

definition get_bool :: "'d json \<Rightarrow> exn + bool" where
  "get_bool j = (case j of JBool b \<Rightarrow> Inr b | _ \<Rightarrow> Inl (json_type_error ''type must be boolean''))"

definition get_at :: "'d json \<Rightarrow> string \<Rightarrow> ('d json \<Rightarrow> exn + 'v) \<Rightarrow> ('f, 'v) health_act" where
  "get_at j name conv = seqE (lift (json_at j name)) (\<lambda>v. lift (conv v))"

definition check_fields :: "'d json \<Rightarrow> ('f, unit) health_act" where
  "check_fields j =
     seqE (lift (validate_array j ''int_metrics'')) (\<lambda>_.
     seqE (lift (validate_array j ''float_metrics'')) (\<lambda>_.
     seqE (lift (validate_array j ''int_metric_counts'')) (\<lambda>_.
     seqE (lift (validate_array j ''float_metric_counts'')) (\<lambda>_.
     seqE (lift (require_type j ''schema_version'' is_number_unsigned)) (\<lambda>_.
     seqE (lift (require_type j ''payload_timestamp'' is_number_unsigned)) (\<lambda>_.
     lift (require_type j ''need_hard_reset'' is_boolean)))))))"

definition parseHealthcheckResponse :: "('d, 'f) num_ops \<Rightarrow> (bytes \<Rightarrow> exn + 'd json) \<Rightarrow> bytes \<Rightarrow> ('f, unit) health_act" where
  "parseHealthcheckResponse N parse hk_output =
     seqE (lift (parse hk_output)) (\<lambda>j.
     seqE (get_at j ''version'' (get_int64 N)) (\<lambda>iface_version.
     if iface_version \<noteq> 1 then throw (runtime_error ''Invalid version in JSON healthcheck response'')
     else
       seqE (check_fields j) (\<lambda>_.
       seqE (get_at j ''schema_version'' (get_uint32 N)) (\<lambda>v. seqE (modify (schema_version_update (\<lambda>_. v))) (\<lambda>_.
       seqE (get_at j ''payload_timestamp'' (get_uint32 N)) (\<lambda>v. seqE (modify (timestamp_update (\<lambda>_. v))) (\<lambda>_.
       seqE (get_at j ''need_hard_reset'' get_bool) (\<lambda>b. seqE (modify (need_hard_reset_update (\<lambda>_. b))) (\<lambda>_.
       push_metrics N j)))))))))"

section \<open>The handler\<close>

text \<open>The order of the \<open>catch\<close> clauses; \<open>None\<close> is an exception that none of them takes.\<close>

fun failure_code :: "exn \<Rightarrow> 8 word option" where
  "failure_code (json_parse_error m) = Some 22"
| "failure_code (json_type_error m) = Some 22"
| "failure_code (system_error e m) = Some 51"
| "failure_code (runtime_error m) = Some 50"
| "failure_code (crash m) = None"
| "failure_code _ = Some 52"

definition MAX_HEALTHCHECK_OUTPUT_SIZE :: nat where
  "MAX_HEALTHCHECK_OUTPUT_SIZE = 65536"

definition healthCheckHandler :: "('d, 'f) num_ops \<Rightarrow> (bytes \<Rightarrow> exn + 'd json) \<Rightarrow> proc_script \<Rightarrow> ('f, unit) health_act" where
  "healthCheckHandler N parse ps = catchE
     (case runProcessGetOutput ps MAX_HEALTHCHECK_OUTPUT_SIZE [] of
        (Inl e, _) \<Rightarrow> throw e
      | (Inr status, hk_output) \<Rightarrow>
          seqE (modify (health_state_update (\<lambda>_. word_of_int status))) (\<lambda>_.
          parseHealthcheckResponse N parse hk_output))
     (\<lambda>e. failure_code e \<noteq> None)
     (\<lambda>e. modify (response_code_update (\<lambda>_. the (failure_code e))))"

section \<open>Every failure has a code\<close>

definition safe :: "('f, 'a) health_act \<Rightarrow> bool" where
  "safe m \<longleftrightarrow> (\<forall>s e t. m s = (Inl e, t) \<longrightarrow> failure_code e \<noteq> None)"

lemma safe_seqE: "safe m \<Longrightarrow> (\<And>v. safe (f v)) \<Longrightarrow> safe (seqE m f)"
  unfolding safe_def seqE_split_asm by (metis sum.inject(1))

lemma safe_lift: "(\<And>e. r = Inl e \<Longrightarrow> failure_code e \<noteq> None) \<Longrightarrow> safe (lift r)"
  by (auto simp: safe_def)

lemma safe_basic: "safe (ret v)" "safe (modify f)" "failure_code e \<noteq> None \<Longrightarrow> safe (throw e)"
  by (auto simp: safe_def)

lemma safe_if: "safe a \<Longrightarrow> safe b \<Longrightarrow> safe (if c then a else b)"
  by simp

lemma conversion_codes:
  "json_at j name = Inl e \<Longrightarrow> failure_code e \<noteq> None" "get_int64 N v = Inl e \<Longrightarrow> failure_code e \<noteq> None"
  "get_uint32 N v = Inl e \<Longrightarrow> failure_code e \<noteq> None" "get_int32 N v = Inl e \<Longrightarrow> failure_code e \<noteq> None"
  "get_float32 N v = Inl e \<Longrightarrow> failure_code e \<noteq> None" "get_bool v = Inl e \<Longrightarrow> failure_code e \<noteq> None"
  "validate_array j name = Inl e \<Longrightarrow> failure_code e \<noteq> None" "require_type j name p = Inl e \<Longrightarrow> failure_code e \<noteq> None"
  by (cases v; cases j; auto simp: json_at_def get_int32_def get_bool_def validate_array_def require_type_def
      split: option.splits sum.splits json.splits if_splits)+

lemma safe_push_all: "(\<And>v e. conv v = Inl e \<Longrightarrow> failure_code e \<noteq> None) \<Longrightarrow> safe (push_all conv push items)"
  by (induction items) (auto intro!: safe_seqE safe_lift safe_basic)

lemma safe_parse:
  assumes "\<And>e. parse hk_output = Inl e \<Longrightarrow> failure_code e \<noteq> None"
  shows "safe (parseHealthcheckResponse N parse hk_output)"
  unfolding parseHealthcheckResponse_def get_at_def check_fields_def push_metrics_def
  by (intro safe_seqE safe_lift safe_basic safe_if safe_push_all) (auto dest: conversion_codes assms)

lemma runProcess_codes: "runProcessGetOutput ps mx out0 = (Inl e, out') \<Longrightarrow> failure_code e \<noteq> None"
  by (auto simp: runProcessGetOutput_def split: if_splits option.splits)

text \<open>The parser leaves the state of health and the code alone.\<close>

definition same_codes :: "'f HealthResponse \<Rightarrow> 'f HealthResponse \<Rightarrow> bool" where
  "same_codes r s \<longleftrightarrow> health_state s = health_state r \<and> response_code s = response_code r"

interpretation codes_frame: frame same_codes
  by unfold_locales (auto simp: same_codes_def)

lemma stable_fields [frame_intros]:
  "stable same_codes (modify (schema_version_update f))" "stable same_codes (modify (timestamp_update g))"
  "stable same_codes (modify (need_hard_reset_update b))" "stable same_codes (modify (imetric_update h))"
  "stable same_codes (modify (imetric_feeds_update k))" "stable same_codes (modify (fmetric_update l))"
  "stable same_codes (modify (fmetric_feeds_update k))"
  by (auto simp: stable_def same_codes_def)

lemma stable_push_all: "(\<And>v. stable same_codes (modify (push v))) \<Longrightarrow> stable same_codes (push_all conv push items)"
  by (induction items) (auto intro!: frame_intros)

lemma stable_parse: "stable same_codes (parseHealthcheckResponse N parse hk_output)"
  unfolding parseHealthcheckResponse_def get_at_def check_fields_def push_metrics_def
  by (intro frame_intros stable_push_all)

text \<open>
  (C18) The health check always answers: no exception of the program run, of the JSON library or of the
  checks leaves the handler, the code is one of the four for failures or is left as it was, and the
  state of health is the low byte of the program's status whenever it ran.
\<close>

theorem healthCheck_answers:
  assumes "\<And>bs e. parse bs = Inl e \<Longrightarrow> is_json_exception e"
  shows "\<exists>rsp. healthCheckHandler N parse ps r = (Inr (), rsp)
    \<and> response_code rsp \<in> {response_code r, 22, 50, 51, 52}
    \<and> (\<forall>status out. runProcessGetOutput ps 65536 [] = (Inr status, out) \<longrightarrow> health_state rsp = word_of_int status)"
proof -
  have js: "parse bs = Inl e \<Longrightarrow> failure_code e \<noteq> None" for bs e using assms [of bs e] by (cases e) auto
  have cases: "the (failure_code e) \<in> {22, 50, 51, 52}" if "failure_code e \<noteq> None" for e using that by (cases e) auto
  obtain o1 o2 where run: "runProcessGetOutput ps 65536 [] = (o1, o2)" by (cases "runProcessGetOutput ps 65536 []")
  show ?thesis
  proof (cases o1)
    case (Inl e)
    then have "failure_code e \<noteq> None" using runProcess_codes run by blast
    then show ?thesis using run Inl cases [of e]
      by (auto simp: healthCheckHandler_def MAX_HEALTHCHECK_OUTPUT_SIZE_def catchE_def)
  next
    case (Inr status)
    obtain p rsp where p: "parseHealthcheckResponse N parse o2 (r\<lparr>health_state := word_of_int status\<rparr>) = (p, rsp)"
      by (cases "parseHealthcheckResponse N parse o2 (r\<lparr>health_state := word_of_int status\<rparr>)")
    then have sc: "same_codes (r\<lparr>health_state := word_of_int status\<rparr>) rsp" by (rule stableD [OF stable_parse])
    have sp: "safe (parseHealthcheckResponse N parse o2)" by (rule safe_parse) (rule js)
    have h: "healthCheckHandler N parse ps r = (case p of
        Inl e \<Rightarrow> if failure_code e \<noteq> None then (Inr (), rsp\<lparr>response_code := the (failure_code e)\<rparr>) else (Inl e, rsp)
      | Inr u \<Rightarrow> (Inr u, rsp))"
      unfolding healthCheckHandler_def MAX_HEALTHCHECK_OUTPUT_SIZE_def run Inr catchE_def prod.case sum.case seqE_def ste_run p
      by (cases p) auto
    show ?thesis
    proof (cases p)
      case (Inl e)
      then have "failure_code e \<noteq> None" using sp p by (auto simp: safe_def)
      then show ?thesis using h run Inr Inl sc cases [of e] by (auto simp: same_codes_def)
    next
      case (Inr u)
      then show ?thesis using h run \<open>o1 = Inr status\<close> sc by (simp add: same_codes_def)
    qed
  qed
qed

section \<open>What a response without a failure says\<close>

lemma push_all_run:
  assumes fuse: "\<And>f g s. upd f (upd g s) = upd (\<lambda>l. f (g l)) s" and idem: "\<And>s. upd (\<lambda>l. l) s = s"
    and run: "push_all conv (\<lambda>v. upd (\<lambda>l. l @ [v])) items s = (Inr (), t)"
  shows "t = upd (\<lambda>l. l @ map (projr \<circ> conv) items) s"
  using run
proof (induction items arbitrary: s)
  case (Cons it items)
  then obtain v where v: "conv it = Inr v" by (auto simp: seqE_def split: sum.splits)
  then have "push_all conv (\<lambda>v. upd (\<lambda>l. l @ [v])) items (upd (\<lambda>l. l @ [v]) s) = (Inr (), t)"
    using Cons.prems by (simp add: seqE_def)
  from Cons.IH [OF this] show ?case by (simp add: fuse v)
qed (simp add: idem)

lemma seqE_liftD: "seqE (lift r) f s = (Inr u, t) \<Longrightarrow> \<exists>v. r = Inr v \<and> f v s = (Inr u, t)"
  by (auto simp: seqE_def split: sum.splits)

lemma seqE_modify: "seqE (modify g) f s = f () (g s)"
  by (simp add: seqE_def)

definition field :: "'d json \<Rightarrow> string \<Rightarrow> 'd json list" where
  "field j name = elements (projr (json_at j name))"

lemma push_metrics_run:
  assumes "push_metrics N j s = (Inr (), t)"
  shows "t = s\<lparr>imetric := imetric s @ map (projr \<circ> get_int32 N) (field j ''int_metrics''),
    imetric_feeds := imetric_feeds s @ map (projr \<circ> get_uint32 N) (field j ''int_metric_counts''),
    fmetric := fmetric s @ map (projr \<circ> get_float32 N) (field j ''float_metrics''),
    fmetric_feeds := fmetric_feeds s @ map (projr \<circ> get_uint32 N) (field j ''float_metric_counts'')\<rparr>"
proof -
  from assms obtain a1 s1 where 1: "json_at j ''int_metrics'' = Inr a1"
      "push_all (get_int32 N) (\<lambda>v. imetric_update (\<lambda>l. l @ [v])) (elements a1) s = (Inr (), s1)"
    and r1: "seqE (lift (json_at j ''int_metric_counts'')) (\<lambda>a.
     seqE (push_all (get_uint32 N) (\<lambda>v. imetric_feeds_update (\<lambda>l. l @ [v])) (elements a)) (\<lambda>_.
     seqE (lift (json_at j ''float_metrics'')) (\<lambda>a.
     seqE (push_all (get_float32 N) (\<lambda>v. fmetric_update (\<lambda>l. l @ [v])) (elements a)) (\<lambda>_.
     seqE (lift (json_at j ''float_metric_counts'')) (\<lambda>a.
     push_all (get_uint32 N) (\<lambda>v. fmetric_feeds_update (\<lambda>l. l @ [v])) (elements a)))))) s1 = (Inr (), t)"
    unfolding push_metrics_def by (auto dest!: seqE_liftD simp: seqE_Inr_iff)
  from r1 obtain a2 s2 a3 s3 a4 where
      2: "json_at j ''int_metric_counts'' = Inr a2" "push_all (get_uint32 N) (\<lambda>v. imetric_feeds_update (\<lambda>l. l @ [v])) (elements a2) s1 = (Inr (), s2)"
    and 3: "json_at j ''float_metrics'' = Inr a3" "push_all (get_float32 N) (\<lambda>v. fmetric_update (\<lambda>l. l @ [v])) (elements a3) s2 = (Inr (), s3)"
    and 4: "json_at j ''float_metric_counts'' = Inr a4" "push_all (get_uint32 N) (\<lambda>v. fmetric_feeds_update (\<lambda>l. l @ [v])) (elements a4) s3 = (Inr (), t)"
    by (auto dest!: seqE_liftD simp: seqE_Inr_iff)
  have "s1 = imetric_update (\<lambda>l. l @ map (projr \<circ> get_int32 N) (elements a1)) s" by (rule push_all_run [OF _ _ 1(2)]) simp_all
  moreover have "s2 = imetric_feeds_update (\<lambda>l. l @ map (projr \<circ> get_uint32 N) (elements a2)) s1" by (rule push_all_run [OF _ _ 2(2)]) simp_all
  moreover have "s3 = fmetric_update (\<lambda>l. l @ map (projr \<circ> get_float32 N) (elements a3)) s2" by (rule push_all_run [OF _ _ 3(2)]) simp_all
  moreover have "t = fmetric_feeds_update (\<lambda>l. l @ map (projr \<circ> get_uint32 N) (elements a4)) s3" by (rule push_all_run [OF _ _ 4(2)]) simp_all
  ultimately show ?thesis using 1(1) 2(1) 3(1) 4(1) by (simp add: field_def)
qed

lemma validate_arrayD: "validate_array j name = Inr u \<Longrightarrow> length (field j name) \<le> 255"
  by (auto simp: validate_array_def field_def elements_def HK_MAX_ARRAY_LEN_def split: sum.splits json.splits if_splits)

lemma require_typeD: "require_type j name p = Inr u \<Longrightarrow> \<exists>v. json_at j name = Inr v \<and> p v"
  by (auto simp: require_type_def split: sum.splits if_splits)

lemma is_number_unsignedD: "is_number_unsigned v \<Longrightarrow> \<exists>u. v = JUnsigned u"
  by (cases v) (auto simp: is_number_unsigned_def)

lemma is_booleanD: "is_boolean v \<Longrightarrow> \<exists>b. v = JBool b"
  by (cases v) (auto simp: is_boolean_def)

lemma check_fields_run:
  assumes "check_fields j s = (Inr (), t)"
  shows "t = s \<and> length (field j ''int_metrics'') \<le> 255 \<and> length (field j ''float_metrics'') \<le> 255
    \<and> length (field j ''int_metric_counts'') \<le> 255 \<and> length (field j ''float_metric_counts'') \<le> 255
    \<and> (\<exists>u. json_at j ''schema_version'' = Inr (JUnsigned u)) \<and> (\<exists>u. json_at j ''payload_timestamp'' = Inr (JUnsigned u))
    \<and> (\<exists>b. json_at j ''need_hard_reset'' = Inr (JBool b))"
  using assms unfolding check_fields_def
  by (auto dest!: seqE_liftD validate_arrayD require_typeD is_number_unsignedD is_booleanD)

lemma parse_run:
  assumes "parseHealthcheckResponse N parse hk s = (Inr (), t)"
  shows "\<exists>j sv ts b. parse hk = Inr j \<and> (\<exists>v. json_at j ''version'' = Inr v \<and> get_int64 N v = Inr 1)
    \<and> json_at j ''schema_version'' = Inr (JUnsigned sv) \<and> json_at j ''payload_timestamp'' = Inr (JUnsigned ts)
    \<and> json_at j ''need_hard_reset'' = Inr (JBool b)
    \<and> length (field j ''int_metrics'') \<le> 255 \<and> length (field j ''float_metrics'') \<le> 255
    \<and> length (field j ''int_metric_counts'') \<le> 255 \<and> length (field j ''float_metric_counts'') \<le> 255
    \<and> push_metrics N j (s\<lparr>schema_version := ucast sv, timestamp := ucast ts, need_hard_reset := b\<rparr>) = (Inr (), t)"
proof -
  from assms obtain j v where j: "parse hk = Inr j" "json_at j ''version'' = Inr v" "get_int64 N v = Inr 1"
    and rest: "seqE (check_fields j) (\<lambda>_.
       seqE (get_at j ''schema_version'' (get_uint32 N)) (\<lambda>v. seqE (modify (schema_version_update (\<lambda>_. v))) (\<lambda>_.
       seqE (get_at j ''payload_timestamp'' (get_uint32 N)) (\<lambda>v. seqE (modify (timestamp_update (\<lambda>_. v))) (\<lambda>_.
       seqE (get_at j ''need_hard_reset'' get_bool) (\<lambda>b. seqE (modify (need_hard_reset_update (\<lambda>_. b))) (\<lambda>_.
       push_metrics N j))))))) s = (Inr (), t)"
    unfolding parseHealthcheckResponse_def
    by (auto dest!: seqE_liftD simp: seqE_Inr_iff get_at_def split: if_splits)
  from rest obtain s' where cf: "check_fields j s = (Inr (), s')" by (auto simp: seqE_Inr_iff)
  with check_fields_run [OF cf] obtain sv ts b where
    f: "json_at j ''schema_version'' = Inr (JUnsigned sv)" "json_at j ''payload_timestamp'' = Inr (JUnsigned ts)"
      "json_at j ''need_hard_reset'' = Inr (JBool b)" "s' = s" by blast
  have "push_metrics N j (s\<lparr>schema_version := ucast sv, timestamp := ucast ts, need_hard_reset := b\<rparr>) = (Inr (), t)"
    using rest unfolding seqE_Inr [of "check_fields j" s "()" s', OF cf] get_at_def f by (simp add: seqE_def get_bool_def)
  with j check_fields_run [OF cf] f show ?thesis by blast
qed

text \<open>
  (C19) A response that reports no failure is what the program printed: version 1 of the format, the
  schema version, time and reset flag of the document, and its four arrays, each of at
  most 255 elements, converted one by one and in order.
\<close>

theorem healthCheck_reports:
  assumes run: "healthCheckHandler N parse ps new_response = (Inr (), rsp)" and ok: "response_code rsp = 0"
  shows "\<exists>status out j sv ts. runProcessGetOutput ps 65536 [] = (Inr status, out) \<and> parse out = Inr j
    \<and> (\<exists>v. json_at j ''version'' = Inr v \<and> get_int64 N v = Inr 1)
    \<and> json_at j ''schema_version'' = Inr (JUnsigned sv) \<and> schema_version rsp = ucast sv
    \<and> json_at j ''payload_timestamp'' = Inr (JUnsigned ts) \<and> timestamp rsp = ucast ts
    \<and> json_at j ''need_hard_reset'' = Inr (JBool (need_hard_reset rsp))
    \<and> imetric rsp = map (projr \<circ> get_int32 N) (field j ''int_metrics'') \<and> length (imetric rsp) \<le> 255
    \<and> imetric_feeds rsp = map (projr \<circ> get_uint32 N) (field j ''int_metric_counts'') \<and> length (imetric_feeds rsp) \<le> 255
    \<and> fmetric rsp = map (projr \<circ> get_float32 N) (field j ''float_metrics'') \<and> length (fmetric rsp) \<le> 255
    \<and> fmetric_feeds rsp = map (projr \<circ> get_uint32 N) (field j ''float_metric_counts'') \<and> length (fmetric_feeds rsp) \<le> 255"
proof -
  have nz: "failure_code e \<noteq> Some 0" for e by (cases e) auto
  obtain o1 o2 where p: "runProcessGetOutput ps 65536 [] = (o1, o2)" by (cases "runProcessGetOutput ps 65536 []")
  obtain status where o1: "o1 = Inr status"
    and pr: "parseHealthcheckResponse N parse o2 (new_response\<lparr>health_state := word_of_int status\<rparr>) = (Inr (), rsp)"
    using run ok nz unfolding healthCheckHandler_def MAX_HEALTHCHECK_OUTPUT_SIZE_def p
    by (auto simp: catchE_def seqE_modify split: sum.splits prod.splits if_splits)
  from parse_run [OF pr] obtain j sv ts b where j: "parse o2 = Inr j" "\<exists>v. json_at j ''version'' = Inr v \<and> get_int64 N v = Inr 1"
    "json_at j ''schema_version'' = Inr (JUnsigned sv)" "json_at j ''payload_timestamp'' = Inr (JUnsigned ts)"
    "json_at j ''need_hard_reset'' = Inr (JBool b)"
    and len: "length (field j ''int_metrics'') \<le> 255" "length (field j ''float_metrics'') \<le> 255"
      "length (field j ''int_metric_counts'') \<le> 255" "length (field j ''float_metric_counts'') \<le> 255"
    and pm: "push_metrics N j (new_response\<lparr>health_state := word_of_int status, schema_version := ucast sv,
       timestamp := ucast ts, need_hard_reset := b\<rparr>) = (Inr (), rsp)" by blast
  note r = push_metrics_run [OF pm]
  show ?thesis unfolding p o1 using j len by (auto simp: r new_response_def)
qed

section \<open>Witnesses\<close>

definition demo_num :: "(int, int) num_ops" where
  "demo_num = \<lparr>d_to_int = (\<lambda>d. d), d_to_f32 = (\<lambda>d. d), int_to_f32 = (\<lambda>i. i)\<rparr>"

definition demo_doc :: "int json" where
  "demo_doc = JObject [(''version'', JUnsigned 1), (''int_metrics'', JArray [JUnsigned 7, JInteger (-8)]),
     (''float_metrics'', JArray [JFloat 3]), (''int_metric_counts'', JArray [JUnsigned 1, JUnsigned 2]),
     (''float_metric_counts'', JArray [JUnsigned 3]), (''schema_version'', JUnsigned 4),
     (''payload_timestamp'', JUnsigned 1628760852), (''need_hard_reset'', JBool True)]"

definition demo_parse_json :: "bytes \<Rightarrow> exn + int json" where
  "demo_parse_json bs = (if bs = [123, 125] then Inr demo_doc else Inl (json_parse_error ''unexpected end of input''))"

definition demo_script :: "bytes \<Rightarrow> proc_script" where
  "demo_script bs = \<lparr>ps_sigmask = 0, ps_pipe = None, ps_fork = None, ps_errno = EIO, ps_reads = [Inr bs], ps_end = Exited 5\<rparr>"

lemma demo_output: "runProcessGetOutput (demo_script [123, 125]) 65536 [] = (Inr 5, [123, 125])"
  by (simp add: runProcessGetOutput_def demo_script_def)

lemma demo_health: "healthCheckHandler demo_num demo_parse_json (demo_script [123, 125]) new_response = (Inr (),
  \<lparr>response_code = 0, health_state = 5, schema_version = 4, need_hard_reset = True, timestamp = 1628760852,
   imetric_feeds = [1, 2], imetric = [7, -8], fmetric_feeds = [3], fmetric = [3]\<rparr>)"
proof -
  have "parseHealthcheckResponse demo_num demo_parse_json [123, 125] (new_response\<lparr>health_state := 5\<rparr>) = (Inr (),
    \<lparr>response_code = 0, health_state = 5, schema_version = 4, need_hard_reset = True, timestamp = 1628760852,
     imetric_feeds = [1, 2], imetric = [7, -8], fmetric_feeds = [3], fmetric = [3]\<rparr>)" by code_simp
  then show ?thesis
    by (simp add: healthCheckHandler_def MAX_HEALTHCHECK_OUTPUT_SIZE_def demo_output catchE_def seqE_modify)
qed

theorem healthCheck_answers_witness:
  "\<exists>rsp. healthCheckHandler demo_num demo_parse_json (demo_script [0]) new_response = (Inr (), rsp)
    \<and> response_code rsp \<in> {0, 22, 50, 51, 52} \<and> health_state rsp = 5"
proof -
  have "\<And>bs e. demo_parse_json bs = Inl e \<Longrightarrow> is_json_exception e" by (auto simp: demo_parse_json_def split: if_splits)
  from healthCheck_answers [OF this, where N = demo_num and ps = "demo_script [0]" and r = new_response] show ?thesis
    by (auto simp: runProcessGetOutput_def demo_script_def new_response_def)
qed

theorem healthCheck_reports_witness:
  "\<exists>rsp j. healthCheckHandler demo_num demo_parse_json (demo_script [123, 125]) new_response = (Inr (), rsp)
    \<and> demo_parse_json [123, 125] = Inr j \<and> imetric rsp = map (projr \<circ> get_int32 demo_num) (field j ''int_metrics'')
    \<and> imetric rsp = [7, -8]"
  using healthCheck_reports [OF demo_health] demo_output demo_health by auto

end
