(* ===== verification/Spec2Isabelle.thy ===== *)
theory Spec2Isabelle
  imports Oort_Main Oort_Health
begin

text \<open>
  \<^bold>\<open>The OORT agent.\<close> The agent runs on a satellite. Programs there hand it files to be sent to the ground and collect
  files that arrived from the ground; a collector process asks it what is waiting. It answers
  HTTP requests (\<^verbatim>\<open>src/agent/server/router\<close>, \<^verbatim>\<open>impl/SdkApiImpl.cpp\<close>, \<^verbatim>\<open>impl/CollectorApiImpl.cpp\<close>) with the handlers of the class
  \<open>Agent\<close> (\<^verbatim>\<open>impl/Agent.cpp\<close>), which keep the files in four directories below a working directory
  (\<^verbatim>\<open>transfers\<close>, \<^verbatim>\<open>uploads\<close>, \<^verbatim>\<open>upgrades\<close>, \<^verbatim>\<open>dead\<close>). A file in transfer is two files, data and metadata, whose names
  differ in the extension. A worker thread removes old files (\<^verbatim>\<open>impl/Cleaner.cpp\<close>), caches spare directory
  listings and parsing (\<^verbatim>\<open>impl/Cache.h\<close>), and an optional CAN bus delivers reports and takes commands of the
  attitude control and asks for a health check (\<^verbatim>\<open>impl/AgentUAVCANServer.cpp\<close>, \<^verbatim>\<open>impl/AgentUAVCANClient.cpp\<close>,
  \<^verbatim>\<open>impl/Adaptor.cpp\<close>, \<^verbatim>\<open>impl/Adcs.cpp\<close>). File names below are relative to \<^verbatim>\<open>src/agent/server\<close>.

  \<^bold>\<open>How the code is modelled.\<close> A C++ statement is a function from the state before it to an outcome (\<open>Inl\<close> an
  exception in flight, \<open>Inr\<close> a value) and the state after it (\<open>ste\<close> in \<^verbatim>\<open>Oort_Prelude\<close>); \<open>seqE\<close>, \<open>catchE\<close>, \<open>lift\<close> are
  sequence, \<open>try\<close>/\<open>catch\<close> and a call that may throw. Every exception of the sources is a constructor
  of \<open>exn\<close>; \<open>crash\<close> is an access the language leaves undefined. The operating system is the record \<open>world\<close> of
  \<^verbatim>\<open>Oort_Posix\<close>: files by path, the clocks, and an oracle that lets any call fail with any error; theorems quantify
  over it. Threads are step relations whose program counters name statements (\<^verbatim>\<open>Oort_Cleaner\<close>, \<^verbatim>\<open>Oort_Process\<close>,
  \<^verbatim>\<open>Oort_Adaptor\<close>, \<^verbatim>\<open>Oort_Server\<close>, \<^verbatim>\<open>Oort_Main\<close>). Integers are \<open>int\<close> with the wrap-around of their width written out,
  or words where the code computes in them; the attitude computations are over the reals instead of \<open>double\<close>.

  \<^bold>\<open>Theories.\<close>
  \<^item> \<^verbatim>\<open>Oort_Prelude\<close>: exceptions, computations, the locale \<open>frame\<close> with the rules (\<open>frame_intros\<close>) that carry a
    relation between states through a computation, decimal numbers.
  \<^item> \<^verbatim>\<open>Oort_Utils\<close> (\<^verbatim>\<open>impl/Utils.cpp\<close>): path helpers, UUIDs, the block-wise checksum; locale \<open>incremental_digest\<close>.
  \<^item> \<^verbatim>\<open>Oort_Posix\<close>: the file system and the calls the sources make, each with its frame.
  \<^item> \<^verbatim>\<open>Oort_Files\<close> (\<^verbatim>\<open>impl/Files.cpp\<close>): listings, \<open>stat\<close>, \<open>FileInfo\<close>, old files.
  \<^item> \<^verbatim>\<open>Oort_Move\<close> (\<^verbatim>\<open>impl/Agent.cpp\<close>): disk-space checks and \<open>move_file\<close> with the copy across devices.
  \<^item> \<^verbatim>\<open>Oort_Cache\<close> (\<^verbatim>\<open>impl/Cache.h\<close>): the cache, as an implementation of the locale \<open>ttl_memo\<close>.
  \<^item> \<^verbatim>\<open>Oort_Model\<close>: the API objects, the configuration, the state of the agent, the parameters \<open>ext\<close>.
  \<^item> \<^verbatim>\<open>Oort_Cleaner\<close> (\<^verbatim>\<open>impl/Cleaner.cpp\<close>): exactly which files a pass removes; the worker thread and its end.
  \<^item> \<^verbatim>\<open>Oort_Agent\<close>, \<^verbatim>\<open>Oort_Handlers\<close>, \<^verbatim>\<open>Oort_Service\<close> (\<^verbatim>\<open>impl/Agent.cpp\<close>): construction, the handlers, what an
    accepted, refused or failed request has done to the files, the invariant every handler keeps, what a query returns.
  \<^item> \<^verbatim>\<open>Oort_Log\<close> (\<^verbatim>\<open>impl/Log.cpp\<close>, \<^verbatim>\<open>impl/OnionLog.cpp\<close>), \<^verbatim>\<open>Oort_Config\<close> (\<^verbatim>\<open>impl/Config.cpp\<close>): the logger, the command line.
  \<^item> \<^verbatim>\<open>Oort_Sync\<close> (\<^verbatim>\<open>impl/Utils.cpp\<close>): semaphores and their guard, as an implementation of the locale \<open>try_lock\<close>.
  \<^item> \<^verbatim>\<open>Oort_Process\<close> (\<^verbatim>\<open>impl/Utils.cpp\<close>): a child process with its reader and timer; \<^verbatim>\<open>Oort_Health\<close>: the health check built on it.
  \<^item> \<^verbatim>\<open>Oort_Adaptor\<close> (\<^verbatim>\<open>impl/Adaptor.cpp\<close>, \<^verbatim>\<open>impl/AgentUAVCANClient.cpp\<close>, \<open>Agent::adcs_command\<close>), \<^verbatim>\<open>Oort_Adcs\<close>
    (\<^verbatim>\<open>impl/Adcs.cpp\<close>), \<^verbatim>\<open>Oort_Server\<close> (\<^verbatim>\<open>impl/AgentUAVCANServer.cpp\<close>): commands, reports, the thread that serves the bus.
  \<^item> \<^verbatim>\<open>Oort_Router\<close>: from an HTTP request to a handler and back; locale \<open>agent_frame\<close> (what no handler assigns to).
  \<^item> \<^verbatim>\<open>Oort_Main\<close> (\<^verbatim>\<open>main-api-server.cpp\<close>): start-up, signals, and the program as a whole (\<open>running\<close>).

  \<^bold>\<open>What is shown.\<close>
  \<^item> Files are not lost: \<open>move_file\<close> either moves a file, verified by its checksum, or leaves both
    places as they were. Two renames can spoil this, the one that undoes a failed move and the unchecked one that puts a copy in
    place: when they fail the data is whole under a temporary name (\<open>set_aside\<close>, \<open>landed\<close>). \<open>send_file\<close> and \<open>retrieve_file\<close> inherit this, on every branch, in terms of the two files of
    a transfer, and the one exception that leaves \<open>send_file\<close> is characterised. Sizes and times in metadata are those
    of the file narrowed to 32 bits (\<open>to_int32\<close>).
  \<^item> The cleaner removes old metadata and the data files it orphans, and nothing else; its thread ends
    when told to, without sitting out its interval, and cleans no more.
  \<^item> The cache answers as the function it stands for would have, within the time to live.
  \<^item> From end to end over HTTP: the routers implement the interface given by paths and methods; what is
    sent with POST is described by GET; what was uploaded and is intact is delivered by a retrieval, in any reachable state, to a destination
    that is ready; a query lists only files that are there; a request that is not a POST changes nothing outside the
    working directory; an invariant of the program holds from start-up on, whatever the requests.
  \<^item> The command line configures the program as it says, with the exceptions it lets escape.
  \<^item> The child process is reaped, killed in time, and its output is what was written, cut to the limit; the call returns
    unless a descendant of the child keeps the pipe open or the child was stopped, and exactly then it can hang (\<open>read_blocked\<close>, \<open>wait_blocked\<close>). The
    health check, once it has the result of the child, answers with one of five codes.
  \<^item> Commands to the attitude control do not overlap; reports are converted to a position and to Euler angles that are the reported
    position and attitude. The thread of the bus only serves a node that has all its services.

  \<^bold>\<open>Bounds and fuel.\<close> Loops are structural recursions or have a measure. The one with fuel is \<open>copy_loop\<close> (\<^verbatim>\<open>Oort_Move\<close>): it
  is called with one more than the size of the file, which is enough because each round with progress copies a byte at least.
  Termination of the threads is a measure that every step decreases.

  \<^bold>\<open>Parameters.\<close> zlib's \<open>crc32\<close>, \<open>strerror\<close>, \<open>uname\<close>, \<open>getpwuid_r\<close>, the version strings of the build, and the JSON library with the
  generated models (printing and reading metadata, reading request bodies) are fields of \<open>ext\<close> and \<open>http_ext\<close>; the matching of
  URL patterns by the HTTP library is \<open>x_url_match\<close>, with \<open>url_laws\<close> saying what the patterns in the sources match (a
  pattern without \<^verbatim>\<open>^\<close> is a plain string there); the blocking call and the construction of a node of the CAN library are \<open>can_call\<close>
  and \<open>can_lib\<close>. What the theorems need of them is a named hypothesis: \<open>json_errors\<close>, \<open>incremental_digest\<close>, \<open>url_laws\<close>.
  \<open>unsigned long\<close> and \<open>size_t\<close> have 64 bits, \<open>int\<close> and the generated \<open>integer\<close> 32.

  \<^bold>\<open>Not modelled.\<close> Calls of the log inside handlers (they change nothing the handlers look at; the logger itself is
  modelled). Requests are served one at a time in \<open>running\<close>: the four pool threads of the HTTP library share the caches under their mutex,
  and only the latch of \<open>adcs_command\<close> is modelled with threads. Symbolic links, hard links and \<^verbatim>\<open>..\<close> in paths. The text of JSON documents. The
  libraries under \<^verbatim>\<open>thirdparty\<close>, generated code, the SDK templates, tests and build files.
\<close>

end
